(* ===== verification/Nb_Prelude.thy ===== *)
theory Nb_Prelude
  imports Main "HOL-Library.Word" "HOL-Library.Monad_Syntax"
begin

text \<open>
  Prelude of the netbox development: the machine integers the C++ sources use, the
  results of operations that throw, byte sequences as machine words in either byte
  order, and the lemmas about them that every component shares.
\<close>

unbundle bit_operations_syntax

section \<open>Machine integers\<close>

type_synonym u8 = "8 word"
type_synonym u16 = "16 word"
type_synonym u32 = "32 word"
type_synonym u64 = "64 word"

text \<open>
  Conventions. An operation whose C++ behaviour is undefined on some state (a null
  dereference, a read or write out of bounds) returns an option, with None for the
  undefined case; a safety theorem shows that None does not occur. An operation that
  throws returns a sum, with the exception on the left.
\<close>

section \<open>A collection of rewrite rules\<close>

named_theorems byte_simps \<open>byte sequences and machine words\<close>

section \<open>Generic lemmas\<close>

lemma u32_less: "unat (w :: u32) < 2 ^ 32"
  using unsigned_less [of w, where ?'a = nat] by simp

lemma u8_less: "unat (x :: u8) < 256"
  using unsigned_less [of x, where ?'a = nat] by simp

lemma bind_Some_iff:
  "(do { x \<leftarrow> f; g x }) = Some y \<longleftrightarrow> (\<exists>x. f = Some x \<and> g x = Some y)"
  by (cases f) auto

section \<open>Byte order of the host\<close>

text \<open>The two values of the compiler's \<open>__BYTE_ORDER__\<close> the sources distinguish.\<close>

datatype endian = Little | Big

section \<open>Words as byte sequences\<close>

text \<open>
  \<open>word_of_le bs\<close> is the word whose bytes are \<open>bs\<close>, least significant first;
  \<open>bytes_of_le n w\<close> are the \<open>n\<close> low bytes of \<open>w\<close>, least significant first.
\<close>

primrec word_of_le :: "u8 list \<Rightarrow> 'a::len word" where
  "word_of_le [] = 0"
| "word_of_le (b # bs) = (ucast b OR push_bit 8 (word_of_le bs))"

primrec bytes_of_le :: "nat \<Rightarrow> 'a::len word \<Rightarrow> u8 list" where
  "bytes_of_le 0 w = []"
| "bytes_of_le (Suc n) w = ucast w # bytes_of_le n (drop_bit 8 w)"

text \<open>The object representation of a word on a host of the given byte order.\<close>

definition word_of_bytes :: "endian \<Rightarrow> u8 list \<Rightarrow> 'a::len word" where
  "word_of_bytes e bs = (case e of Little \<Rightarrow> word_of_le bs | Big \<Rightarrow> word_of_le (rev bs))"

definition bytes_of_word :: "endian \<Rightarrow> nat \<Rightarrow> 'a::len word \<Rightarrow> u8 list" where
  "bytes_of_word e n w = (case e of Little \<Rightarrow> bytes_of_le n w | Big \<Rightarrow> rev (bytes_of_le n w))"

lemma length_bytes_of_le [simp]: "length (bytes_of_le n w) = n"
  by (induction n arbitrary: w) auto

lemma length_bytes_of_word [simp]: "length (bytes_of_word e n w) = n"
  by (cases e) (auto simp: bytes_of_word_def)

lemma nth_bytes_of_le: "j < n \<Longrightarrow> bytes_of_le n w ! j = ucast (drop_bit (8 * j) w)"
proof (induction n arbitrary: w j)
  case (Suc n)
  then show ?case
    by (cases j) (auto simp: add.commute)
qed simp

lemma bit_word_of_le:
  "bit (word_of_le bs :: 'a::len word) i \<longleftrightarrow>
     i < LENGTH('a) \<and> i div 8 < length bs \<and> bit (bs ! (i div 8)) (i mod 8)"
proof (induction bs arbitrary: i)
  case (Cons b bs)
  show ?case
  proof (cases "i < 8")
    case True
    then show ?thesis by (auto simp: bit_simps)
  next
    case False
    then obtain k where k: "i = k + 8" by (metis add.commute le_add_diff_inverse not_less)
    then have "i div 8 = Suc (k div 8)" and "i mod 8 = k mod 8" by auto
    with k show ?thesis
      by (auto simp: bit_simps Cons.IH dest: bit_imp_le_length)
  qed
qed simp

lemma word_of_le_bytes_of_le [byte_simps]:
  assumes "LENGTH('a) = 8 * n"
  shows "word_of_le (bytes_of_le n (w :: 'a::len word)) = w"
proof (rule bit_word_eqI)
  fix i assume i: "i < LENGTH('a)"
  with assms have j: "i div 8 < n" by auto
  have "8 * (i div 8) + i mod 8 = i" by simp
  with i j show "bit (word_of_le (bytes_of_le n w) :: 'a word) i = bit w i"
    by (simp add: bit_word_of_le nth_bytes_of_le bit_simps)
qed

lemma bytes_of_le_word_of_le [byte_simps]:
  assumes "LENGTH('a) = 8 * n" and "length bs = n"
  shows "bytes_of_le n (word_of_le bs :: 'a::len word) = bs"
proof (rule nth_equalityI)
  fix j assume j: "j < length (bytes_of_le n (word_of_le bs :: 'a word))"
  show "bytes_of_le n (word_of_le bs :: 'a word) ! j = bs ! j"
  proof (rule bit_word_eqI)
    fix i assume "i < LENGTH(8)"
    with j assms show "bit (bytes_of_le n (word_of_le bs :: 'a word) ! j) i = bit (bs ! j) i"
      by (auto simp: nth_bytes_of_le bit_simps bit_word_of_le)
  qed
qed (use assms in simp)

lemma word_of_bytes_of_word [byte_simps]:
  "LENGTH('a) = 8 * n \<Longrightarrow> word_of_bytes e (bytes_of_word e n (w :: 'a::len word)) = w"
  by (cases e) (simp_all add: word_of_bytes_def bytes_of_word_def word_of_le_bytes_of_le)

lemma bytes_of_word_of_bytes [byte_simps]:
  "LENGTH('a) = 8 * n \<Longrightarrow> length bs = n \<Longrightarrow>
     bytes_of_word e n (word_of_bytes e bs :: 'a::len word) = bs"
  by (cases e) (simp_all add: word_of_bytes_def bytes_of_word_def bytes_of_le_word_of_le)

lemma length_2_conv: "length bs = 2 \<longleftrightarrow> (\<exists>a b. bs = [a, b])"
  by (auto simp: numeral_2_eq_2 length_Suc_conv)

lemma length_4_conv: "length bs = 4 \<longleftrightarrow> (\<exists>a b c d. bs = [a, b, c, d])"
  by (auto simp: eval_nat_numeral length_Suc_conv)

section \<open>Values of byte sequences\<close>

text \<open>
  The number a byte sequence denotes, in either order, on natural numbers: the
  specification the word-level code is compared with.
\<close>

primrec le_value :: "u8 list \<Rightarrow> nat" where
  "le_value [] = 0"
| "le_value (b # bs) = unat b + 256 * le_value bs"

definition be_value :: "u8 list \<Rightarrow> nat" where
  "be_value bs = le_value (rev bs)"

lemma le_value_bound: "le_value bs < 2 ^ (8 * length bs)"
proof (induction bs)
  case (Cons b bs)
  have "unat b < 256" using unsigned_less [of b, where ?'a = nat] by simp
  with Cons show ?case by (simp add: power_add)
qed simp

lemma unat_word_of_le:
  "8 * length bs \<le> LENGTH('a) \<Longrightarrow> unat (word_of_le bs :: 'a::len word) = le_value bs"
proof (induction bs)
  case (Cons b bs)
  let ?w = "word_of_le bs :: 'a word"
  have "2 ^ (8 * length (b # bs)) \<le> (2 :: nat) ^ LENGTH('a)"
    using Cons.prems by (intro power_increasing) auto
  with le_value_bound [of "b # bs"] have bound: "le_value (b # bs) < 2 ^ LENGTH('a)"
    by (rule less_le_trans)
  have w: "unat ?w = le_value bs" using Cons by simp
  have b: "unat (ucast b :: 'a word) = unat b"
  proof -
    have "unat b < 2 ^ 8" using unsigned_less [of b, where ?'a = nat] by simp
    also have "(2 :: nat) ^ 8 \<le> 2 ^ LENGTH('a)"
      using Cons.prems by (intro power_increasing) auto
    finally show ?thesis by (simp add: unsigned_ucast_eq take_bit_nat_eq_self)
  qed
  have "unat (push_bit 8 ?w) = 256 * le_value bs"
    unfolding unsigned_push_bit_eq w
    using bound by (simp add: push_bit_eq_mult take_bit_nat_eq_self mult.commute)
  moreover have "ucast b OR push_bit 8 ?w = ucast b + push_bit 8 ?w"
    by (rule disjunctive_add [symmetric]) (auto simp: bit_simps dest: bit_imp_le_length)
  ultimately show ?case
    using bound by (simp add: b unat_add_lem [THEN iffD1])
qed simp

lemma unat_word_of_be [byte_simps]:
  "8 * length bs \<le> LENGTH('a) \<Longrightarrow> unat (word_of_le (rev bs) :: 'a::len word) = be_value bs"
  by (simp add: unat_word_of_le be_value_def)

lemma be_value_2: "be_value [a, b] = 256 * unat a + unat b"
  by (simp add: be_value_def)

lemma be_value_4:
  "be_value [a, b, c, d] = 16777216 * unat a + 65536 * unat b + 256 * unat c + unat d"
  by (simp add: be_value_def)

text \<open>Sums over the variables of a program: one is assigned, two are exchanged.\<close>

lemma sum_list_update_add:
  fixes f :: "'a \<Rightarrow> 'b::comm_monoid_add"
  shows "i < length xs \<Longrightarrow> (\<Sum>x\<leftarrow>xs[i := y]. f x) + f (xs ! i) = (\<Sum>x\<leftarrow>xs. f x) + f y"
proof (induction xs arbitrary: i)
  case (Cons x xs)
  then show ?case by (cases i) (auto simp: ac_simps)
qed simp

lemma sum_list_update2:
  fixes f :: "'a \<Rightarrow> 'b::cancel_comm_monoid_add"
  assumes i: "i < length xs" and j: "j < length xs"
    and f: "f y + f z = f (xs ! i) + f (xs ! j)" and same: "i = j \<Longrightarrow> z = xs ! i"
  shows "(\<Sum>x\<leftarrow>xs[i := y, j := z]. f x) = (\<Sum>x\<leftarrow>xs. f x)"
proof (cases "i = j")
  case True
  with i same have "xs[i := y, j := z] = xs" by simp
  then show ?thesis by simp
next
  case False
  then have "xs[i := y] ! j = xs ! j" by simp
  with sum_list_update_add [of j "xs[i := y]" f z] j
  have "(\<Sum>x\<leftarrow>xs[i := y, j := z]. f x) + f (xs ! j) = (\<Sum>x\<leftarrow>xs[i := y]. f x) + f z" by simp
  then have "(\<Sum>x\<leftarrow>xs[i := y, j := z]. f x) + (f (xs ! j) + f (xs ! i)) = (\<Sum>x\<leftarrow>xs. f x) + (f y + f z)"
    using sum_list_update_add [OF i, of f y] by (metis (no_types, lifting) add.assoc add.commute)
  then show ?thesis unfolding f add.commute [of "f (xs ! j)"] by (rule add_right_imp_eq)
qed

end
