(* ===== verification/Nb_ByteOrder.thy ===== *)
theory Nb_ByteOrder
  imports Nb_Prelude
begin

text \<open>
  \<open>netbox/details/byte_order.h\<close>: conversion between host and network byte order. The
  byte order of the host, a compile-time constant of the sources, is the argument \<open>e\<close>;
  both branches of the conditional compilation are modelled.
\<close>

unbundle bit_operations_syntax

section \<open>The compiler builtins\<close>

definition bswap16 :: "u16 \<Rightarrow> u16" where
  "bswap16 x = push_bit 8 x OR drop_bit 8 x"

definition bswap32 :: "u32 \<Rightarrow> u32" where
  "bswap32 x = push_bit 24 (take_bit 8 x) OR push_bit 16 (take_bit 8 (drop_bit 8 x))
     OR push_bit 8 (take_bit 8 (drop_bit 16 x)) OR drop_bit 24 x"

section \<open>The conversions\<close>

definition hostToNetwork32 :: "endian \<Rightarrow> u32 \<Rightarrow> u32" where
  "hostToNetwork32 e data = (case e of Little \<Rightarrow> bswap32 data | Big \<Rightarrow> data)"

definition hostToNetwork16 :: "endian \<Rightarrow> u16 \<Rightarrow> u16" where
  "hostToNetwork16 e data = (case e of Little \<Rightarrow> bswap16 data | Big \<Rightarrow> data)"

definition networkToHost32 :: "endian \<Rightarrow> u32 \<Rightarrow> u32" where
  "networkToHost32 e data = hostToNetwork32 e data"

definition networkToHost16 :: "endian \<Rightarrow> u16 \<Rightarrow> u16" where
  "networkToHost16 e data = hostToNetwork16 e data"

section \<open>Reversal of the object representation\<close>

lemma bytes_of_le_2: "bytes_of_le 2 w = [ucast w, ucast (drop_bit 8 w)]"
  by (simp add: numeral_2_eq_2)

lemma bytes_of_le_4:
  "bytes_of_le 4 w = [ucast w, ucast (drop_bit 8 w), ucast (drop_bit 16 w), ucast (drop_bit 24 w)]"
  by (simp add: eval_nat_numeral)

lemma bswap16_rev: "bytes_of_le 2 (bswap16 w) = rev (bytes_of_le 2 w)"
  by (auto simp: bytes_of_le_2 bswap16_def bit_simps intro!: bit_word_eqI dest: bit_imp_le_length)

lemma bswap32_rev: "bytes_of_le 4 (bswap32 w) = rev (bytes_of_le 4 w)"
  by (auto simp: bytes_of_le_4 bswap32_def bit_simps
      intro!: bit_word_eqI dest: bit_imp_le_length)

text \<open>Hence swapping the word denoted by some bytes gives the word of the reversed bytes.\<close>

lemma bswap16_word_of_le [byte_simps]:
  assumes "length bs = 2"
  shows "bswap16 (word_of_le bs) = word_of_le (rev bs)"
proof -
  have "bytes_of_le 2 (bswap16 (word_of_le bs)) = rev bs"
    using assms by (simp add: bswap16_rev bytes_of_le_word_of_le)
  then have "word_of_le (rev bs) = (word_of_le (bytes_of_le 2 (bswap16 (word_of_le bs))) :: u16)"
    by simp
  then show ?thesis by (simp add: word_of_le_bytes_of_le)
qed

lemma bswap32_word_of_le [byte_simps]:
  assumes "length bs = 4"
  shows "bswap32 (word_of_le bs) = word_of_le (rev bs)"
proof -
  have "bytes_of_le 4 (bswap32 (word_of_le bs)) = rev bs"
    using assms by (simp add: bswap32_rev bytes_of_le_word_of_le)
  then have "word_of_le (rev bs) = (word_of_le (bytes_of_le 4 (bswap32 (word_of_le bs))) :: u32)"
    by simp
  then show ?thesis by (simp add: word_of_le_bytes_of_le)
qed

section \<open>Laws\<close>

lemma bswap16_involution: "bswap16 (bswap16 x) = x"
proof -
  have "bytes_of_le 2 (bswap16 (bswap16 x)) = bytes_of_le 2 x" by (simp add: bswap16_rev)
  then have "word_of_le (bytes_of_le 2 (bswap16 (bswap16 x))) = (word_of_le (bytes_of_le 2 x) :: u16)"
    by simp
  then show ?thesis by (simp add: word_of_le_bytes_of_le)
qed

lemma bswap32_involution: "bswap32 (bswap32 x) = x"
proof -
  have "bytes_of_le 4 (bswap32 (bswap32 x)) = bytes_of_le 4 x" by (simp add: bswap32_rev)
  then have "word_of_le (bytes_of_le 4 (bswap32 (bswap32 x))) = (word_of_le (bytes_of_le 4 x) :: u32)"
    by simp
  then show ?thesis by (simp add: word_of_le_bytes_of_le)
qed

lemma ntoh_hton_32 [byte_simps]:
  "networkToHost32 e (hostToNetwork32 e x) = x" "hostToNetwork32 e (networkToHost32 e x) = x"
  by (cases e; simp add: networkToHost32_def hostToNetwork32_def bswap32_involution)+

lemma ntoh_hton_16 [byte_simps]:
  "networkToHost16 e (hostToNetwork16 e x) = x" "hostToNetwork16 e (networkToHost16 e x) = x"
  by (cases e; simp add: networkToHost16_def hostToNetwork16_def bswap16_involution)+

lemma ntoh32_of_bytes [byte_simps]:
  "length bs = 4 \<Longrightarrow> networkToHost32 e (word_of_bytes e bs) = word_of_le (rev bs)"
  by (cases e) (simp_all add: networkToHost32_def hostToNetwork32_def word_of_bytes_def
      bswap32_word_of_le)

lemma ntoh16_of_bytes [byte_simps]:
  "length bs = 2 \<Longrightarrow> networkToHost16 e (word_of_bytes e bs) = word_of_le (rev bs)"
  by (cases e) (simp_all add: networkToHost16_def hostToNetwork16_def word_of_bytes_def
      bswap16_word_of_le)

lemma bytes_of_hton32 [byte_simps]:
  "bytes_of_word e 4 (hostToNetwork32 e x) = rev (bytes_of_le 4 x)"
  by (cases e) (simp_all add: bytes_of_word_def hostToNetwork32_def bswap32_rev)

lemma bytes_of_hton16 [byte_simps]:
  "bytes_of_word e 2 (hostToNetwork16 e x) = rev (bytes_of_le 2 x)"
  by (cases e) (simp_all add: bytes_of_word_def hostToNetwork16_def bswap16_rev)

lemma hton32_inject [simp]: "hostToNetwork32 e x = hostToNetwork32 e y \<longleftrightarrow> x = y"
  by (metis ntoh_hton_32(1))

lemma hton16_inject [simp]: "hostToNetwork16 e x = hostToNetwork16 e y \<longleftrightarrow> x = y"
  by (metis ntoh_hton_16(1))

end
