(* ===== verification/Nb_Memory.thy ===== *)
theory Nb_Memory
  imports Nb_Prelude
begin

text \<open>
  The memory the buffers, packet headers and file buffers of netbox live in: blocks of
  bytes, with pointers as a block and an offset. A null pointer has no block. Loads and
  stores are partial: None is an access outside the block, which is undefined behaviour
  in C++.
\<close>

section \<open>Pointers, loads and stores\<close>

datatype pointer = Pointer (blk: "nat option") (off: nat)

type_synonym memory = "nat \<Rightarrow> u8 list option"

definition nullptr :: pointer where
  "nullptr = Pointer None 0"

definition ptr_add :: "pointer \<Rightarrow> nat \<Rightarrow> pointer" where
  "ptr_add p n = Pointer (blk p) (off p + n)"

definition load_bytes :: "memory \<Rightarrow> pointer \<Rightarrow> nat \<Rightarrow> u8 list option" where
  "load_bytes m p n =
     (if n = 0 then Some []
      else case blk p of
        None \<Rightarrow> None
      | Some b \<Rightarrow>
          (case m b of
             None \<Rightarrow> None
           | Some bs \<Rightarrow>
               if off p + n \<le> length bs then Some (take n (drop (off p) bs)) else None))"

definition store_bytes :: "memory \<Rightarrow> pointer \<Rightarrow> u8 list \<Rightarrow> memory option" where
  "store_bytes m p xs =
     (if xs = [] then Some m
      else case blk p of
        None \<Rightarrow> None
      | Some b \<Rightarrow>
          (case m b of
             None \<Rightarrow> None
           | Some bs \<Rightarrow>
               if off p + length xs \<le> length bs
               then Some (m(b \<mapsto> take (off p) bs @ xs @ drop (off p + length xs) bs))
               else None))"

text \<open>\<open>std::memmove\<close> reads the whole source before it writes, so the regions may overlap.\<close>

definition memmove :: "memory \<Rightarrow> pointer \<Rightarrow> pointer \<Rightarrow> nat \<Rightarrow> memory option" where
  "memmove m dst src n = do { xs \<leftarrow> load_bytes m src n; store_bytes m dst xs }"

text \<open>A field of an object: its bytes as a word in the host's byte order.\<close>

definition load16 :: "endian \<Rightarrow> memory \<Rightarrow> pointer \<Rightarrow> u16 option" where
  "load16 e m p = do { bs \<leftarrow> load_bytes m p 2; Some (word_of_bytes e bs) }"

definition load32 :: "endian \<Rightarrow> memory \<Rightarrow> pointer \<Rightarrow> u32 option" where
  "load32 e m p = do { bs \<leftarrow> load_bytes m p 4; Some (word_of_bytes e bs) }"

definition readable :: "memory \<Rightarrow> pointer \<Rightarrow> nat \<Rightarrow> bool" where
  "readable m p n \<longleftrightarrow> load_bytes m p n \<noteq> None"

section \<open>Lemmas\<close>

lemma ptr_add_0 [simp]: "ptr_add p 0 = p"
  by (cases p) (simp add: ptr_add_def)

lemma ptr_add_add [simp]: "ptr_add (ptr_add p a) b = ptr_add p (a + b)"
  by (simp add: ptr_add_def)

lemma blk_ptr_add [simp]: "blk (ptr_add p n) = blk p"
  by (simp add: ptr_add_def)

lemma load_bytes_0 [simp]: "load_bytes m p 0 = Some []"
  by (simp add: load_bytes_def)

lemma load_bytes_length: "load_bytes m p n = Some bs \<Longrightarrow> length bs = n"
  by (auto simp: load_bytes_def split: if_splits option.splits)

lemma load_bytes_Some_iff:
  "n \<noteq> 0 \<Longrightarrow> load_bytes m p n = Some bs \<longleftrightarrow>
     (\<exists>b ys. blk p = Some b \<and> m b = Some ys \<and> off p + n \<le> length ys \<and> bs = take n (drop (off p) ys))"
  by (auto simp: load_bytes_def split: if_splits option.splits)

lemma load_bytes_sub:
  assumes "load_bytes m p n = Some bs" and "k + j \<le> n"
  shows "load_bytes m (ptr_add p k) j = Some (take j (drop k bs))"
proof (cases "j = 0")
  case False
  with assms(2) have "n \<noteq> 0" by simp
  with assms(1) obtain b ys where ys: "blk p = Some b" "m b = Some ys" "off p + n \<le> length ys"
    and bs: "bs = take n (drop (off p) ys)"
    by (auto simp: load_bytes_Some_iff)
  have "take j (drop k bs) = take j (drop (off p + k) ys)"
    using assms(2) by (simp add: bs drop_take min_def add.commute)
  with ys False assms(2) show ?thesis
    by (simp add: load_bytes_Some_iff ptr_add_def)
qed simp

lemma load_bytes_prefix:
  assumes "load_bytes m p n = Some bs" and "j \<le> n"
  shows "load_bytes m p j = Some (take j bs)"
  using load_bytes_sub [OF assms(1), of 0 j] assms(2) by simp

lemma load_bytes_suffix:
  assumes "load_bytes m p n = Some bs" and "k \<le> n"
  shows "load_bytes m (ptr_add p k) (n - k) = Some (drop k bs)"
  using load_bytes_sub [OF assms(1), of k "n - k"] assms load_bytes_length [OF assms(1)] by simp

lemma load16_sub:
  assumes "load_bytes m p n = Some bs" and "k + 2 \<le> n"
  shows "load16 e m (ptr_add p k) = Some (word_of_bytes e (take 2 (drop k bs)))"
  using load_bytes_sub [OF assms] by (simp add: load16_def)

lemma load32_sub:
  assumes "load_bytes m p n = Some bs" and "k + 4 \<le> n"
  shows "load32 e m (ptr_add p k) = Some (word_of_bytes e (take 4 (drop k bs)))"
  using load_bytes_sub [OF assms] by (simp add: load32_def)

lemma readable_sub: "readable m p n \<Longrightarrow> k + j \<le> n \<Longrightarrow> readable m (ptr_add p k) j"
  unfolding readable_def using load_bytes_sub by fastforce

lemma readable_load: "readable m p n \<longleftrightarrow> (\<exists>bs. load_bytes m p n = Some bs)"
  by (auto simp: readable_def)

lemma store_bytes_readable:
  assumes "readable m p (length xs)"
  shows "\<exists>m'. store_bytes m p xs = Some m'"
  using assms by (auto simp: readable_def load_bytes_def store_bytes_def split: if_splits option.splits)

lemma load_store_same:
  assumes "store_bytes m p xs = Some m'"
  shows "load_bytes m' p (length xs) = Some xs"
  using assms by (auto simp: load_bytes_def store_bytes_def split: if_splits option.splits)

lemma load_store_other_block:
  assumes "store_bytes m p xs = Some m'" and "blk p \<noteq> blk q"
  shows "load_bytes m' q n = load_bytes m q n"
  using assms by (auto simp: load_bytes_def store_bytes_def split: if_splits option.splits)

lemma store_bytes_other:
  assumes "store_bytes m p xs = Some m'" and "blk p \<noteq> Some b"
  shows "m' b = m b"
  using assms by (auto simp: store_bytes_def split: if_splits option.splits)

lemma store_bytes_block:
  assumes "store_bytes m p xs = Some m'" and "blk p = Some b" and "m b = Some bs"
  shows "\<exists>bs'. m' b = Some bs' \<and> length bs' = length bs"
  using assms by (auto simp: store_bytes_def split: if_splits option.splits)

text \<open>A store below or above the region of a load does not change it.\<close>

lemma load_store_before:
  assumes "store_bytes m p xs = Some m'" and "n \<le> k" and "load_bytes m q n = Some bs"
    and "p = ptr_add q k"
  shows "load_bytes m' q n = Some bs"
proof (cases "n = 0 \<or> xs = []")
  case True
  with assms show ?thesis by (auto simp: store_bytes_def)
next
  case False
  then have n: "n \<noteq> 0" and xs: "xs \<noteq> []" by auto
  from assms(1,3,4) n xs obtain b ys where ys: "blk q = Some b" "m b = Some ys"
    "bs = take n (drop (off q) ys)" "off q + k + length xs \<le> length ys"
    and m': "m' = m(b \<mapsto> take (off q + k) ys @ xs @ drop (off q + k + length xs) ys)"
    by (auto simp: load_bytes_Some_iff store_bytes_def ptr_add_def split: if_splits option.splits)
  have "take n (drop (off q) (take (off q + k) ys @ zs)) = take n (drop (off q) ys)" for zs
    using assms(2) ys(4) by (simp add: drop_take)
  with ys m' n assms(2) show ?thesis
    by (simp add: load_bytes_Some_iff)
qed

lemmas load_defs = load_bytes_def load16_def load32_def

end
