(* ===== verification/Nb_Error.thy ===== *)
theory Nb_Error
  imports Nb_Prelude
begin

text \<open>
  \<open>netbox/exception.h\<close> and \<open>netbox/ErrorCode.h\<close>: the exceptions the library throws,
  the texts they carry, and the \<open>errno\<close> holder. \<open>std::strerror\<close> is an argument.
\<close>

section \<open>C strings and decimal numerals\<close>

text \<open>
  What a C function sees of a \<open>std::string\<close> handed over with \<open>c_str()\<close>: the bytes
  before the first NUL.
\<close>

definition c_str :: "string \<Rightarrow> string" where
  "c_str s = takeWhile (\<lambda>c. c \<noteq> CHR 0x00) s"

fun nat_to_string :: "nat \<Rightarrow> string" where
  "nat_to_string n =
     (if n < 10 then [char_of (48 + n)] else nat_to_string (n div 10) @ [char_of (48 + n mod 10)])"

declare nat_to_string.simps [simp del]

definition to_string_int :: "int \<Rightarrow> string" where
  "to_string_int i = (if i < 0 then CHR ''-'' # nat_to_string (nat (- i)) else nat_to_string (nat i))"

section \<open>Exceptions\<close>

text \<open>
  The classes of \<open>exception.h\<close> and the two standard ones the sources throw. Each holds
  its \<open>what()\<close> text.
\<close>

datatype exn =
    SocketError string
  | SocketOptionError string
  | AddressError string
  | PDUError string
  | runtime_error string
  | length_error string

fun what :: "exn \<Rightarrow> string" where
  "what (SocketError s) = s"
| "what (SocketOptionError s) = s"
| "what (AddressError s) = s"
| "what (PDUError s) = s"
| "what (runtime_error s) = s"
| "what (length_error s) = s"

section \<open>ErrorCode\<close>

text \<open>The errno values of the platform (Linux).\<close>

definition EINTR :: int where "EINTR = 4"
definition EAGAIN :: int where "EAGAIN = 11"
definition EWOULDBLOCK :: int where "EWOULDBLOCK = 11"

record ErrorCode =
  ec :: int

definition ErrorCode_default :: ErrorCode where
  "ErrorCode_default = \<lparr>ec = 0\<rparr>"

definition ErrorCode_make :: "int \<Rightarrow> ErrorCode" where
  "ErrorCode_make n = \<lparr>ec = n\<rparr>"

definition ErrorCode_native :: "'a ErrorCode_scheme \<Rightarrow> int" where
  "ErrorCode_native c = ec c"

definition ErrorCode_str :: "(int \<Rightarrow> string) \<Rightarrow> 'a ErrorCode_scheme \<Rightarrow> string" where
  "ErrorCode_str strerror c = strerror (ec c)"

definition ErrorCode_isInterrupted :: "'a ErrorCode_scheme \<Rightarrow> bool" where
  "ErrorCode_isInterrupted c \<longleftrightarrow> ec c = EINTR"

definition ErrorCode_isTryAgain :: "'a ErrorCode_scheme \<Rightarrow> bool" where
  "ErrorCode_isTryAgain c \<longleftrightarrow> ec c = EAGAIN \<or> ec c = EWOULDBLOCK"

section \<open>throwEx\<close>

text \<open>
  The three overloads. The template argument, the exception class, is the constructor
  \<open>mk\<close>; the result type of the throwing expression is that of its caller.
\<close>

definition throwEx_ec :: "(int \<Rightarrow> string) \<Rightarrow> (string \<Rightarrow> exn) \<Rightarrow> string \<Rightarrow> ErrorCode \<Rightarrow> exn + 'a" where
  "throwEx_ec strerror mk name c =
     Inl (mk (''error.'' @ to_string_int (ErrorCode_native c) @ '' '' @ name @ '' (''
              @ ErrorCode_str strerror c @ '')''))"

definition throwEx :: "(string \<Rightarrow> exn) \<Rightarrow> string \<Rightarrow> exn + 'a" where
  "throwEx mk txt = Inl (mk txt)"

definition throwEx_string :: "(string \<Rightarrow> exn) \<Rightarrow> string \<Rightarrow> exn + 'a" where
  "throwEx_string mk txt = throwEx mk (c_str txt)"

section \<open>Lemmas\<close>

lemma throwEx_not_Inr [simp]: "throwEx mk txt \<noteq> Inr x" "Inr x \<noteq> throwEx mk txt"
  by (simp_all add: throwEx_def)

lemma isl_throwEx [simp]: "isl (throwEx mk txt)"
  by (simp add: throwEx_def)

lemma c_str_id: "CHR 0x00 \<notin> set s \<Longrightarrow> c_str s = s"
  unfolding c_str_def by (rule takeWhile_eq_all_conv [THEN iffD2]) auto

lemma c_str_no_nul: "CHR 0x00 \<notin> set (c_str s)"
  by (auto simp: c_str_def dest: set_takeWhileD)

lemma isTryAgain_not_interrupted: "ErrorCode_isTryAgain c \<Longrightarrow> \<not> ErrorCode_isInterrupted c"
  by (auto simp: ErrorCode_isTryAgain_def ErrorCode_isInterrupted_def EINTR_def EAGAIN_def
      EWOULDBLOCK_def)

end
