(* ===== verification/Nb_String.thy ===== *)
theory Nb_String
  imports Nb_Prelude "HOL-Library.Sublist"
begin

text \<open>
  \<open>netbox/utils/string.h\<close>: the suffix test on string views. \<open>std_equal\<close> is the
  three-iterator \<open>std::equal\<close>; running off the second range, which the caller's length
  test excludes, compares unequal here.
\<close>

fun std_equal :: "'a list \<Rightarrow> 'a list \<Rightarrow> bool" where
  "std_equal [] ys = True"
| "std_equal (x # xs) (y # ys) = (x = y \<and> std_equal xs ys)"
| "std_equal (x # xs) [] = False"

definition endsWith :: "string \<Rightarrow> string \<Rightarrow> bool" where
  "endsWith haystack needle =
     (if length needle > length haystack then False
      else std_equal (rev needle) (rev haystack))"

lemma std_equal_prefix: "std_equal xs ys \<longleftrightarrow> prefix xs ys"
  by (induction xs ys rule: std_equal.induct) auto

lemma endsWith_is_suffix: "endsWith haystack needle \<longleftrightarrow> suffix needle haystack"
  by (auto simp: endsWith_def std_equal_prefix suffix_to_prefix dest: prefix_length_le)

end
