(* ===== verification/Nb_FileReader.thy ===== *)
theory Nb_FileReader
  imports Nb_Error Nb_String
begin

text \<open>
  \<open>netbox/utils/FileReader.h\<close> over the input streams of the standard library: a file
  stream, and a decoding stream on top of it for \<open>.xz\<close> and \<open>.gz\<close> files. The file
  system and the two decoders are arguments, gathered in the record \<open>platform\<close> with the
  build options that enable the decoders.
\<close>

section \<open>Input streams\<close>

text \<open>
  A \<open>std::istream\<close>: the bytes its buffer can still deliver, how they end (at the end of
  the file, or in an error that the stream buffer reports by an exception), the three
  state bits and \<open>gcount()\<close>.
\<close>

datatype stream_end = Clean | Broken

record istream =
  st_rest :: "u8 list"
  st_end :: stream_end
  st_eof :: bool
  st_fail :: bool
  st_bad :: bool
  st_gcount :: nat

definition istream_make :: "u8 list \<Rightarrow> stream_end \<Rightarrow> istream" where
  "istream_make bs t =
     \<lparr>st_rest = bs, st_end = t, st_eof = False, st_fail = False, st_bad = False, st_gcount = 0\<rparr>"

text \<open>A default-constructed \<open>std::ifstream\<close>: no file, and no state bit set.\<close>

definition ifstream_default :: istream where
  "ifstream_default = istream_make [] Clean"

text \<open>\<open>std::ifstream\<close> on a file name: a file that cannot be opened sets the fail bit.\<close>

definition ifstream_open :: "(string \<Rightarrow> u8 list option) \<Rightarrow> string \<Rightarrow> istream" where
  "ifstream_open files name =
     (case files name of
        None \<Rightarrow> ifstream_default\<lparr>st_fail := True\<rparr>
      | Some bs \<Rightarrow> istream_make bs Clean)"

definition istream_good :: "istream \<Rightarrow> bool" where
  "istream_good s \<longleftrightarrow> \<not> st_eof s \<and> \<not> st_fail s \<and> \<not> st_bad s"

definition istream_bool :: "istream \<Rightarrow> bool" where
  "istream_bool s \<longleftrightarrow> \<not> st_fail s \<and> \<not> st_bad s"

text \<open>
  \<open>read(p, n)\<close>: the bytes it stores at \<open>p\<close> and the stream after it. On a stream that is
  not good it stores nothing and sets the fail bit; if the bytes run out at the end of the
  file it sets the eof and the fail bit; an exception of the buffer sets the bad bit and
  leaves the count at 0.
\<close>

definition istream_read :: "nat \<Rightarrow> istream \<Rightarrow> u8 list \<times> istream" where
  "istream_read n s =
     (if istream_good s then
        if n \<le> length (st_rest s) then
          (take n (st_rest s), s\<lparr>st_rest := drop n (st_rest s), st_gcount := n\<rparr>)
        else case st_end s of
          Clean \<Rightarrow> (st_rest s, s\<lparr>st_rest := [], st_eof := True, st_fail := True,
                            st_gcount := length (st_rest s)\<rparr>)
        | Broken \<Rightarrow> (st_rest s, s\<lparr>st_rest := [], st_bad := True, st_gcount := 0\<rparr>)
      else ([], s\<lparr>st_fail := True, st_gcount := 0\<rparr>))"

text \<open>The bytes a stream still delivers: none once a state bit is set.\<close>

definition istream_bytes :: "istream \<Rightarrow> u8 list" where
  "istream_bytes s = (if istream_good s then st_rest s else [])"

section \<open>FileReader\<close>

record platform =
  pf_files :: "string \<Rightarrow> u8 list option"
  pf_lzma_enabled :: bool
  pf_gzip_enabled :: bool
  pf_lzma :: "u8 list \<Rightarrow> exn + u8 list \<times> stream_end"
  pf_gzip :: "u8 list \<Rightarrow> u8 list \<times> stream_end"

text \<open>What the raw pointer \<open>stream_\<close> points to.\<close>

datatype stream_ptr = To_file | To_decoded | Indeterminate

text \<open>
  The two owning pointers and the raw one. Here what is owned is the stream itself and the
  raw pointer says which; \<open>Nb_FileLife\<close> has the same object over addresses.
\<close>

record ('s, 'p) file_reader =
  fr_fileStream :: "'s option"
  fr_decodedStream :: "'s option"
  fr_stream :: 'p

type_synonym FileReader = "(istream, stream_ptr) file_reader"

definition FileReader_swap ::
  "('s, 'p) file_reader \<Rightarrow> ('s, 'p) file_reader \<Rightarrow> ('s, 'p) file_reader \<times> ('s, 'p) file_reader" where
  "FileReader_swap this other =
     (\<lparr>fr_fileStream = fr_fileStream other, fr_decodedStream = fr_decodedStream other,
       fr_stream = fr_stream other\<rparr>,
      \<lparr>fr_fileStream = fr_fileStream this, fr_decodedStream = fr_decodedStream this,
       fr_stream = fr_stream this\<rparr>)"

text \<open>
  The move constructor swaps with an object whose raw pointer has no initialiser. The pair
  is the new object and the one moved from.
\<close>

definition FileReader_move :: "FileReader \<Rightarrow> FileReader \<times> FileReader" where
  "FileReader_move other =
     FileReader_swap \<lparr>fr_fileStream = None, fr_decodedStream = None, fr_stream = Indeterminate\<rparr> other"

definition FileReader_move_assign ::
  "bool \<Rightarrow> ('s, 'p) file_reader \<Rightarrow> ('s, 'p) file_reader \<Rightarrow> ('s, 'p) file_reader \<times> ('s, 'p) file_reader" where
  "FileReader_move_assign same this other =
     (if \<not> same then FileReader_swap this other else (this, other))"

definition FileReader_default :: FileReader where
  "FileReader_default =
     \<lparr>fr_fileStream = Some ifstream_default, fr_decodedStream = None, fr_stream = To_file\<rparr>"

definition FileReader_open :: "platform \<Rightarrow> string \<Rightarrow> exn + FileReader" where
  "FileReader_open pf filename =
     (let fileStream = ifstream_open (pf_files pf) filename;
          decoded =
            (if istream_bool fileStream then
               if endsWith filename ''.xz'' then
                 if pf_lzma_enabled pf then
                   (case pf_lzma pf (st_rest fileStream) of
                      Inl x \<Rightarrow> Inl x
                    | Inr (bs, t) \<Rightarrow> Inr (Some (istream_make bs t)))
                 else throwEx runtime_error ''LZMA not supported''
               else if endsWith filename ''.gz'' then
                 if pf_gzip_enabled pf then
                   (case pf_gzip pf (st_rest fileStream) of
                      (bs, t) \<Rightarrow> Inr (Some (istream_make bs t)))
                 else throwEx runtime_error ''GZip not supported''
               else Inr None
             else Inr None)
      in case decoded of
           Inl x \<Rightarrow> Inl x
         | Inr decodedStream \<Rightarrow>
             Inr \<lparr>fr_fileStream = Some fileStream, fr_decodedStream = decodedStream,
                  fr_stream = (if decodedStream \<noteq> None then To_decoded else To_file)\<rparr>)"

text \<open>Dereferencing \<open>stream_\<close>: None where the pointer is null or indeterminate.\<close>

definition FileReader_deref :: "FileReader \<Rightarrow> istream option" where
  "FileReader_deref r =
     (case fr_stream r of
        To_file \<Rightarrow> fr_fileStream r
      | To_decoded \<Rightarrow> fr_decodedStream r
      | Indeterminate \<Rightarrow> None)"

definition FileReader_put :: "FileReader \<Rightarrow> istream \<Rightarrow> FileReader" where
  "FileReader_put r s =
     (case fr_stream r of
        To_file \<Rightarrow> r\<lparr>fr_fileStream := Some s\<rparr>
      | To_decoded \<Rightarrow> r\<lparr>fr_decodedStream := Some s\<rparr>
      | Indeterminate \<Rightarrow> r)"

definition FileReader_bool :: "FileReader \<Rightarrow> bool option" where
  "FileReader_bool r = map_option istream_bool (FileReader_deref r)"

definition FileReader_good :: "FileReader \<Rightarrow> bool option" where
  "FileReader_good r = map_option istream_good (FileReader_deref r)"

definition FileReader_eof :: "FileReader \<Rightarrow> bool option" where
  "FileReader_eof r = map_option st_eof (FileReader_deref r)"

text \<open>\<open>read\<close>: the bytes stored, the count returned and the reader after it.\<close>

definition FileReader_read :: "nat \<Rightarrow> FileReader \<Rightarrow> (u8 list \<times> nat \<times> FileReader) option" where
  "FileReader_read n r =
     (case FileReader_deref r of
        None \<Rightarrow> None
      | Some s \<Rightarrow>
          (case istream_read n s of (bs, s') \<Rightarrow> Some (bs, st_gcount s', FileReader_put r s')))"

text \<open>\<open>readStruct\<close> of a struct of \<open>n\<close> bytes.\<close>

definition FileReader_readStruct :: "nat \<Rightarrow> FileReader \<Rightarrow> (u8 list \<times> nat \<times> FileReader) option" where
  "FileReader_readStruct n r = FileReader_read n r"

section \<open>Lemmas\<close>

lemma FileReader_swap_pair: "FileReader_swap a b = (b, a)"
  by (cases a; cases b) (simp add: FileReader_swap_def)

definition FileReader_ok :: "FileReader \<Rightarrow> bool" where
  "FileReader_ok r \<longleftrightarrow> FileReader_deref r \<noteq> None"

definition FileReader_bytes :: "FileReader \<Rightarrow> u8 list" where
  "FileReader_bytes r = (case FileReader_deref r of None \<Rightarrow> [] | Some s \<Rightarrow> istream_bytes s)"

lemma FileReader_default_ok [simp]: "FileReader_ok FileReader_default"
  by (simp add: FileReader_ok_def FileReader_deref_def FileReader_default_def)

lemma FileReader_default_bytes [simp]: "FileReader_bytes FileReader_default = []"
  by (simp add: FileReader_bytes_def FileReader_deref_def FileReader_default_def
      ifstream_default_def istream_make_def istream_bytes_def)

lemma FileReader_deref_put [simp]:
  "FileReader_deref r = Some s \<Longrightarrow> FileReader_deref (FileReader_put r s') = Some s'"
  by (auto simp: FileReader_deref_def FileReader_put_def split: stream_ptr.splits)

lemma FileReader_open_ok: "FileReader_open pf name = Inr r \<Longrightarrow> FileReader_ok r"
  by (auto simp: FileReader_open_def FileReader_ok_def FileReader_deref_def Let_def
      split: if_splits sum.splits)

lemma istream_read_full:
  "n \<le> length (istream_bytes s) \<Longrightarrow> n \<noteq> 0 \<or> istream_good s \<Longrightarrow>
     istream_read n s = (take n (istream_bytes s),
       s\<lparr>st_rest := drop n (istream_bytes s), st_gcount := n\<rparr>)"
  by (auto simp: istream_read_def istream_bytes_def split: if_splits)

lemma istream_read_short:
  assumes "length (istream_bytes s) < n"
  shows "\<exists>bs s'. istream_read n s = (bs, s') \<and> length bs < n \<and> st_gcount s' < n
    \<and> istream_bytes s' = [] \<and> \<not> istream_good s'"
  using assms
  by (cases "istream_read n s")
    (auto simp: istream_read_def istream_bytes_def istream_good_def split: stream_end.splits if_splits)

text \<open>A stream that ends at its end of file, and whose failures set the eof bit.\<close>

definition istream_clean :: "istream \<Rightarrow> bool" where
  "istream_clean s \<longleftrightarrow> st_end s = Clean \<and> \<not> st_bad s \<and> (st_fail s \<longrightarrow> st_eof s)"

lemma istream_read_clean:
  assumes "istream_clean s"
  obtains bs s' where "istream_read n s = (bs, s')" and "istream_clean s'"
    and "st_eof s' \<and> (st_gcount s' < n \<or> n = 0)
      \<or> st_gcount s' = n \<and> length (istream_bytes s) = n + length (istream_bytes s')"
proof (cases "istream_good s")
  case good: True
  show thesis
  proof (cases "n \<le> length (st_rest s)")
    case True
    with good assms show thesis
      by (intro that [of "take n (st_rest s)" "s\<lparr>st_rest := drop n (st_rest s), st_gcount := n\<rparr>"])
        (auto simp: istream_read_def istream_clean_def istream_good_def istream_bytes_def)
  next
    case False
    let ?s = "s\<lparr>st_rest := [], st_eof := True, st_fail := True, st_gcount := length (st_rest s)\<rparr>"
    from False good assms show thesis
      by (intro that [of "st_rest s" ?s]) (auto simp: istream_read_def istream_clean_def)
  qed
next
  case False
  with assms show thesis
    by (intro that [of "[]" "s\<lparr>st_fail := True, st_gcount := 0\<rparr>"])
      (auto simp: istream_read_def istream_clean_def istream_good_def)
qed

text \<open>The stream of a reader ends at its end of file.\<close>

definition file_clean :: "FileReader \<Rightarrow> bool" where
  "file_clean f \<longleftrightarrow> (\<exists>s. FileReader_deref f = Some s \<and> istream_clean s)"

text \<open>Such a stream is read without loss: what a read delivers and what it leaves.\<close>

lemma istream_read_split:
  assumes "istream_clean s" and "istream_read n s = (bs, s')"
  shows "bs = take n (istream_bytes s)" and "istream_bytes s' = drop n (istream_bytes s)"
    and "st_gcount s' = length bs" and "istream_clean s'"
  using assms
  by (auto simp: istream_read_def istream_bytes_def istream_good_def istream_clean_def split: if_splits)

text \<open>The two outcomes of a read: all the bytes asked for, or the end of the stream.\<close>

lemma FileReader_read_full:
  assumes "FileReader_ok r" and "n \<le> length (FileReader_bytes r)" and "n \<noteq> 0 \<or> FileReader_good r = Some True"
  obtains r' where "FileReader_read n r = Some (take n (FileReader_bytes r), n, r')"
    and "FileReader_ok r'" and "FileReader_bytes r' = drop n (FileReader_bytes r)"
    and "FileReader_good r' = Some True"
proof -
  from assms(1) obtain s where s: "FileReader_deref r = Some s" by (auto simp: FileReader_ok_def)
  have good: "istream_good s"
    using assms(2,3) s
    by (auto simp: FileReader_bytes_def FileReader_good_def istream_bytes_def split: if_splits)
  let ?s' = "s\<lparr>st_rest := drop n (istream_bytes s), st_gcount := n\<rparr>"
  have b: "FileReader_bytes r = istream_bytes s" by (simp add: FileReader_bytes_def s)
  have "istream_read n s = (take n (istream_bytes s), ?s')"
    using assms(2) good by (intro istream_read_full) (auto simp: b)
  then have "FileReader_read n r = Some (take n (FileReader_bytes r), n, FileReader_put r ?s')"
    by (simp add: FileReader_read_def s b)
  moreover have "istream_good ?s'" using good by (simp add: istream_good_def)
  ultimately show thesis
    using s b by (intro that) (auto simp: FileReader_ok_def FileReader_bytes_def
        FileReader_good_def istream_bytes_def)
qed

lemma FileReader_read_short:
  assumes "FileReader_ok r" and "length (FileReader_bytes r) < n"
  obtains bs k r' where "FileReader_read n r = Some (bs, k, r')" and "length bs < n" and "k < n"
    and "FileReader_ok r'" and "FileReader_bytes r' = []" and "FileReader_good r' = Some False"
proof -
  from assms(1) obtain s where s: "FileReader_deref r = Some s" by (auto simp: FileReader_ok_def)
  with assms(2) have "length (istream_bytes s) < n" by (simp add: FileReader_bytes_def)
  then obtain bs s' where "istream_read n s = (bs, s')" "length bs < n" "st_gcount s' < n"
    "istream_bytes s' = []" "\<not> istream_good s'"
    using istream_read_short by blast
  with s show thesis
    by (intro that [of bs "st_gcount s'" "FileReader_put r s'"])
      (auto simp: FileReader_read_def FileReader_ok_def FileReader_bytes_def FileReader_good_def)
qed

end
