(* ===== verification/Nb_Stream.thy ===== *)
theory Nb_Stream
  imports Nb_Prelude
begin

text \<open>
  The interface of a packet reader as its clients use it: an operation that delivers the
  next packet or reports that there is none, and the packets it will still deliver. Two
  components provide it, the reader of one capture file and the source that merges
  several; the client loops are defined and proved here once.
\<close>

section \<open>Client loops\<close>

text \<open>
  \<open>while (auto packet = next()) ...\<close>, collecting the packets. The loop of the sources has
  no bound; None is a loop that does not end, or that runs into undefined behaviour.
\<close>

partial_function (option) read_all ::
  "('s \<Rightarrow> ('v option \<times> 's) option) \<Rightarrow> 's \<Rightarrow> ('v list \<times> 's) option" where
  "read_all nxt s =
     do { x \<leftarrow> nxt s;
          case fst x of
            None \<Rightarrow> Some ([], snd x)
          | Some v \<Rightarrow> do { y \<leftarrow> read_all nxt (snd x); Some (v # fst y, snd y) } }"

text \<open>\<open>while (!isDone()) { packet = next(); if (packet) ... }\<close>.\<close>

partial_function (option) read_until ::
  "('s \<Rightarrow> bool) \<Rightarrow> ('s \<Rightarrow> ('v option \<times> 's) option) \<Rightarrow> 's \<Rightarrow> ('v list \<times> 's) option" where
  "read_until isDone nxt s =
     (if isDone s then Some ([], s)
      else do { x \<leftarrow> nxt s;
                y \<leftarrow> read_until isDone nxt (snd x);
                Some ((case fst x of None \<Rightarrow> [] | Some v \<Rightarrow> [v]) @ fst y, snd y) })"

text \<open>Two streams that stay related, the second defined where the first is, give the same packets.\<close>

lemma read_all_sim:
  fixes nxt :: "'s \<Rightarrow> ('v option \<times> 's) option"
  assumes step: "\<And>s t v s'. R s t \<Longrightarrow> nxt s = Some (v, s') \<Longrightarrow> \<exists>t'. nxt' t = Some (v, t') \<and> R s' t'"
    and "R s t" and run: "read_all nxt s = Some y"
  shows "\<exists>t'. read_all nxt' t = Some (fst y, t') \<and> R (snd y) t'"
proof -
  have "n = nxt \<longrightarrow> (\<forall>t. R s t \<longrightarrow> (\<exists>t'. read_all nxt' t = Some (fst y, t') \<and> R (snd y) t'))"
    if "read_all n s = Some y" for n :: "'s \<Rightarrow> ('v option \<times> 's) option" and s y
  proof (rule read_all.raw_induct [OF _ that], intro impI allI)
    fix loop :: "('s \<Rightarrow> ('v option \<times> 's) option) \<Rightarrow> 's \<Rightarrow> ('v list \<times> 's) option" and n s y t
    assume IH: "\<And>n s y. loop n s = Some y \<Longrightarrow>
        n = nxt \<longrightarrow> (\<forall>t. R s t \<longrightarrow> (\<exists>t'. read_all nxt' t = Some (fst y, t') \<and> R (snd y) t'))"
      and y: "(do { x \<leftarrow> n s;
          case fst x of
            None \<Rightarrow> Some ([], snd x)
          | Some v \<Rightarrow> do { y \<leftarrow> loop n (snd x); Some (v # fst y, snd y) } }) = Some y"
      and n: "n = nxt" and "R s t"
    from y obtain v s' where x: "n s = Some (v, s')" by (auto simp: bind_Some_iff)
    with step \<open>R s t\<close> n obtain t' where t': "nxt' t = Some (v, t')" "R s' t'" by blast
    with IH [of n s'] x n y show "\<exists>t'. read_all nxt' t = Some (fst y, t') \<and> R (snd y) t'"
      by (subst read_all.simps) (fastforce simp: bind_Some_iff split: option.splits)
  qed
  with assms show ?thesis by blast
qed

lemma read_until_sim:
  fixes nxt :: "'s \<Rightarrow> ('v option \<times> 's) option"
  assumes step: "\<And>s t v s'. R s t \<Longrightarrow> nxt s = Some (v, s') \<Longrightarrow> \<exists>t'. nxt' t = Some (v, t') \<and> R s' t'"
    and fin_eq: "\<And>s t. R s t \<Longrightarrow> fin' t = fin s"
    and "R s t" and run: "read_until fin nxt s = Some y"
  shows "\<exists>t'. read_until fin' nxt' t = Some (fst y, t') \<and> R (snd y) t'"
proof -
  have "f = fin \<longrightarrow> n = nxt \<longrightarrow> (\<forall>t. R s t \<longrightarrow> (\<exists>t'. read_until fin' nxt' t = Some (fst y, t') \<and> R (snd y) t'))"
    if "read_until f n s = Some y" for f and n :: "'s \<Rightarrow> ('v option \<times> 's) option" and s y
  proof (rule read_until.raw_induct [OF _ that], intro impI allI)
    fix loop :: "('s \<Rightarrow> bool) \<Rightarrow> ('s \<Rightarrow> ('v option \<times> 's) option) \<Rightarrow> 's \<Rightarrow> ('v list \<times> 's) option" and f n s y t
    assume IH: "\<And>f n s y. loop f n s = Some y \<Longrightarrow> f = fin \<longrightarrow>
        n = nxt \<longrightarrow> (\<forall>t. R s t \<longrightarrow> (\<exists>t'. read_until fin' nxt' t = Some (fst y, t') \<and> R (snd y) t'))"
      and y: "(if f s then Some ([], s)
          else do { x \<leftarrow> n s;
                    y \<leftarrow> loop f n (snd x);
                    Some ((case fst x of None \<Rightarrow> [] | Some v \<Rightarrow> [v]) @ fst y, snd y) }) = Some y"
      and n: "f = fin" "n = nxt" and "R s t"
    show "\<exists>t'. read_until fin' nxt' t = Some (fst y, t') \<and> R (snd y) t'"
    proof (cases "fin s")
      case True
      with y n \<open>R s t\<close> fin_eq show ?thesis by (subst read_until.simps) auto
    next
      case False
      with y n obtain v s' where x: "n s = Some (v, s')" by (auto simp: bind_Some_iff)
      with step \<open>R s t\<close> n obtain t' where t': "nxt' t = Some (v, t')" "R s' t'" by blast
      from x y n False obtain z where z: "loop f n s' = Some z"
        "y = ((case v of None \<Rightarrow> [] | Some v \<Rightarrow> [v]) @ fst z, snd z)"
        by (auto simp: bind_Some_iff)
      with IH n t'(2) obtain t'' where "read_until fin' nxt' t' = Some (fst z, t'')" "R (snd z) t''" by blast
      with z(2) t'(1) False fin_eq [OF \<open>R s t\<close>] show ?thesis by (subst read_until.simps) simp
    qed
  qed
  with assms show ?thesis by blast
qed

section \<open>Packet streams\<close>

locale packet_stream =
  fixes inv :: "'s \<Rightarrow> bool"
    and nxt :: "'s \<Rightarrow> ('v option \<times> 's) option"
    and rest :: "'s \<Rightarrow> 'v list"
  assumes next_end: "inv s \<Longrightarrow> rest s = [] \<Longrightarrow> \<exists>s'. nxt s = Some (None, s') \<and> inv s'"
    and next_more: "inv s \<Longrightarrow> rest s = v # vs \<Longrightarrow>
        \<exists>s'. nxt s = Some (Some v, s') \<and> inv s' \<and> rest s' = vs"
begin

lemma next_defined: "inv s \<Longrightarrow> \<exists>v s'. nxt s = Some (v, s') \<and> inv s'"
  using next_end next_more by (cases "rest s") blast+

lemma next_inv: "inv s \<Longrightarrow> nxt s = Some (v, s') \<Longrightarrow> inv s'"
  using next_defined by fastforce

lemma next_None_iff: "inv s \<Longrightarrow> (\<exists>s'. nxt s = Some (None, s')) \<longleftrightarrow> rest s = []"
  using next_end next_more by (cases "rest s") fastforce+

lemma next_Some: "inv s \<Longrightarrow> nxt s = Some (Some v, s') \<Longrightarrow> rest s = v # rest s'"
  using next_end next_more by (cases "rest s") fastforce+

text \<open>The loop ends without undefined behaviour and delivers exactly the packets left.\<close>

lemma read_all_rest: "inv s \<Longrightarrow> \<exists>s'. read_all nxt s = Some (rest s, s') \<and> inv s'"
proof (induction "rest s" arbitrary: s)
  case Nil
  then show ?case using next_end [of s] by (auto simp: read_all.simps)
next
  case (Cons v vs)
  then obtain s' where s': "nxt s = Some (Some v, s')" "inv s'" "rest s' = vs"
    using next_more by metis
  with Cons.hyps(1) obtain s'' where "read_all nxt s' = Some (vs, s'')" "inv s''" by metis
  with s' Cons.hyps(2) show ?case by (auto simp: read_all.simps [of nxt s])
qed

end

text \<open>A stream that also tells when it is done, and stays so once it reported the end.\<close>

locale finished_stream = packet_stream +
  fixes finished :: "'a \<Rightarrow> bool"
  assumes finished_rest: "inv s \<Longrightarrow> finished s \<Longrightarrow> rest s = []"
    and end_finished: "inv s \<Longrightarrow> nxt s = Some (None, s') \<Longrightarrow> finished s'"
begin

lemma read_until_rest: "inv s \<Longrightarrow> \<exists>s'. read_until finished nxt s = Some (rest s, s') \<and> finished s'"
proof (induction "rest s" arbitrary: s)
  case Nil
  show ?case
  proof (cases "finished s")
    case True
    with Nil show ?thesis by (simp add: read_until.simps)
  next
    case False
    from Nil obtain s' where s': "nxt s = Some (None, s')" "inv s'" using next_end by metis
    with Nil(2) have "finished s'" by (blast intro: end_finished)
    with False s' Nil(1) show ?thesis
      by (auto simp: read_until.simps [of finished nxt s] read_until.simps [of finished nxt s'])
  qed
next
  case (Cons v vs)
  then have "\<not> finished s" using finished_rest by fastforce
  from Cons obtain s' where s': "nxt s = Some (Some v, s')" "inv s'" "rest s' = vs"
    using next_more by metis
  with Cons.hyps(1) obtain s'' where "read_until finished nxt s' = Some (vs, s'')" "finished s''"
    by metis
  with s' \<open>\<not> finished s\<close> Cons.hyps(2) show ?case
    by (auto simp: read_until.simps [of finished nxt s])
qed

end

end
