(* ===== verification/Nb_Debug.thy ===== *)
theory Nb_Debug
  imports Nb_Error
begin

text \<open>
  \<open>netbox/debug.h\<close>: the messages on \<open>stderr\<close>, by the directives of \<open>fprintf\<close> that the library
  uses. The arguments keep their types, since a directive for another type is undefined.
\<close>

section \<open>fprintf\<close>

datatype printf_arg =
    Arg_uint32 u32
  | Arg_size u64
  | Arg_cstr string

definition hex_char :: "nat \<Rightarrow> char" where
  "hex_char n = char_of (if n < 10 then 48 + n else 87 + n)"

text \<open>Hexadecimal digits, at least \<open>k\<close> of them.\<close>

fun hex_padded :: "nat \<Rightarrow> nat \<Rightarrow> string" where
  "hex_padded 0 n = (if n = 0 then [] else hex_padded 0 (n div 16) @ [hex_char (n mod 16)])"
| "hex_padded (Suc k) n = hex_padded k (n div 16) @ [hex_char (n mod 16)]"

declare hex_padded.simps [simp del]

text \<open>One directive, without its percent sign, on one argument; None where they do not fit.\<close>

fun printf_convert :: "string \<Rightarrow> printf_arg \<Rightarrow> string option" where
  "printf_convert d (Arg_uint32 w) =
     (if d = ''u'' then Some (nat_to_string (unat w))
      else if d = ''08x'' then Some (hex_padded 8 (unat w))
      else None)"
| "printf_convert d (Arg_size n) = (if d = ''zu'' then Some (nat_to_string (unat n)) else None)"
| "printf_convert d (Arg_cstr s) = (if d = ''s'' then Some (c_str s) else None)"

text \<open>
  The text for a format: a directive ends at its conversion letter. Arguments left over are
  ignored; too few of them, or a directive that does not end, are undefined.
\<close>

definition conversion_letter :: "char \<Rightarrow> bool" where
  "conversion_letter c \<longleftrightarrow> c \<in> set ''usx''"

fun fprintf :: "string \<Rightarrow> printf_arg list \<Rightarrow> string option" where
  "fprintf [] args = Some []"
| "fprintf (c # f) args =
     (if c \<noteq> CHR ''%'' then map_option (Cons c) (fprintf f args)
      else
        let k = length (takeWhile (\<lambda>c. \<not> conversion_letter c) f) in
        case args of
          [] \<Rightarrow> None
        | a # args \<Rightarrow>
            if length f \<le> k then None
            else do { x \<leftarrow> printf_convert (take (Suc k) f) a;
                      y \<leftarrow> fprintf (drop (Suc k) f) args;
                      Some (x @ y) })"

section \<open>debug\<close>

text \<open>A message: the arguments of a call of \<open>debug\<close>, and what the call writes to \<open>stderr\<close>.\<close>

type_synonym message = "string \<times> printf_arg list"

definition debug :: "message \<Rightarrow> string option" where
  "debug m =
     do { x \<leftarrow> fprintf (fst m) (snd m);
          y \<leftarrow> fprintf [CHR 0x0A] [];
          Some (x @ y) }"

text \<open>What a sequence of calls writes; None if one of them is undefined.\<close>

fun debug_all :: "message list \<Rightarrow> string option" where
  "debug_all [] = Some []"
| "debug_all (m # ms) = do { x \<leftarrow> debug m; y \<leftarrow> debug_all ms; Some (x @ y) }"

section \<open>Lemmas\<close>

lemma debug_all_append:
  "debug_all (ms @ ns) = do { x \<leftarrow> debug_all ms; y \<leftarrow> debug_all ns; Some (x @ y) }"
  by (induction ms) simp_all

text \<open>Plain text in a format is written as it is.\<close>

lemma fprintf_text: "CHR ''%'' \<notin> set t \<Longrightarrow> fprintf (t @ f) args = map_option ((@) t) (fprintf f args)"
  by (induction t; cases "fprintf f args") auto

lemma fprintf_directive:
  assumes "\<forall>c\<in>set d. \<not> conversion_letter c" and "conversion_letter c"
  shows "fprintf (CHR ''%'' # d @ c # f) (a # args)
    = do { x \<leftarrow> printf_convert (d @ [c]) a; y \<leftarrow> fprintf f args; Some (x @ y) }"
proof -
  have "takeWhile (\<lambda>c. \<not> conversion_letter c) (d @ c # f) = d"
    using assms by (simp add: takeWhile_append)
  then show ?thesis by (simp add: Let_def)
qed

lemma debug_plain: "CHR ''%'' \<notin> set t \<Longrightarrow> debug (t, args) = Some (t @ [CHR 0x0A])"
  using fprintf_text [of t "[]" args] by (simp add: debug_def)

end
