(* ===== verification/Nb_Reader.thy ===== *)
theory Nb_Reader
  imports Nb_ByteOrder Nb_Memory Nb_FileReader Nb_Stream Nb_Debug
begin

text \<open>
  \<open>netbox/pcap/pcap.h\<close>, \<open>netbox/pcap/Packet.h\<close> and \<open>netbox/pcap/Reader.h\<close>: the capture
  file format and the reader of one file. A packet points into the reader's buffer, so
  the reader's operations take and return the heap that holds it.
\<close>

section \<open>pcap.h\<close>

definition MaxSnapLen :: u32 where "MaxSnapLen = 65535"

definition TCPDumpMagic :: u32 where "TCPDumpMagic = 0xa1b2c3d4"
definition NSecTCPDumpMagic :: u32 where "NSecTCPDumpMagic = 0xa1b23c4d"

definition LinkType_Null :: u32 where "LinkType_Null = 0"
definition LinkType_Ethernet :: u32 where "LinkType_Ethernet = 1"

record FileHeader =
  fh_magic :: u32
  fh_version_major :: u16
  fh_version_minor :: u16
  fh_thiszone :: u32 \<comment> \<open>\<open>std::int32_t\<close>, read with \<open>sint\<close>\<close>
  fh_sigfigs :: u32
  fh_snaplen :: u32
  fh_linktype :: u32

record PacketHeader =
  ph_ts_sec :: u32
  ph_ts_usec :: u32
  ph_caplen :: u32
  ph_len :: u32

text \<open>The structs as \<open>readStruct\<close> fills them: field by field from their bytes, no padding.\<close>

definition field16 :: "endian \<Rightarrow> u8 list \<Rightarrow> nat \<Rightarrow> u16" where
  "field16 e bs k = word_of_bytes e (take 2 (drop k bs))"

definition field32 :: "endian \<Rightarrow> u8 list \<Rightarrow> nat \<Rightarrow> u32" where
  "field32 e bs k = word_of_bytes e (take 4 (drop k bs))"

definition FileHeader_of_bytes :: "endian \<Rightarrow> u8 list \<Rightarrow> FileHeader" where
  "FileHeader_of_bytes e bs =
     \<lparr>fh_magic = field32 e bs 0, fh_version_major = field16 e bs 4,
      fh_version_minor = field16 e bs 6, fh_thiszone = field32 e bs 8,
      fh_sigfigs = field32 e bs 12, fh_snaplen = field32 e bs 16, fh_linktype = field32 e bs 20\<rparr>"

definition PacketHeader_of_bytes :: "endian \<Rightarrow> u8 list \<Rightarrow> PacketHeader" where
  "PacketHeader_of_bytes e bs =
     \<lparr>ph_ts_sec = field32 e bs 0, ph_ts_usec = field32 e bs 4,
      ph_caplen = field32 e bs 8, ph_len = field32 e bs 12\<rparr>"

section \<open>Packet.h\<close>

record timespec =
  tv_sec :: u64
  tv_nsec :: u64

record Packet =
  pk_timestamp :: timespec
  pk_captureLength :: u32
  pk_length :: u32
  pk_data :: pointer

definition Packet_default :: Packet where
  "Packet_default =
     \<lparr>pk_timestamp = \<lparr>tv_sec = 0, tv_nsec = 0\<rparr>, pk_captureLength = 0, pk_length = 0,
      pk_data = nullptr\<rparr>"

definition Packet_make :: "PacketHeader \<Rightarrow> pointer \<Rightarrow> Packet" where
  "Packet_make header p =
     \<lparr>pk_timestamp = \<lparr>tv_sec = ucast (ph_ts_sec header), tv_nsec = ucast (ph_ts_usec header)\<rparr>,
      pk_captureLength = ph_caplen header, pk_length = ph_len header, pk_data = p\<rparr>"

definition Packet_bool :: "Packet \<Rightarrow> bool" where
  "Packet_bool p \<longleftrightarrow> pk_data p \<noteq> nullptr"

definition Packet_timestamp :: "Packet \<Rightarrow> timespec" where
  "Packet_timestamp p = pk_timestamp p"

definition Packet_captureLength :: "Packet \<Rightarrow> u32" where
  "Packet_captureLength p = pk_captureLength p"

definition Packet_length :: "Packet \<Rightarrow> u32" where
  "Packet_length p = pk_length p"

definition Packet_data :: "Packet \<Rightarrow> pointer" where
  "Packet_data p = pk_data p"

lemmas Packet_accessors [simp] =
  Packet_timestamp_def Packet_captureLength_def Packet_length_def Packet_data_def

section \<open>The heap of the reader's buffers\<close>

text \<open>
  Blocks below \<open>hp_next\<close> have been allocated. \<open>std::vector<char>(n)\<close> allocates no storage
  for \<open>n = 0\<close>, where its \<open>data()\<close> is null.
\<close>

record heap =
  hp_next :: nat
  hp_mem :: memory

definition heap_ok :: "heap \<Rightarrow> bool" where
  "heap_ok h \<longleftrightarrow> (\<forall>b\<ge>hp_next h. hp_mem h b = None)"

definition vector_alloc :: "'x heap_scheme \<Rightarrow> nat \<Rightarrow> pointer \<times> 'x heap_scheme" where
  "vector_alloc h n =
     (if n = 0 then (nullptr, h)
      else (Pointer (Some (hp_next h)) 0,
            h\<lparr>hp_next := Suc (hp_next h), hp_mem := (hp_mem h)(hp_next h \<mapsto> replicate n 0)\<rparr>))"

section \<open>Reader.h\<close>

text \<open>
  What the reader uses: the operations of its file, the move assignment \<open>file_ = {}\<close>, and
  \<open>debug\<close> as an effect on the heap, which may carry more than the blocks. The operations of
  the reader are defined over these, so that the same definitions run on a file that is
  decoded as a whole or as it is read (\<open>Nb_OnDemand\<close>), with or without its messages
  (\<open>Nb_Diagnostics\<close>).
\<close>

record ('f, 'h) file_ops =
  fo_reset :: "'f \<Rightarrow> 'f"
  fo_bool :: "'f \<Rightarrow> bool option"
  fo_good :: "'f \<Rightarrow> bool option"
  fo_eof :: "'f \<Rightarrow> bool option"
  fo_read :: "nat \<Rightarrow> 'f \<Rightarrow> (u8 list \<times> nat \<times> 'f) option"
  fo_debug :: "message \<Rightarrow> 'h \<Rightarrow> 'h option"

definition readStruct_on :: "('f, 'h) file_ops \<Rightarrow> nat \<Rightarrow> 'f \<Rightarrow> (u8 list \<times> nat \<times> 'f) option" where
  "readStruct_on fo n file = fo_read fo n file"

datatype Scale = Up | PassThrough

record 'f capture_reader =
  rd_file :: 'f
  rd_scale :: Scale
  rd_timezone :: int
  rd_buffer :: pointer \<comment> \<open>\<open>buffer_.data()\<close>\<close>
  rd_buffer_size :: nat \<comment> \<open>\<open>buffer_.size()\<close>\<close>

text \<open>
  The switch on the magic number: the scale it selects, or None for the branches that
  reject the file (a capture of the other byte order, an unknown number), and the messages
  of those two.
\<close>

definition Reader_magic :: "endian \<Rightarrow> u32 \<Rightarrow> Scale option" where
  "Reader_magic e magic =
     (if magic = TCPDumpMagic then Some Up
      else if magic = NSecTCPDumpMagic then Some PassThrough
      else if magic = hostToNetwork32 e TCPDumpMagic \<or> magic = hostToNetwork32 e NSecTCPDumpMagic
      then None
      else None)"

definition Reader_magic_message :: "endian \<Rightarrow> u32 \<Rightarrow> message" where
  "Reader_magic_message e magic =
     (if magic = hostToNetwork32 e TCPDumpMagic \<or> magic = hostToNetwork32 e NSecTCPDumpMagic
      then (''<WARN> Byte swapped PCAP not support'', [])
      else (''<WARN> Unknown PCAP header %08x'', [Arg_uint32 magic]))"

text \<open>\<open>return (file_ = {}), debug(...)\<close>.\<close>

definition Reader_reject ::
  "('f, 'x heap_scheme) file_ops \<Rightarrow> message \<Rightarrow> 'f capture_reader \<Rightarrow> 'x heap_scheme
     \<Rightarrow> ('f capture_reader \<times> 'x heap_scheme) option" where
  "Reader_reject fo m r h =
     do { h \<leftarrow> fo_debug fo m h; Some (r\<lparr>rd_file := fo_reset fo (rd_file r)\<rparr>, h) }"

definition readFileHeader_on ::
  "('f, 'x heap_scheme) file_ops \<Rightarrow> endian \<Rightarrow> 'x heap_scheme \<Rightarrow> 'f capture_reader
     \<Rightarrow> ('f capture_reader \<times> 'x heap_scheme) option" where
  "readFileHeader_on fo e h r =
     do { (bs, count, file) \<leftarrow> readStruct_on fo 24 (rd_file r);
          let r = r\<lparr>rd_file := file\<rparr>;
          if count \<noteq> 24 then Reader_reject fo (''<WARN> Read PCAP header error'', []) r h
          else
            let header = FileHeader_of_bytes e bs in
            case Reader_magic e (fh_magic header) of
              None \<Rightarrow> Reader_reject fo (Reader_magic_message e (fh_magic header)) r h
            | Some sc \<Rightarrow>
              let r = r\<lparr>rd_scale := sc\<rparr> in
              if fh_snaplen header > MaxSnapLen then
                Reader_reject fo (''<WARN> Invalid file capture length %u, bigger than maximum of %u'',
                  [Arg_uint32 (fh_snaplen header), Arg_uint32 MaxSnapLen]) r h
              else if fh_linktype header \<noteq> LinkType_Ethernet then
                Reader_reject fo (''<WARN> Linktype %u not supported'', [Arg_uint32 (fh_linktype header)]) r h
              else
                let (p, h) = vector_alloc h (unat (fh_snaplen header))
                in Some (r\<lparr>rd_timezone := sint (fh_thiszone header), rd_buffer := p,
                           rd_buffer_size := unat (fh_snaplen header)\<rparr>, h) }"

text \<open>The constructor, on what that of the file gives: a file, or its exception.\<close>

definition Reader_construct ::
  "('f, 'x heap_scheme) file_ops \<Rightarrow> endian \<Rightarrow> (exn + 'f \<times> 'x heap_scheme) option
     \<Rightarrow> (exn + 'f capture_reader \<times> 'x heap_scheme) option" where
  "Reader_construct fo e opened =
     do { x \<leftarrow> opened;
          case x of
            Inl exc \<Rightarrow> Some (Inl exc)
          | Inr (file, h) \<Rightarrow>
              map_option Inr (readFileHeader_on fo e h
                \<lparr>rd_file = file, rd_scale = PassThrough, rd_timezone = 0, rd_buffer = nullptr,
                 rd_buffer_size = 0\<rparr>) }"

definition Reader_scale_header :: "Scale \<Rightarrow> PacketHeader \<Rightarrow> PacketHeader" where
  "Reader_scale_header sc header =
     (case sc of Up \<Rightarrow> header\<lparr>ph_ts_usec := ph_ts_usec header * 1000\<rparr> | PassThrough \<Rightarrow> header)"

definition readPacket_on ::
  "('f, 'x heap_scheme) file_ops \<Rightarrow> endian \<Rightarrow> 'x heap_scheme \<Rightarrow> 'f capture_reader
     \<Rightarrow> (Packet \<times> 'f capture_reader \<times> 'x heap_scheme) option" where
  "readPacket_on fo e h r =
     do { (bs, count, file) \<leftarrow> readStruct_on fo 16 (rd_file r);
          let r = r\<lparr>rd_file := file\<rparr>;
          let count = (of_nat count :: u32);
          if unat count \<noteq> 16 then do {
            h \<leftarrow> (if count \<noteq> 0 then
                     fo_debug fo (''<WARN> Header read %u of %u'', [Arg_uint32 count, Arg_size 16]) h
                   else Some h);
            Some (Packet_default, r, h) }
          else
            let header = Reader_scale_header (rd_scale r) (PacketHeader_of_bytes e bs) in
            if unat (ph_caplen header) > rd_buffer_size r then do {
              h \<leftarrow> fo_debug fo (''<WARN> PCAP packet header caplen(%u) greater buffer size'',
                     [Arg_uint32 (ph_caplen header)]) h;
              Some (Packet_default, r, h) }
            else do {
              (data, count, file) \<leftarrow> fo_read fo (unat (ph_caplen header)) (rd_file r);
              m \<leftarrow> store_bytes (hp_mem h) (rd_buffer r) data;
              let r = r\<lparr>rd_file := file\<rparr>;
              let h = h\<lparr>hp_mem := m\<rparr>;
              let count = (of_nat count :: u32);
              if count \<noteq> ph_caplen header then do {
                h \<leftarrow> fo_debug fo (''<WARN> Data read %u of %u'', [Arg_uint32 count, Arg_uint32 (ph_caplen header)]) h;
                Some (Packet_default, r, h) }
              else Some (Packet_make header (rd_buffer r), r, h) } }"

text \<open>
  The reader over \<open>FileReader\<close>, first with any effect of \<open>debug\<close>, then with none: it is the
  reader the rest of the development refers to.
\<close>

type_synonym Reader = "FileReader capture_reader"

definition file_reader_ops :: "(message \<Rightarrow> 'h \<Rightarrow> 'h option) \<Rightarrow> (FileReader, 'h) file_ops" where
  "file_reader_ops dbg =
     \<lparr>fo_reset = (\<lambda>f. fst (FileReader_move_assign False f FileReader_default)),
      fo_bool = FileReader_bool, fo_good = FileReader_good, fo_eof = FileReader_eof,
      fo_read = FileReader_read, fo_debug = dbg\<rparr>"

definition quiet :: "(FileReader, 'h) file_ops" where
  "quiet = file_reader_ops (\<lambda>m. Some)"

text \<open>
  The constructor of the file with its message for a name that cannot be opened; \<open>opener\<close> is
  what the constructor makes of a name.
\<close>

definition file_construct ::
  "(message \<Rightarrow> 'h \<Rightarrow> 'h option) \<Rightarrow> (string \<Rightarrow> u8 list option) \<Rightarrow> (string \<Rightarrow> exn + 'f)
     \<Rightarrow> string \<Rightarrow> 'h \<Rightarrow> (exn + 'f \<times> 'h) option" where
  "file_construct dbg files opener filename h =
     do { h \<leftarrow> (if istream_bool (ifstream_open files filename) then Some h
               else dbg (''<WARN> File open error (%s)'', [Arg_cstr filename]) h);
          Some (map_sum id (\<lambda>file. (file, h)) (opener filename)) }"

definition FileReader_construct ::
  "(message \<Rightarrow> 'h \<Rightarrow> 'h option) \<Rightarrow> platform \<Rightarrow> string \<Rightarrow> 'h \<Rightarrow> (exn + FileReader \<times> 'h) option" where
  "FileReader_construct dbg pf = file_construct dbg (pf_files pf) (FileReader_open pf)"

definition Reader_readFileHeader :: "endian \<Rightarrow> heap \<Rightarrow> Reader \<Rightarrow> (Reader \<times> heap) option" where
  "Reader_readFileHeader = readFileHeader_on quiet"

definition Reader_open ::
  "endian \<Rightarrow> platform \<Rightarrow> heap \<Rightarrow> string \<Rightarrow> (exn + Reader \<times> heap) option" where
  "Reader_open e pf h filename = Reader_construct quiet e (FileReader_construct (\<lambda>m. Some) pf filename h)"

definition Reader_bool :: "Reader \<Rightarrow> bool option" where
  "Reader_bool r = FileReader_bool (rd_file r)"

definition Reader_good :: "Reader \<Rightarrow> bool option" where
  "Reader_good r = FileReader_good (rd_file r)"

definition Reader_eof :: "Reader \<Rightarrow> bool option" where
  "Reader_eof r = FileReader_eof (rd_file r)"

definition Reader_readPacket :: "endian \<Rightarrow> heap \<Rightarrow> Reader \<Rightarrow> (Packet \<times> Reader \<times> heap) option" where
  "Reader_readPacket = readPacket_on quiet"

text \<open>These definitions without the calls of \<open>debug\<close>.\<close>

definition Reader_reset_file :: "Reader \<Rightarrow> Reader" where
  "Reader_reset_file r =
     r\<lparr>rd_file := fst (FileReader_move_assign False (rd_file r) FileReader_default)\<rparr>"

lemma quiet_simps [simp]:
  "fo_reset quiet f = fst (FileReader_move_assign False f FileReader_default)"
  "fo_bool quiet = FileReader_bool" "fo_good quiet = FileReader_good" "fo_eof quiet = FileReader_eof"
  "fo_read quiet = FileReader_read" "fo_debug quiet m = Some"
  by (simp_all add: quiet_def file_reader_ops_def)

lemma reject_quiet: "Reader_reject quiet m r h = Some (Reader_reset_file r, h)"
  by (simp add: Reader_reject_def Reader_reset_file_def)

lemma Reader_readFileHeader_eq:
  "Reader_readFileHeader e h r =
     do { (bs, count, file) \<leftarrow> FileReader_readStruct 24 (rd_file r);
          let r = r\<lparr>rd_file := file\<rparr>;
          if count \<noteq> 24 then Some (Reader_reset_file r, h)
          else
            let header = FileHeader_of_bytes e bs in
            case Reader_magic e (fh_magic header) of
              None \<Rightarrow> Some (Reader_reset_file r, h)
            | Some sc \<Rightarrow>
              let r = r\<lparr>rd_scale := sc\<rparr> in
              if fh_snaplen header > MaxSnapLen then Some (Reader_reset_file r, h)
              else if fh_linktype header \<noteq> LinkType_Ethernet then Some (Reader_reset_file r, h)
              else
                let (p, h) = vector_alloc h (unat (fh_snaplen header))
                in Some (r\<lparr>rd_timezone := sint (fh_thiszone header), rd_buffer := p,
                           rd_buffer_size := unat (fh_snaplen header)\<rparr>, h) }"
  unfolding Reader_readFileHeader_def readFileHeader_on_def readStruct_on_def FileReader_readStruct_def
    quiet_simps reject_quiet ..

lemma FileReader_construct_quiet [simp]:
  "FileReader_construct (\<lambda>m. Some) pf filename h = Some (map_sum id (\<lambda>file. (file, h)) (FileReader_open pf filename))"
  by (simp add: FileReader_construct_def file_construct_def)

lemma Reader_open_eq:
  "Reader_open e pf h filename =
     (case FileReader_open pf filename of
        Inl x \<Rightarrow> Some (Inl x)
      | Inr file \<Rightarrow>
          map_option Inr (Reader_readFileHeader e h
            \<lparr>rd_file = file, rd_scale = PassThrough, rd_timezone = 0, rd_buffer = nullptr,
             rd_buffer_size = 0\<rparr>))"
  by (cases "FileReader_open pf filename")
    (simp_all add: Reader_open_def Reader_construct_def Reader_readFileHeader_def)

lemma Reader_readPacket_eq:
  "Reader_readPacket e h r =
     do { (bs, count, file) \<leftarrow> FileReader_readStruct 16 (rd_file r);
          let r = r\<lparr>rd_file := file\<rparr>;
          if unat (of_nat count :: u32) \<noteq> 16 then Some (Packet_default, r, h)
          else
            let header = Reader_scale_header (rd_scale r) (PacketHeader_of_bytes e bs) in
            if unat (ph_caplen header) > rd_buffer_size r then Some (Packet_default, r, h)
            else do {
              (data, count, file) \<leftarrow> FileReader_read (unat (ph_caplen header)) (rd_file r);
              m \<leftarrow> store_bytes (hp_mem h) (rd_buffer r) data;
              let r = r\<lparr>rd_file := file\<rparr>;
              let h = h\<lparr>hp_mem := m\<rparr>;
              if (of_nat count :: u32) \<noteq> ph_caplen header then Some (Packet_default, r, h)
              else Some (Packet_make header (rd_buffer r), r, h) } }"
  unfolding Reader_readPacket_def readPacket_on_def readStruct_on_def FileReader_readStruct_def quiet_simps
    if_cancel bind.bind_lunit Let_def ..

section \<open>What a capture file holds\<close>

text \<open>
  The specification of the reader: a captured packet as a value, the packet a
  \<open>Packet\<close> object denotes in a heap, and the packets the bytes after the file header hold.
  The list ends at the first record that is cut off or longer than the snapshot length.
\<close>

datatype captured = Captured (cap_time: timespec) (cap_length: u32) (cap_bytes: "u8 list")

definition packet_view :: "'x heap_scheme \<Rightarrow> Packet \<Rightarrow> captured option" where
  "packet_view h p =
     do { bs \<leftarrow> load_bytes (hp_mem h) (pk_data p) (unat (pk_captureLength p));
          Some (Captured (pk_timestamp p) (pk_length p) bs) }"

text \<open>
  The format in its own terms: the nanoseconds a unit of the fractional time stands for, by
  the magic number, and the packet of a record, whose fraction is scaled in 32 bits.
\<close>

definition format_tick :: "u32 \<Rightarrow> u32 option" where
  "format_tick magic =
     (if magic = 0xa1b2c3d4 then Some 1000 else if magic = 0xa1b23c4d then Some 1 else None)"

definition record_value :: "u32 \<Rightarrow> PacketHeader \<Rightarrow> u8 list \<Rightarrow> captured" where
  "record_value tick header bs =
     Captured \<lparr>tv_sec = ucast (ph_ts_sec header), tv_nsec = ucast (ph_ts_usec header * tick)\<rparr>
       (ph_len header) bs"

definition header_captured :: "PacketHeader \<Rightarrow> u8 list \<Rightarrow> captured" where
  "header_captured header bs =
     Captured \<lparr>tv_sec = ucast (ph_ts_sec header), tv_nsec = ucast (ph_ts_usec header)\<rparr>
       (ph_len header) bs"

function pcap_records :: "endian \<Rightarrow> u32 \<Rightarrow> nat \<Rightarrow> u8 list \<Rightarrow> captured list" where
  "pcap_records e tick snap bs =
     (if length bs < 16 then []
      else
        let header = PacketHeader_of_bytes e (take 16 bs);
            n = unat (ph_caplen header);
            data = drop 16 bs
        in if snap < n \<or> length data < n then []
           else record_value tick header (take n data) # pcap_records e tick snap (drop n data))"
  by pat_completeness auto
termination
  by (relation "measure (\<lambda>(e, tick, snap, bs). length bs)") auto

declare pcap_records.simps [simp del]

text \<open>The packets a reader still delivers.\<close>

definition scale_tick :: "Scale \<Rightarrow> u32" where
  "scale_tick sc = (case sc of Up \<Rightarrow> 1000 | PassThrough \<Rightarrow> 1)"

definition Reader_rest :: "endian \<Rightarrow> Reader \<Rightarrow> captured list" where
  "Reader_rest e r =
     (if rd_buffer r = nullptr then []
      else pcap_records e (scale_tick (rd_scale r)) (rd_buffer_size r) (FileReader_bytes (rd_file r)))"

text \<open>The buffer of a reader is null and empty, or a block of the heap of its size.\<close>

definition buffer_ok :: "heap \<Rightarrow> pointer \<Rightarrow> nat \<Rightarrow> bool" where
  "buffer_ok h p n \<longleftrightarrow>
     (p = nullptr \<and> n = 0)
     \<or> (\<exists>b bs. p = Pointer (Some b) 0 \<and> b < hp_next h \<and> hp_mem h b = Some bs \<and> length bs = n)"

definition Reader_ok :: "heap \<Rightarrow> Reader \<Rightarrow> bool" where
  "Reader_ok h r \<longleftrightarrow> FileReader_ok (rd_file r) \<and> buffer_ok h (rd_buffer r) (rd_buffer_size r)"

text \<open>The reader as a packet stream: the packet by value, None for an empty packet.\<close>

definition Reader_next_on ::
  "('f, 'x heap_scheme) file_ops \<Rightarrow> endian \<Rightarrow> 'x heap_scheme \<times> 'f capture_reader
     \<Rightarrow> (captured option \<times> 'x heap_scheme \<times> 'f capture_reader) option" where
  "Reader_next_on fo e s =
     do { (p, r, h) \<leftarrow> readPacket_on fo e (fst s) (snd s);
          if Packet_bool p then do { v \<leftarrow> packet_view h p; Some (Some v, (h, r)) }
          else Some (None, (h, r)) }"

definition Reader_next :: "endian \<Rightarrow> heap \<times> Reader \<Rightarrow> (captured option \<times> heap \<times> Reader) option" where
  "Reader_next = Reader_next_on quiet"

lemma Reader_next_eq:
  "Reader_next e s =
     do { (p, r, h) \<leftarrow> Reader_readPacket e (fst s) (snd s);
          if Packet_bool p then do { v \<leftarrow> packet_view h p; Some (Some v, (h, r)) }
          else Some (None, (h, r)) }"
  unfolding Reader_next_def Reader_next_on_def Reader_readPacket_def ..

section \<open>Lemmas\<close>

lemma Packet_default_bool [simp]: "\<not> Packet_bool Packet_default"
  by (simp add: Packet_bool_def Packet_default_def)

lemma Packet_make_bool [simp]: "Packet_bool (Packet_make header p) \<longleftrightarrow> p \<noteq> nullptr"
  by (simp add: Packet_bool_def Packet_make_def)

lemma Packet_make_simps [simp]:
  "pk_data (Packet_make header p) = p"
  "pk_captureLength (Packet_make header p) = ph_caplen header"
  "pk_length (Packet_make header p) = ph_len header"
  by (simp_all add: Packet_make_def)

lemma Pointer_not_null [simp]: "Pointer (Some b) k \<noteq> nullptr" "nullptr \<noteq> Pointer (Some b) k"
  by (simp_all add: nullptr_def)

lemma scale_header_simps [simp]:
  "ph_caplen (Reader_scale_header sc header) = ph_caplen header"
  "ph_len (Reader_scale_header sc header) = ph_len header"
  "ph_ts_sec (Reader_scale_header sc header) = ph_ts_sec header"
  by (cases sc; simp add: Reader_scale_header_def)+

lemma header_captured_scale [simp]:
  "header_captured (Reader_scale_header sc header) bs = record_value (scale_tick sc) header bs"
  by (cases sc) (simp_all add: header_captured_def record_value_def Reader_scale_header_def scale_tick_def)

lemma Reader_magic_tick: "map_option scale_tick (Reader_magic e magic) = format_tick magic"
  by (simp add: Reader_magic_def format_tick_def scale_tick_def TCPDumpMagic_def NSecTCPDumpMagic_def)

lemma packet_view_make:
  "load_bytes (hp_mem h) p (unat (ph_caplen header)) = Some bs \<Longrightarrow>
     packet_view h (Packet_make header p) = Some (header_captured header bs)"
  by (simp add: packet_view_def Packet_make_def header_captured_def)

lemma buffer_ok_store:
  assumes "buffer_ok h p n" and "length xs \<le> n"
  obtains m where "store_bytes (hp_mem h) p xs = Some m"
    and "buffer_ok (h\<lparr>hp_mem := m\<rparr>) p n"
    and "load_bytes m p (length xs) = Some xs"
    and "\<And>b. p \<noteq> Pointer (Some b) 0 \<Longrightarrow> m b = hp_mem h b"
proof (cases "p = nullptr")
  case True
  with assms have "xs = []" by (auto simp: buffer_ok_def)
  with assms True show thesis
    by (intro that [of "hp_mem h"]) (auto simp: store_bytes_def buffer_ok_def)
next
  case False
  with assms(1) obtain b bs where b: "p = Pointer (Some b) 0" "b < hp_next h" "hp_mem h b = Some bs"
    "length bs = n"
    by (auto simp: buffer_ok_def)
  with assms(2) have "load_bytes (hp_mem h) p (length xs) \<noteq> None"
    by (auto simp: load_bytes_def)
  then have "readable (hp_mem h) p (length xs)" by (simp add: readable_def)
  then obtain m where m: "store_bytes (hp_mem h) p xs = Some m"
    using store_bytes_readable by blast
  from store_bytes_block [OF m] b have "buffer_ok (h\<lparr>hp_mem := m\<rparr>) p n"
    by (fastforce simp: buffer_ok_def)
  moreover have "m c = hp_mem h c" if "p \<noteq> Pointer (Some c) 0" for c
    using store_bytes_other [OF m] that b by auto
  ultimately show thesis using m load_store_same [OF m] by (intro that)
qed

text \<open>What an operation of a reader leaves alone: every block but its own buffer.\<close>

definition heap_frame :: "pointer \<Rightarrow> heap \<Rightarrow> heap \<Rightarrow> bool" where
  "heap_frame p h h' \<longleftrightarrow>
     hp_next h' = hp_next h \<and> (\<forall>b. p \<noteq> Pointer (Some b) 0 \<longrightarrow> hp_mem h' b = hp_mem h b)"

definition same_buffer :: "Reader \<Rightarrow> Reader \<Rightarrow> bool" where
  "same_buffer r r' \<longleftrightarrow> rd_buffer r' = rd_buffer r \<and> rd_buffer_size r' = rd_buffer_size r
     \<and> rd_scale r' = rd_scale r"

lemma heap_frame_refl [simp]: "heap_frame p h h"
  by (simp add: heap_frame_def)

text \<open>
  The outcome of \<open>readPacket\<close> on a well-formed reader, by the packets it has left: it never
  goes wrong, keeps the reader well-formed and touches no other block; with none left the
  packet is empty, otherwise it is the first of them, in the reader's own buffer.
\<close>

definition read_outcome ::
  "endian \<Rightarrow> heap \<Rightarrow> Reader \<Rightarrow> captured list \<Rightarrow> (Packet \<times> Reader \<times> heap) option \<Rightarrow> bool" where
  "read_outcome e h r vs out \<longleftrightarrow>
     (\<exists>p r' h'. out = Some (p, r', h') \<and> Reader_ok h' r' \<and> same_buffer r r'
        \<and> heap_frame (rd_buffer r) h h'
        \<and> (case vs of
             [] \<Rightarrow> \<not> Packet_bool p
           | v # ws \<Rightarrow> Packet_bool p \<and> pk_data p = rd_buffer r \<and> packet_view h' p = Some v
                        \<and> Reader_rest e r' = ws))"

lemma read_outcome_end:
  "out = Some (p, r', h') \<Longrightarrow> \<not> Packet_bool p \<Longrightarrow> Reader_ok h' r' \<Longrightarrow> same_buffer r r' \<Longrightarrow>
     heap_frame (rd_buffer r) h h' \<Longrightarrow> read_outcome e h r [] out"
  by (auto simp: read_outcome_def)

lemma unat_count_eq: "k < 2 ^ 32 \<Longrightarrow> unat (of_nat k :: u32) = k"
  by (simp add: unat_of_nat take_bit_nat_eq_self)

lemma count_eq_iff: "k < 2 ^ 32 \<Longrightarrow> (of_nat k :: u32) = w \<longleftrightarrow> k = unat w"
  by (metis unat_count_eq word_unat_eq_iff)

lemma readPacket_no_header:
  assumes "Reader_ok h r" and "length (FileReader_bytes (rd_file r)) < 16"
  shows "read_outcome e h r [] (Reader_readPacket e h r)"
proof -
  have "FileReader_ok (rd_file r)" using assms(1) by (simp add: Reader_ok_def)
  then obtain bs k f where f: "FileReader_read 16 (rd_file r) = Some (bs, k, f)" "k < 16"
    "FileReader_ok f"
    using FileReader_read_short [OF _ assms(2)] by metis
  then have "unat (of_nat k :: u32) \<noteq> 16" by (subst unat_count_eq) auto
  with f have out: "Reader_readPacket e h r = Some (Packet_default, r\<lparr>rd_file := f\<rparr>, h)"
    by (simp add: Reader_readPacket_eq FileReader_readStruct_def)
  show ?thesis
    by (rule read_outcome_end [OF out]) (use assms(1) f in \<open>auto simp: Reader_ok_def same_buffer_def\<close>)
qed

text \<open>With a whole header read, the rest of \<open>readPacket\<close> is this continuation.\<close>

definition read_data ::
  "heap \<Rightarrow> Reader \<Rightarrow> PacketHeader \<Rightarrow> (Packet \<times> Reader \<times> heap) option" where
  "read_data h r header =
     (if unat (ph_caplen header) > rd_buffer_size r then Some (Packet_default, r, h)
      else do {
        (data, count, file) \<leftarrow> FileReader_read (unat (ph_caplen header)) (rd_file r);
        m \<leftarrow> store_bytes (hp_mem h) (rd_buffer r) data;
        let r = r\<lparr>rd_file := file\<rparr>;
        let h = h\<lparr>hp_mem := m\<rparr>;
        if (of_nat count :: u32) \<noteq> ph_caplen header then Some (Packet_default, r, h)
        else Some (Packet_make header (rd_buffer r), r, h) })"

lemma readPacket_header:
  assumes "FileReader_read 16 (rd_file r) = Some (bs, 16, f)"
  shows "Reader_readPacket e h r =
     read_data h (r\<lparr>rd_file := f\<rparr>) (Reader_scale_header (rd_scale r) (PacketHeader_of_bytes e bs))"
  using assms by (simp add: Reader_readPacket_eq FileReader_readStruct_def read_data_def Let_def)

lemma read_data_short:
  assumes "Reader_ok h r"
    and "rd_buffer_size r < unat (ph_caplen header)
      \<or> length (FileReader_bytes (rd_file r)) < unat (ph_caplen header)"
  shows "read_outcome e h r [] (read_data h r header)"
proof (cases "rd_buffer_size r < unat (ph_caplen header)")
  case True
  then have out: "read_data h r header = Some (Packet_default, r, h)" by (simp add: read_data_def)
  show ?thesis
    by (rule read_outcome_end [OF out]) (use assms(1) in \<open>auto simp: same_buffer_def\<close>)
next
  case False
  let ?n = "unat (ph_caplen header)"
  have ok: "FileReader_ok (rd_file r)" "buffer_ok h (rd_buffer r) (rd_buffer_size r)"
    using assms(1) by (auto simp: Reader_ok_def)
  from assms(2) False have "length (FileReader_bytes (rd_file r)) < ?n" by simp
  with ok(1) obtain bs k f where f: "FileReader_read ?n (rd_file r) = Some (bs, k, f)"
    "length bs < ?n" "k < ?n" "FileReader_ok f"
    using FileReader_read_short by metis
  from f(2) False have "length bs \<le> rd_buffer_size r" by simp
  with ok(2) obtain m where m: "store_bytes (hp_mem h) (rd_buffer r) bs = Some m"
    "buffer_ok (h\<lparr>hp_mem := m\<rparr>) (rd_buffer r) (rd_buffer_size r)"
    "\<And>b. rd_buffer r \<noteq> Pointer (Some b) 0 \<Longrightarrow> m b = hp_mem h b"
    using buffer_ok_store by metis
  from f(3) u32_less [of "ph_caplen header"] have "(of_nat k :: u32) \<noteq> ph_caplen header"
    by (subst count_eq_iff) auto
  with f m False have out: "read_data h r header
      = Some (Packet_default, r\<lparr>rd_file := f\<rparr>, h\<lparr>hp_mem := m\<rparr>)"
    by (simp add: read_data_def)
  show ?thesis
    by (rule read_outcome_end [OF out])
      (use f m in \<open>auto simp: Reader_ok_def same_buffer_def heap_frame_def\<close>)
qed

lemma read_data_full:
  assumes "Reader_ok h r" and "FileReader_good (rd_file r) = Some True"
    and "unat (ph_caplen header) \<le> rd_buffer_size r"
    and "unat (ph_caplen header) \<le> length (FileReader_bytes (rd_file r))"
  obtains f m where
    "read_data h r header = Some (Packet_make header (rd_buffer r), r\<lparr>rd_file := f\<rparr>, h\<lparr>hp_mem := m\<rparr>)"
    and "Reader_ok (h\<lparr>hp_mem := m\<rparr>) (r\<lparr>rd_file := f\<rparr>)"
    and "heap_frame (rd_buffer r) h (h\<lparr>hp_mem := m\<rparr>)"
    and "FileReader_bytes f = drop (unat (ph_caplen header)) (FileReader_bytes (rd_file r))"
    and "load_bytes m (rd_buffer r) (unat (ph_caplen header))
      = Some (take (unat (ph_caplen header)) (FileReader_bytes (rd_file r)))"
    and "FileReader_good f = Some True"
proof -
  let ?n = "unat (ph_caplen header)" and ?bs = "FileReader_bytes (rd_file r)"
  have ok: "FileReader_ok (rd_file r)" "buffer_ok h (rd_buffer r) (rd_buffer_size r)"
    using assms(1) by (auto simp: Reader_ok_def)
  obtain f where f: "FileReader_read ?n (rd_file r) = Some (take ?n ?bs, ?n, f)"
    "FileReader_ok f" "FileReader_bytes f = drop ?n ?bs" "FileReader_good f = Some True"
    using FileReader_read_full [OF ok(1) assms(4)] assms(2) by metis
  have "length (take ?n ?bs) \<le> rd_buffer_size r" using assms(3) by simp
  with ok(2) obtain m where m: "store_bytes (hp_mem h) (rd_buffer r) (take ?n ?bs) = Some m"
    "buffer_ok (h\<lparr>hp_mem := m\<rparr>) (rd_buffer r) (rd_buffer_size r)"
    "load_bytes m (rd_buffer r) (length (take ?n ?bs)) = Some (take ?n ?bs)"
    "\<And>b. rd_buffer r \<noteq> Pointer (Some b) 0 \<Longrightarrow> m b = hp_mem h b"
    using buffer_ok_store by metis
  have len: "length (take ?n ?bs) = ?n" using assms(4) by simp
  show thesis
  proof (rule that [of f m])
    show "read_data h r header
        = Some (Packet_make header (rd_buffer r), r\<lparr>rd_file := f\<rparr>, h\<lparr>hp_mem := m\<rparr>)"
      using f m assms(3) by (simp add: read_data_def)
    show "load_bytes m (rd_buffer r) ?n = Some (take ?n ?bs)" using m(3) unfolding len .
  qed (use f m(1,2,4) assms in \<open>auto simp: Reader_ok_def heap_frame_def\<close>)
qed

lemma read_data_record:
  assumes "Reader_ok h r" and "FileReader_good (rd_file r) = Some True"
    and "unat (ph_caplen header) \<le> rd_buffer_size r"
    and "unat (ph_caplen header) \<le> length (FileReader_bytes (rd_file r))"
  shows "read_outcome e h r
     (if rd_buffer r = nullptr then []
      else header_captured header (take (unat (ph_caplen header)) (FileReader_bytes (rd_file r)))
        # pcap_records e (scale_tick (rd_scale r)) (rd_buffer_size r)
            (drop (unat (ph_caplen header)) (FileReader_bytes (rd_file r))))
     (read_data h r header)"
proof -
  obtain f m where d:
    "read_data h r header = Some (Packet_make header (rd_buffer r), r\<lparr>rd_file := f\<rparr>, h\<lparr>hp_mem := m\<rparr>)"
    "Reader_ok (h\<lparr>hp_mem := m\<rparr>) (r\<lparr>rd_file := f\<rparr>)" "heap_frame (rd_buffer r) h (h\<lparr>hp_mem := m\<rparr>)"
    "FileReader_bytes f = drop (unat (ph_caplen header)) (FileReader_bytes (rd_file r))"
    "load_bytes m (rd_buffer r) (unat (ph_caplen header))
      = Some (take (unat (ph_caplen header)) (FileReader_bytes (rd_file r)))"
    using read_data_full [OF assms] by metis
  have keep: "same_buffer r (r\<lparr>rd_file := f\<rparr>)" by (simp add: same_buffer_def)
  show ?thesis
  proof (cases "rd_buffer r = nullptr")
    case True
    with read_outcome_end [OF d(1) _ d(2) keep d(3)] show ?thesis by simp
  next
    case False
    have "packet_view (h\<lparr>hp_mem := m\<rparr>) (Packet_make header (rd_buffer r))
        = Some (header_captured header (take (unat (ph_caplen header)) (FileReader_bytes (rd_file r))))"
      using d(5) by (intro packet_view_make) simp
    with False d keep show ?thesis
      by (simp add: read_outcome_def Reader_rest_def)
  qed
qed

lemma read_outcome_same_buffer:
  "read_outcome e h r1 vs out \<Longrightarrow> same_buffer r r1 \<Longrightarrow> read_outcome e h r vs out"
  by (cases vs) (auto simp: read_outcome_def same_buffer_def)

lemma readPacket_outcome:
  assumes ok: "Reader_ok h r"
  shows "read_outcome e h r (Reader_rest e r) (Reader_readPacket e h r)"
proof (cases "length (FileReader_bytes (rd_file r)) < 16")
  case True
  then have "Reader_rest e r = []" by (simp add: Reader_rest_def pcap_records.simps)
  with readPacket_no_header [OF ok True] show ?thesis by simp
next
  case False
  let ?bs = "FileReader_bytes (rd_file r)"
  have "FileReader_ok (rd_file r)" "16 \<le> length ?bs" "16 \<noteq> (0 :: nat)"
    using ok False by (auto simp: Reader_ok_def)
  then obtain f where f: "FileReader_read 16 (rd_file r) = Some (take 16 ?bs, 16, f)"
    "FileReader_ok f" "FileReader_bytes f = drop 16 ?bs" "FileReader_good f = Some True"
    using FileReader_read_full by metis
  define r1 where "r1 = r\<lparr>rd_file := f\<rparr>"
  define header where "header = Reader_scale_header (rd_scale r) (PacketHeader_of_bytes e (take 16 ?bs))"
  let ?n = "unat (ph_caplen header)"
  have rp: "Reader_readPacket e h r = read_data h r1 header"
    using f(1) by (simp add: readPacket_header r1_def header_def)
  have r1: "Reader_ok h r1" "same_buffer r r1" "rd_file r1 = f" "rd_buffer_size r1 = rd_buffer_size r"
    using ok f by (auto simp: r1_def Reader_ok_def same_buffer_def)
  note records = pcap_records.simps [of e "scale_tick (rd_scale r)" "rd_buffer_size r" ?bs]
  show ?thesis
  proof (cases "rd_buffer_size r < ?n \<or> length (drop 16 ?bs) < ?n")
    case True
    then have rest: "Reader_rest e r = []"
      using False by (simp add: Reader_rest_def records header_def Let_def)
    have "read_outcome e h r1 [] (read_data h r1 header)"
      using True f(3) r1 by (intro read_data_short) auto
    with r1(2) show ?thesis unfolding rp rest by (blast intro: read_outcome_same_buffer)
  next
    case fits: False
    have rest: "Reader_rest e r = (if rd_buffer r1 = nullptr then []
        else header_captured header (take ?n (FileReader_bytes (rd_file r1)))
          # pcap_records e (scale_tick (rd_scale r1)) (rd_buffer_size r1) (drop ?n (FileReader_bytes (rd_file r1))))"
      using fits False f(3) by (simp add: Reader_rest_def records header_def Let_def r1_def)
    have "read_outcome e h r1 (Reader_rest e r) (read_data h r1 header)"
      unfolding rest using fits f r1 by (intro read_data_record) auto
    with r1(2) show ?thesis unfolding rp by (blast intro: read_outcome_same_buffer)
  qed
qed

text \<open>A reader is a packet stream.\<close>

interpretation reader: packet_stream
  "\<lambda>s. Reader_ok (fst s) (snd s)" "Reader_next e" "\<lambda>s. Reader_rest e (snd s)" for e
proof (unfold_locales, goal_cases)
  case (1 s)
  then show ?case
    using readPacket_outcome [of "fst s" "snd s" e]
    by (auto simp: Reader_next_eq read_outcome_def)
next
  case (2 s v vs)
  then show ?case
    using readPacket_outcome [of "fst s" "snd s" e]
    by (auto simp: Reader_next_eq read_outcome_def)
qed

section \<open>Opening a file\<close>

text \<open>The packets of a capture file, by its bytes.\<close>

definition pcap_file :: "endian \<Rightarrow> u8 list \<Rightarrow> captured list" where
  "pcap_file e bs =
     (if length bs < 24 then []
      else
        let header = FileHeader_of_bytes e (take 24 bs) in
        case format_tick (fh_magic header) of
          None \<Rightarrow> []
        | Some tick \<Rightarrow>
            if fh_snaplen header > MaxSnapLen \<or> fh_linktype header \<noteq> LinkType_Ethernet
              \<or> fh_snaplen header = 0
            then []
            else pcap_records e tick (unat (fh_snaplen header)) (drop 24 bs))"

text \<open>
  What opening does to the heap: the blocks there were stay as they are, and the buffer is
  null or the one new block.
\<close>

definition open_frame :: "heap \<Rightarrow> heap \<Rightarrow> pointer \<Rightarrow> bool" where
  "open_frame h h' p \<longleftrightarrow>
     heap_ok h' \<and> (\<forall>b<hp_next h. hp_mem h' b = hp_mem h b)
     \<and> (p = nullptr \<and> hp_next h' = hp_next h
        \<or> p = Pointer (Some (hp_next h)) 0 \<and> hp_next h' = Suc (hp_next h))"

lemma vector_alloc_frame:
  "heap_ok h \<Longrightarrow> vector_alloc h n = (p, h') \<Longrightarrow> open_frame h h' p \<and> buffer_ok h' p n"
  by (auto simp: vector_alloc_def heap_ok_def open_frame_def buffer_ok_def split: if_splits)

lemma Reader_reset_file_simps [simp]:
  "rd_file (Reader_reset_file r) = FileReader_default"
  "rd_buffer (Reader_reset_file r) = rd_buffer r"
  "rd_buffer_size (Reader_reset_file r) = rd_buffer_size r"
  by (simp_all add: Reader_reset_file_def FileReader_move_assign_def FileReader_swap_def
      FileReader_default_def)

lemma FileReader_default_bool [simp]: "FileReader_bool FileReader_default = Some True"
  by (simp add: FileReader_bool_def FileReader_deref_def FileReader_default_def
      ifstream_default_def istream_make_def istream_bool_def)

lemma FileReader_good_bool: "FileReader_good f = Some True \<Longrightarrow> FileReader_bool f = Some True"
  by (cases "FileReader_deref f")
    (auto simp: FileReader_good_def FileReader_bool_def istream_good_def istream_bool_def)

text \<open>The outcome of reading the file header with the initial members of a reader.\<close>

definition open_outcome ::
  "endian \<Rightarrow> heap \<Rightarrow> captured list \<Rightarrow> (Reader \<times> heap) option \<Rightarrow> bool" where
  "open_outcome e h vs out \<longleftrightarrow>
     (\<exists>r' h'. out = Some (r', h') \<and> Reader_ok h' r' \<and> open_frame h h' (rd_buffer r')
        \<and> Reader_rest e r' = vs \<and> Reader_bool r' = Some True)"

lemma open_outcome_reset:
  assumes "heap_ok h" and "rd_buffer r = nullptr" and "rd_buffer_size r = 0"
  shows "open_outcome e h [] (Some (Reader_reset_file r, h))"
  using assms
  by (simp add: open_outcome_def Reader_ok_def buffer_ok_def open_frame_def Reader_rest_def
      Reader_bool_def)

lemma readFileHeader_outcome:
  assumes h: "heap_ok h" and r: "rd_buffer r = nullptr" "rd_buffer_size r = 0" "FileReader_ok (rd_file r)"
  shows "open_outcome e h (pcap_file e (FileReader_bytes (rd_file r))) (Reader_readFileHeader e h r)"
proof (cases "length (FileReader_bytes (rd_file r)) < 24")
  case True
  obtain bs k f where "FileReader_read 24 (rd_file r) = Some (bs, k, f)" "k < 24"
    using FileReader_read_short [OF r(3) True] by metis
  then have "Reader_readFileHeader e h r = Some (Reader_reset_file (r\<lparr>rd_file := f\<rparr>), h)"
    by (simp add: Reader_readFileHeader_eq FileReader_readStruct_def)
  with True h r show ?thesis
    by (simp add: pcap_file_def open_outcome_reset)
next
  case False
  let ?bs = "FileReader_bytes (rd_file r)"
  let ?header = "FileHeader_of_bytes e (take 24 ?bs)"
  from False have "24 \<le> length ?bs" "24 \<noteq> (0 :: nat)" by auto
  then obtain f where f: "FileReader_read 24 (rd_file r) = Some (take 24 ?bs, 24, f)"
    "FileReader_ok f" "FileReader_bytes f = drop 24 ?bs" "FileReader_good f = Some True"
    using FileReader_read_full [OF r(3)] by metis
  note defs = Reader_readFileHeader_eq FileReader_readStruct_def f(1) Let_def
  show ?thesis
  proof (cases "Reader_magic e (fh_magic ?header)")
    case None
    then have "format_tick (fh_magic ?header) = None" by (simp flip: Reader_magic_tick [of e])
    with None False h r show ?thesis
      by (simp add: defs pcap_file_def open_outcome_reset)
  next
    case (Some sc)
    then have tick: "format_tick (fh_magic ?header) = Some (scale_tick sc)"
      by (simp flip: Reader_magic_tick [of e])
    show ?thesis
    proof (cases "fh_snaplen ?header > MaxSnapLen \<or> fh_linktype ?header \<noteq> LinkType_Ethernet")
      case True
      with Some tick False h r show ?thesis
        by (auto simp: defs pcap_file_def open_outcome_reset)
    next
      case accepted: False
      obtain p h' where p: "vector_alloc h (unat (fh_snaplen ?header)) = (p, h')"
        by (cases "vector_alloc h (unat (fh_snaplen ?header))")
      have null: "p = nullptr \<longleftrightarrow> fh_snaplen ?header = 0"
        using p by (auto simp: vector_alloc_def unat_eq_zero split: if_splits)
      show ?thesis
        using Some tick accepted False f p null vector_alloc_frame [OF h p]
        by (simp add: defs pcap_file_def open_outcome_def Reader_ok_def Reader_rest_def
            Reader_bool_def FileReader_good_bool)
    qed
  qed
qed

lemma Reader_open_outcome:
  assumes "heap_ok h" and "FileReader_open pf name = Inr file"
  obtains r h' where "Reader_open e pf h name = Some (Inr (r, h'))" and "Reader_ok h' r"
    and "open_frame h h' (rd_buffer r)" and "Reader_rest e r = pcap_file e (FileReader_bytes file)"
    and "Reader_bool r = Some True"
proof -
  let ?r = "\<lparr>rd_file = file, rd_scale = PassThrough, rd_timezone = 0, rd_buffer = nullptr,
    rd_buffer_size = 0\<rparr>"
  have "open_outcome e h (pcap_file e (FileReader_bytes file)) (Reader_readFileHeader e h ?r)"
    using readFileHeader_outcome [OF assms(1), of ?r e] FileReader_open_ok [OF assms(2)] by simp
  then show thesis
    using assms(2) that by (auto simp: open_outcome_def Reader_open_eq)
qed

end
