(* ===== verification/Nb_Capture.thy ===== *)
theory Nb_Capture
  imports Nb_Reader "HOL-Library.Sublist"
begin

text \<open>
  What the reader of \<open>netbox/pcap/Reader.h\<close> does with a whole file: the loop of its
  clients, the writer of the capture format it is the inverse of, and its answers to files
  that are cut off, in the other byte order or not captures at all.
\<close>

section \<open>The loop of a client\<close>

text \<open>\<open>Reader reader{name}; while (auto packet = reader.readPacket()) ...\<close>.\<close>

definition reader_program_on ::
  "('f, 'x heap_scheme) file_ops \<Rightarrow> (string \<Rightarrow> 'x heap_scheme \<Rightarrow> (exn + 'f \<times> 'x heap_scheme) option)
     \<Rightarrow> endian \<Rightarrow> 'x heap_scheme \<Rightarrow> string
     \<Rightarrow> (exn + captured list \<times> 'x heap_scheme \<times> 'f capture_reader) option" where
  "reader_program_on fo opener e h name =
     do { x \<leftarrow> Reader_construct fo e (opener name h);
          case x of
            Inl exc \<Rightarrow> Some (Inl exc)
          | Inr (r, h) \<Rightarrow> map_option Inr (read_all (Reader_next_on fo e) (h, r)) }"

definition reader_program ::
  "endian \<Rightarrow> platform \<Rightarrow> heap \<Rightarrow> string \<Rightarrow> (exn + captured list \<times> heap \<times> Reader) option" where
  "reader_program e pf = reader_program_on quiet (FileReader_construct (\<lambda>m. Some) pf) e"

lemma reader_program_eq:
  "reader_program e pf h name =
     do { x \<leftarrow> Reader_open e pf h name;
          case x of
            Inl exc \<Rightarrow> Some (Inl exc)
          | Inr (r, h) \<Rightarrow> map_option Inr (read_all (Reader_next e) (h, r)) }"
  unfolding reader_program_def reader_program_on_def Reader_open_def Reader_next_def ..

lemma reader_program_outcome:
  assumes "heap_ok h" and "FileReader_open pf name = Inr f"
  shows "\<exists>h' r'. reader_program e pf h name = Some (Inr (pcap_file e (FileReader_bytes f), h', r'))
    \<and> Reader_ok h' r'"
proof -
  obtain r h1 where r: "Reader_open e pf h name = Some (Inr (r, h1))" "Reader_ok h1 r"
    "Reader_rest e r = pcap_file e (FileReader_bytes f)"
    using Reader_open_outcome [OF assms] by metis
  with reader.read_all_rest [of "(h1, r)" e] show ?thesis
    by (auto simp: reader_program_eq)
qed

section \<open>A writer of the format\<close>

definition FileHeader_bytes :: "endian \<Rightarrow> FileHeader \<Rightarrow> u8 list" where
  "FileHeader_bytes e header =
     bytes_of_word e 4 (fh_magic header) @ bytes_of_word e 2 (fh_version_major header)
     @ bytes_of_word e 2 (fh_version_minor header) @ bytes_of_word e 4 (fh_thiszone header)
     @ bytes_of_word e 4 (fh_sigfigs header) @ bytes_of_word e 4 (fh_snaplen header)
     @ bytes_of_word e 4 (fh_linktype header)"

definition PacketHeader_bytes :: "endian \<Rightarrow> PacketHeader \<Rightarrow> u8 list" where
  "PacketHeader_bytes e header =
     bytes_of_word e 4 (ph_ts_sec header) @ bytes_of_word e 4 (ph_ts_usec header)
     @ bytes_of_word e 4 (ph_caplen header) @ bytes_of_word e 4 (ph_len header)"

definition record_bytes :: "endian \<Rightarrow> PacketHeader \<times> u8 list \<Rightarrow> u8 list" where
  "record_bytes e x = PacketHeader_bytes e (fst x) @ snd x"

definition capture_bytes :: "endian \<Rightarrow> FileHeader \<Rightarrow> (PacketHeader \<times> u8 list) list \<Rightarrow> u8 list" where
  "capture_bytes e header xs = FileHeader_bytes e header @ concat (map (record_bytes e) xs)"

text \<open>The files the reader accepts, and the records that fit their snapshot length.\<close>

definition header_ok :: "FileHeader \<Rightarrow> bool" where
  "header_ok header \<longleftrightarrow> fh_magic header \<in> {TCPDumpMagic, NSecTCPDumpMagic}
     \<and> 0 < fh_snaplen header \<and> fh_snaplen header \<le> MaxSnapLen
     \<and> fh_linktype header = LinkType_Ethernet"

definition record_ok :: "nat \<Rightarrow> PacketHeader \<times> u8 list \<Rightarrow> bool" where
  "record_ok snap x \<longleftrightarrow> unat (ph_caplen (fst x)) = length (snd x) \<and> length (snd x) \<le> snap"

definition header_tick :: "FileHeader \<Rightarrow> u32" where
  "header_tick header = (if fh_magic header = TCPDumpMagic then 1000 else 1)"

definition record_captured :: "u32 \<Rightarrow> PacketHeader \<times> u8 list \<Rightarrow> captured" where
  "record_captured tick x = record_value tick (fst x) (snd x)"

lemma length_header_bytes [simp]:
  "length (FileHeader_bytes e fh) = 24" "length (PacketHeader_bytes e ph) = 16"
  by (simp_all add: FileHeader_bytes_def PacketHeader_bytes_def)

lemma FileHeader_of_bytes_bytes: "FileHeader_of_bytes e (FileHeader_bytes e header) = header"
  by (simp add: FileHeader_of_bytes_def FileHeader_bytes_def field32_def field16_def
      word_of_bytes_of_word)

lemma PacketHeader_of_bytes_bytes: "PacketHeader_of_bytes e (PacketHeader_bytes e header) = header"
  by (simp add: PacketHeader_of_bytes_def PacketHeader_bytes_def field32_def word_of_bytes_of_word)

lemma pcap_records_record:
  assumes "record_ok snap x"
  shows "pcap_records e tick snap (record_bytes e x @ bs)
    = record_captured tick x # pcap_records e tick snap bs"
  using assms
  by (subst pcap_records.simps)
    (simp add: record_ok_def record_bytes_def record_captured_def PacketHeader_of_bytes_bytes Let_def)

lemma pcap_records_Nil [simp]: "pcap_records e tick snap [] = []"
  by (simp add: pcap_records.simps)

lemma pcap_records_records:
  "\<forall>x\<in>set xs. record_ok snap x \<Longrightarrow>
     pcap_records e tick snap (concat (map (record_bytes e) xs)) = map (record_captured tick) xs"
  by (induction xs) (simp_all add: pcap_records_record)

lemma magics [simp]: "TCPDumpMagic \<noteq> NSecTCPDumpMagic" "NSecTCPDumpMagic \<noteq> TCPDumpMagic"
  by (simp_all add: TCPDumpMagic_def NSecTCPDumpMagic_def)

lemma pcap_file_capture:
  assumes "header_ok header" and "\<forall>x\<in>set xs. record_ok (unat (fh_snaplen header)) x"
  shows "pcap_file e (capture_bytes e header xs) = map (record_captured (header_tick header)) xs"
proof -
  have "format_tick (fh_magic header) = Some (header_tick header)"
    using assms(1)
    by (auto simp: header_ok_def format_tick_def header_tick_def TCPDumpMagic_def NSecTCPDumpMagic_def)
  with assms show ?thesis
    by (auto simp: pcap_file_def capture_bytes_def FileHeader_of_bytes_bytes Let_def header_ok_def
        pcap_records_records)
qed

text \<open>A file system that holds the given files, without decoders.\<close>

definition plain_platform :: "(string \<Rightarrow> u8 list option) \<Rightarrow> platform" where
  "plain_platform files =
     \<lparr>pf_files = files, pf_lzma_enabled = False, pf_gzip_enabled = False,
      pf_lzma = \<lambda>bs. Inr (bs, Clean), pf_gzip = \<lambda>bs. (bs, Clean)\<rparr>"

definition plain_name :: "string \<Rightarrow> bool" where
  "plain_name name \<longleftrightarrow> \<not> endsWith name ''.xz'' \<and> \<not> endsWith name ''.gz''"

lemma FileReader_open_plain:
  assumes "plain_name name"
  obtains f where "FileReader_open pf name = Inr f"
    and "FileReader_bytes f = (case pf_files pf name of None \<Rightarrow> [] | Some bs \<Rightarrow> bs)"
    and "pf_files pf name \<noteq> None \<longrightarrow> file_clean f"
proof -
  let ?s = "ifstream_open (pf_files pf) name"
  let ?f = "\<lparr>fr_fileStream = Some ?s, fr_decodedStream = None, fr_stream = To_file\<rparr>"
  have "FileReader_open pf name = Inr ?f"
    using assms by (simp add: FileReader_open_def plain_name_def Let_def)
  moreover have "FileReader_bytes ?f = (case pf_files pf name of None \<Rightarrow> [] | Some bs \<Rightarrow> bs)"
    by (cases "pf_files pf name") (simp_all add: FileReader_bytes_def FileReader_deref_def
        ifstream_open_def istream_bytes_def istream_good_def istream_make_def ifstream_default_def)
  moreover have "pf_files pf name \<noteq> None \<longrightarrow> file_clean ?f"
    by (auto simp: file_clean_def FileReader_deref_def ifstream_open_def istream_clean_def istream_make_def)
  ultimately show thesis by (rule that)
qed

text \<open>Reading one record that fits: the packet holds its bytes, and the file is after it.\<close>

lemma Reader_readPacket_record:
  assumes ok: "Reader_ok h r" and buf: "rd_buffer r \<noteq> nullptr" and x: "record_ok (rd_buffer_size r) x"
    and bs: "FileReader_bytes (rd_file r) = record_bytes e x @ bs"
  obtains p r' h' where "Reader_readPacket e h r = Some (p, r', h')" and "Packet_bool p"
    and "Reader_ok h' r'" and "same_buffer r r'" and "FileReader_bytes (rd_file r') = bs"
    and "FileReader_good (rd_file r') = Some True"
    and "load_bytes (hp_mem h') (pk_data p) (unat (pk_captureLength p)) = Some (snd x)"
proof -
  have "FileReader_ok (rd_file r)" "16 \<le> length (FileReader_bytes (rd_file r))" "16 \<noteq> (0 :: nat)"
    using ok by (auto simp: Reader_ok_def bs record_bytes_def)
  then obtain f where f: "FileReader_read 16 (rd_file r) = Some (PacketHeader_bytes e (fst x), 16, f)"
    "FileReader_ok f" "FileReader_bytes f = snd x @ bs" "FileReader_good f = Some True"
    using FileReader_read_full [of "rd_file r" 16] by (auto simp: bs record_bytes_def)
  let ?r = "r\<lparr>rd_file := f\<rparr>" and ?header = "Reader_scale_header (rd_scale r) (fst x)"
  have n: "unat (ph_caplen ?header) = length (snd x)" "length (snd x) \<le> rd_buffer_size r"
    using x by (simp_all add: record_ok_def)
  have "Reader_ok h ?r" "FileReader_good (rd_file ?r) = Some True"
    "unat (ph_caplen ?header) \<le> rd_buffer_size ?r"
    "unat (ph_caplen ?header) \<le> length (FileReader_bytes (rd_file ?r))"
    using ok f n by (simp_all add: Reader_ok_def)
  then obtain g m where
    "read_data h ?r ?header = Some (Packet_make ?header (rd_buffer ?r), ?r\<lparr>rd_file := g\<rparr>, h\<lparr>hp_mem := m\<rparr>)"
    "Reader_ok (h\<lparr>hp_mem := m\<rparr>) (?r\<lparr>rd_file := g\<rparr>)" "heap_frame (rd_buffer ?r) h (h\<lparr>hp_mem := m\<rparr>)"
    "FileReader_bytes g = drop (unat (ph_caplen ?header)) (FileReader_bytes (rd_file ?r))"
    "load_bytes m (rd_buffer ?r) (unat (ph_caplen ?header))
      = Some (take (unat (ph_caplen ?header)) (FileReader_bytes (rd_file ?r)))"
    "FileReader_good g = Some True"
    by (rule read_data_full)
  with f(1,3) buf n show thesis
    by (intro that [of "Packet_make ?header (rd_buffer r)" "r\<lparr>rd_file := g\<rparr>" "h\<lparr>hp_mem := m\<rparr>"])
      (simp_all add: readPacket_header PacketHeader_of_bytes_bytes same_buffer_def)
qed

section \<open>Files that are cut off, foreign or too long\<close>

lemma Reader_readPacket_oversize:
  assumes ok: "Reader_ok h r" and len: "16 \<le> length (FileReader_bytes (rd_file r))"
    and big: "rd_buffer_size r
      < unat (ph_caplen (PacketHeader_of_bytes e (take 16 (FileReader_bytes (rd_file r)))))"
  shows "\<exists>r'. Reader_readPacket e h r = Some (Packet_default, r', h) \<and> Reader_ok h r'
    \<and> same_buffer r r' \<and> FileReader_bytes (rd_file r') = drop 16 (FileReader_bytes (rd_file r))"
proof -
  have "FileReader_ok (rd_file r)" using ok by (simp add: Reader_ok_def)
  then obtain f where f: "FileReader_read 16 (rd_file r) = Some (take 16 (FileReader_bytes (rd_file r)), 16, f)"
    "FileReader_ok f" "FileReader_bytes f = drop 16 (FileReader_bytes (rd_file r))"
    using FileReader_read_full [OF _ len] by (metis zero_neq_numeral)
  with ok big show ?thesis
    by (intro exI [of _ "r\<lparr>rd_file := f\<rparr>"])
      (simp add: readPacket_header read_data_def Reader_ok_def same_buffer_def)
qed

text \<open>One record of \<open>pcap_records\<close>, by the header it starts with.\<close>

definition next_header :: "endian \<Rightarrow> u8 list \<Rightarrow> PacketHeader" where
  "next_header e bs = PacketHeader_of_bytes e (take 16 bs)"

definition next_size :: "endian \<Rightarrow> u8 list \<Rightarrow> nat" where
  "next_size e bs = unat (ph_caplen (PacketHeader_of_bytes e (take 16 bs)))"

lemma pcap_records_end:
  "length bs < 16 + next_size e bs \<or> snap < next_size e bs \<Longrightarrow> pcap_records e tick snap bs = []"
  by (subst pcap_records.simps) (auto simp: Let_def next_size_def)

lemma pcap_records_more:
  "16 + next_size e bs \<le> length bs \<Longrightarrow> next_size e bs \<le> snap \<Longrightarrow>
     pcap_records e tick snap bs
       = record_value tick (next_header e bs) (take (next_size e bs) (drop 16 bs))
         # pcap_records e tick snap (drop (16 + next_size e bs) bs)"
  by (subst pcap_records.simps) (auto simp: Let_def next_size_def next_header_def add.commute)

lemma next_take: "16 \<le> n \<Longrightarrow> next_size e (take n bs) = next_size e bs"
  "16 \<le> n \<Longrightarrow> next_header e (take n bs) = next_header e bs"
  by (simp_all add: next_size_def next_header_def min_def)

lemma prefix_pcap_records: "prefix (pcap_records e tick snap (take n bs)) (pcap_records e tick snap bs)"
proof (induction "length bs" arbitrary: n bs rule: less_induct)
  case less
  let ?n = "next_size e bs"
  show ?case
  proof (cases "n < 16 + ?n \<or> length bs < 16 + ?n \<or> snap < ?n")
    case True
    then have "pcap_records e tick snap (take n bs) = []"
      by (cases "n < 16") (auto intro!: pcap_records_end simp: next_take)
    then show ?thesis by simp
  next
    case False
    define m where "m = n - (16 + ?n)"
    have "?n \<le> n - 16" using False by auto
    then have "take ?n (drop 16 (take n bs)) = take ?n (drop 16 bs)"
      by (simp add: drop_take min_def)
    moreover have "drop (16 + ?n) (take n bs) = take m (drop (16 + ?n) bs)"
      by (simp add: drop_take m_def)
    ultimately have "pcap_records e tick snap (take n bs)
        = record_value tick (next_header e bs) (take ?n (drop 16 bs))
          # pcap_records e tick snap (take m (drop (16 + ?n) bs))"
      using False pcap_records_more [of e "take n bs" snap tick] by (simp add: next_take)
    moreover have "pcap_records e tick snap bs
        = record_value tick (next_header e bs) (take ?n (drop 16 bs))
          # pcap_records e tick snap (drop (16 + ?n) bs)"
      using False by (intro pcap_records_more) auto
    moreover have "length (drop (16 + ?n) bs) < length bs" using False by auto
    ultimately show ?thesis using less [of "drop (16 + ?n) bs" m] by simp
  qed
qed

lemma prefix_pcap_file: "prefix (pcap_file e (take n bs)) (pcap_file e bs)"
proof (cases "n < 24 \<or> length bs < 24")
  case True
  then show ?thesis by (auto simp: pcap_file_def)
next
  case False
  then have "take 24 (take n bs) = take 24 bs" by (simp add: min_def)
  with False prefix_pcap_records [of e _ _ "n - 24" "drop 24 bs"] show ?thesis
    by (auto simp: pcap_file_def Let_def drop_take split: option.split)
qed

lemma pcap_records_bound:
  "v \<in> set (pcap_records e tick snap bs) \<Longrightarrow> length (cap_bytes v) \<le> snap"
proof (induction "length bs" arbitrary: bs rule: less_induct)
  case less
  show ?case
  proof (cases "length bs < 16 + next_size e bs \<or> snap < next_size e bs")
    case True
    with less.prems show ?thesis by (simp add: pcap_records_end)
  next
    case False
    then have "16 + next_size e bs \<le> length bs" "next_size e bs \<le> snap" by auto
    with less.hyps [of "drop (16 + next_size e bs) bs"] less.prems pcap_records_more [OF this, of tick]
    show ?thesis by (auto simp: record_value_def)
  qed
qed

lemma pcap_file_bound: "v \<in> set (pcap_file e bs) \<Longrightarrow> length (cap_bytes v) \<le> 65535"
proof -
  assume v: "v \<in> set (pcap_file e bs)"
  then obtain tick where "v \<in> set (pcap_records e tick (unat (fh_snaplen (FileHeader_of_bytes e (take 24 bs)))) (drop 24 bs))"
    and "fh_snaplen (FileHeader_of_bytes e (take 24 bs)) \<le> MaxSnapLen"
    by (auto simp: pcap_file_def Let_def split: if_splits option.splits)
  then show ?thesis
    using pcap_records_bound by (fastforce simp: word_le_nat_alt MaxSnapLen_def)
qed

lemma word_of_bytes_swapped:
  "e \<noteq> e' \<Longrightarrow> (word_of_bytes e (bytes_of_word e' 4 w) :: u32) = bswap32 w"
  by (cases e; cases e') (simp_all add: word_of_bytes_def bytes_of_word_def word_of_le_bytes_of_le
      flip: bswap32_rev)

lemma format_tick_swapped:
  "magic \<in> {TCPDumpMagic, NSecTCPDumpMagic} \<Longrightarrow> format_tick (bswap32 magic) = None"
  by (auto simp: format_tick_def TCPDumpMagic_def NSecTCPDumpMagic_def bswap32_def)

lemma pcap_file_swapped:
  assumes "e \<noteq> e'" and "header_ok header"
  shows "pcap_file e (capture_bytes e' header xs) = []"
proof -
  have "fh_magic (FileHeader_of_bytes e (FileHeader_bytes e' header)) = bswap32 (fh_magic header)"
    using assms(1)
    by (simp add: FileHeader_of_bytes_def FileHeader_bytes_def field32_def word_of_bytes_swapped)
  with format_tick_swapped assms(2) show ?thesis
    by (simp add: pcap_file_def capture_bytes_def header_ok_def Let_def)
qed

section \<open>Properties of the reader\<close>

text \<open>A small capture for the instances below: two packets, the second one empty.\<close>

definition sample_header :: FileHeader where
  "sample_header =
     \<lparr>fh_magic = TCPDumpMagic, fh_version_major = 2, fh_version_minor = 4, fh_thiszone = 0,
      fh_sigfigs = 0, fh_snaplen = 16, fh_linktype = LinkType_Ethernet\<rparr>"

definition sample_records :: "(PacketHeader \<times> u8 list) list" where
  "sample_records =
     [(\<lparr>ph_ts_sec = 7, ph_ts_usec = 5, ph_caplen = 3, ph_len = 60\<rparr>, [1, 2, 3]),
      (\<lparr>ph_ts_sec = 9, ph_ts_usec = 6, ph_caplen = 0, ph_len = 0\<rparr>, [])]"

definition empty_heap :: heap where
  "empty_heap = \<lparr>hp_next = 0, hp_mem = (\<lambda>b. None)\<rparr>"

definition sample_platform :: "endian \<Rightarrow> platform" where
  "sample_platform e = plain_platform [''a.pcap'' \<mapsto> capture_bytes e sample_header sample_records]"

lemma empty_heap_ok [simp]: "heap_ok empty_heap"
  by (simp add: heap_ok_def empty_heap_def)

lemma sample_ok [simp]: "header_ok sample_header"
  "\<forall>x\<in>set sample_records. record_ok (unat (fh_snaplen sample_header)) x"
  by (simp_all add: header_ok_def sample_header_def MaxSnapLen_def sample_records_def record_ok_def)

lemma plain_names [simp]: "plain_name ''a.pcap''" "plain_name ''b.pcap''"
  by (simp_all add: plain_name_def endsWith_def)

lemma sample_files [simp]:
  "pf_files (sample_platform e) ''a.pcap'' = Some (capture_bytes e sample_header sample_records)"
  "pf_files (sample_platform e) ''b.pcap'' = None"
  by (simp_all add: sample_platform_def plain_platform_def)

text \<open>
  C9. For every file that opens, whatever bytes it holds, the loop of a client that reads
  packets until an empty one ends, without an access outside the reader's buffer, and
  delivers exactly the packets that the format defines for these bytes.
\<close>

theorem reader_delivers_file:
  assumes "heap_ok h" and "FileReader_open pf name = Inr f"
  shows "\<exists>h' r'. reader_program e pf h name = Some (Inr (pcap_file e (FileReader_bytes f), h', r'))"
  using reader_program_outcome [OF assms] by blast

theorem reader_delivers_file_witness:
  "\<exists>f h' r'. FileReader_open (sample_platform Little) ''b.pcap'' = Inr f
     \<and> reader_program Little (sample_platform Little) empty_heap ''b.pcap'' = Some (Inr ([], h', r'))"
proof -
  obtain f where f: "FileReader_open (sample_platform Little) ''b.pcap'' = Inr f"
    "FileReader_bytes f = []"
    using FileReader_open_plain [of "''b.pcap''" "sample_platform Little"] by auto
  with reader_delivers_file [OF empty_heap_ok f(1), of Little] show ?thesis
    by (auto simp: pcap_file_def)
qed

text \<open>
  C10. The reader is the inverse of a writer of the format: from a file with an accepted
  header and records no longer than its snapshot length it delivers these records in
  order, with their bytes, their original lengths and their times, those of a microsecond
  capture scaled to nanoseconds.
\<close>

theorem reader_inverts_writer:
  assumes "heap_ok h" and "plain_name name" and "header_ok header"
    and "\<forall>x\<in>set xs. record_ok (unat (fh_snaplen header)) x"
    and "pf_files pf name = Some (capture_bytes e header xs)"
  shows "\<exists>h' r'. reader_program e pf h name
    = Some (Inr (map (record_captured (header_tick header)) xs, h', r'))"
proof -
  obtain f where "FileReader_open pf name = Inr f" "FileReader_bytes f = capture_bytes e header xs"
    using FileReader_open_plain [OF assms(2), of pf] assms(5) by auto
  with reader_program_outcome [OF assms(1), of pf name f e] pcap_file_capture [OF assms(3,4), of e]
  show ?thesis by auto
qed

theorem reader_inverts_writer_witness:
  "\<exists>h' r'. reader_program Big (sample_platform Big) empty_heap ''a.pcap'' = Some (Inr (
     [Captured \<lparr>tv_sec = 7, tv_nsec = 5000\<rparr> 60 [1, 2, 3], Captured \<lparr>tv_sec = 9, tv_nsec = 6000\<rparr> 0 []],
     h', r'))"
  using reader_inverts_writer [OF empty_heap_ok plain_names(1) sample_ok sample_files(1), of Big]
  by (simp add: sample_header_def sample_records_def record_captured_def record_value_def
      header_tick_def)

text \<open>
  C25. A capture that is cut off at any byte is read up to the last record it holds whole:
  the packets delivered are a prefix of those of the whole file.
\<close>

theorem reader_truncated_file:
  assumes "heap_ok h" and "plain_name name" and "pf_files pf name = Some (take n bs)"
  shows "\<exists>out h' r'. reader_program e pf h name = Some (Inr (out, h', r'))
    \<and> prefix out (pcap_file e bs)"
proof -
  obtain f where "FileReader_open pf name = Inr f" "FileReader_bytes f = take n bs"
    using FileReader_open_plain [OF assms(2), of pf] assms(3) by auto
  with reader_program_outcome [OF assms(1), of pf name f e] prefix_pcap_file show ?thesis by fastforce
qed

theorem reader_truncated_file_witness:
  "\<exists>out h' r'. reader_program Little
       (plain_platform [''a.pcap'' \<mapsto> take 45 (capture_bytes Little sample_header sample_records)])
       empty_heap ''a.pcap'' = Some (Inr (out, h', r'))
     \<and> prefix out [Captured \<lparr>tv_sec = 7, tv_nsec = 5000\<rparr> 60 [1, 2, 3],
                   Captured \<lparr>tv_sec = 9, tv_nsec = 6000\<rparr> 0 []]"
  using reader_truncated_file [OF empty_heap_ok plain_names(1), of
      "plain_platform [''a.pcap'' \<mapsto> take 45 (capture_bytes Little sample_header sample_records)]"
      45 "capture_bytes Little sample_header sample_records" Little]
    pcap_file_capture [OF sample_ok, of Little]
  by (simp add: plain_platform_def sample_header_def sample_records_def record_captured_def
      record_value_def header_tick_def)

text \<open>
  Whatever a file claims, no delivered packet is longer than the limit of the format:
  a buffer of 65535 bytes holds each of them.
\<close>

theorem reader_packet_bound:
  assumes "heap_ok h" and "FileReader_open pf name = Inr f"
    and "reader_program e pf h name = Some (Inr (out, h', r'))" and "v \<in> set out"
  shows "length (cap_bytes v) \<le> unat MaxSnapLen"
  using reader_program_outcome [OF assms(1,2), of e] assms(3,4) pcap_file_bound [of v e]
  by (auto simp: MaxSnapLen_def)

theorem reader_packet_bound_witness:
  "\<exists>v h' r'. reader_program Little (sample_platform Little) empty_heap ''a.pcap''
       = Some (Inr (map (record_captured 1000) sample_records, h', r'))
     \<and> v \<in> set (map (record_captured 1000) sample_records) \<and> length (cap_bytes v) \<le> unat MaxSnapLen"
proof -
  let ?out = "map (record_captured 1000) sample_records"
  obtain f where f: "FileReader_open (sample_platform Little) ''a.pcap'' = Inr f"
    "FileReader_bytes f = capture_bytes Little sample_header sample_records"
    using FileReader_open_plain [OF plain_names(1), of "sample_platform Little"] by auto
  with reader_program_outcome [OF empty_heap_ok f(1), of Little] pcap_file_capture [OF sample_ok]
  obtain h' r' where out: "reader_program Little (sample_platform Little) empty_heap ''a.pcap''
      = Some (Inr (?out, h', r'))"
    by (auto simp: header_tick_def sample_header_def)
  have "hd ?out \<in> set ?out" by (simp add: sample_records_def)
  with out reader_packet_bound [OF empty_heap_ok f(1) out] show ?thesis by blast
qed

text \<open>
  A capture written on a host of the other byte order is recognised and rejected: not
  one of its packets is delivered, on either kind of host.
\<close>

theorem reader_rejects_swapped:
  assumes "heap_ok h" and "plain_name name" and "header_ok header" and "e \<noteq> e'"
    and "pf_files pf name = Some (capture_bytes e' header xs)"
  shows "\<exists>h' r'. reader_program e pf h name = Some (Inr ([], h', r'))"
proof -
  obtain f where "FileReader_open pf name = Inr f" "FileReader_bytes f = capture_bytes e' header xs"
    using FileReader_open_plain [OF assms(2), of pf] assms(5) by auto
  with reader_program_outcome [OF assms(1), of pf name f e] pcap_file_swapped [OF assms(4,3), of xs]
  show ?thesis by auto
qed

theorem reader_rejects_swapped_witness:
  "\<exists>h' r'. reader_program Little (sample_platform Big) empty_heap ''a.pcap'' = Some (Inr ([], h', r'))"
  using reader_rejects_swapped [OF empty_heap_ok plain_names(1) sample_ok(1) _ sample_files(1),
      of Little Big] by simp

text \<open>
  The validity flag of a reader says nothing: after its construction the conversion to
  bool gives true for every file that opens without an exception, a missing one and one
  that the header check rejected included.
\<close>

theorem reader_flag_always_true:
  assumes "heap_ok h" and "FileReader_open pf name = Inr f"
  shows "\<exists>r h'. Reader_open e pf h name = Some (Inr (r, h')) \<and> Reader_bool r = Some True"
  using Reader_open_outcome [OF assms] by metis

theorem reader_flag_always_true_witness:
  "pf_files (sample_platform Little) ''b.pcap'' = None
     \<and> (\<exists>r h'. Reader_open Little (sample_platform Little) empty_heap ''b.pcap'' = Some (Inr (r, h'))
          \<and> Reader_bool r = Some True)"
proof -
  obtain f where "FileReader_open (sample_platform Little) ''b.pcap'' = Inr f"
    using FileReader_open_plain [of "''b.pcap''" "sample_platform Little"] by auto
  from reader_flag_always_true [OF empty_heap_ok this, of Little] show ?thesis by simp
qed

text \<open>A reader with a buffer of 16 bytes, before a record of 19 bytes whose data is a record.\<close>

definition nested_header :: PacketHeader where
  "nested_header = \<lparr>ph_ts_sec = 7, ph_ts_usec = 5, ph_caplen = 19, ph_len = 19\<rparr>"

definition nested_reader :: Reader where
  "nested_reader =
     \<lparr>rd_file = \<lparr>fr_fileStream = Some (istream_make
          (PacketHeader_bytes Little nested_header @ record_bytes Little (hd sample_records)) Clean),
        fr_decodedStream = None, fr_stream = To_file\<rparr>,
      rd_scale = Up, rd_timezone = 0, rd_buffer = Pointer (Some 0) 0, rd_buffer_size = 16\<rparr>"

definition nested_heap :: heap where
  "nested_heap = snd (vector_alloc empty_heap 16)"

text \<open>
  C38. A record longer than the snapshot length is reported by an empty packet but not
  skipped: the reader has consumed its header only, so the next call takes the bytes of
  its payload for a packet header, and a record found there is delivered as a packet.
\<close>

theorem reader_resumes_in_payload:
  assumes "Reader_ok h r" and "rd_buffer r \<noteq> nullptr"
    and "FileReader_bytes (rd_file r) = PacketHeader_bytes e header @ record_bytes e x @ bs"
    and "rd_buffer_size r < unat (ph_caplen header)" and "record_ok (rd_buffer_size r) x"
  shows "\<exists>r'. Reader_readPacket e h r = Some (Packet_default, r', h)
    \<and> (\<exists>p r'' h''. Reader_readPacket e h r' = Some (p, r'', h'')
          \<and> packet_view h'' p = Some (record_captured (scale_tick (rd_scale r)) x))"
proof -
  obtain r' where r': "Reader_readPacket e h r = Some (Packet_default, r', h)" "Reader_ok h r'"
    "same_buffer r r'" "FileReader_bytes (rd_file r') = record_bytes e x @ bs"
    using Reader_readPacket_oversize [OF assms(1), of e] assms(3,4)
    by (auto simp: PacketHeader_of_bytes_bytes)
  then have "Reader_rest e r' = record_captured (scale_tick (rd_scale r)) x
      # pcap_records e (scale_tick (rd_scale r)) (rd_buffer_size r) bs"
    using assms(2,5) by (simp add: Reader_rest_def same_buffer_def pcap_records_record)
  with readPacket_outcome [OF r'(2), of e] r'(1) show ?thesis
    by (auto simp: read_outcome_def)
qed

theorem reader_resumes_in_payload_witness:
  "\<exists>r' p r'' h''. Reader_readPacket Little nested_heap nested_reader = Some (Packet_default, r', nested_heap)
     \<and> Reader_readPacket Little nested_heap r' = Some (p, r'', h'')
     \<and> packet_view h'' p = Some (Captured \<lparr>tv_sec = 7, tv_nsec = 5000\<rparr> 60 [1, 2, 3])"
proof -
  have bytes: "FileReader_bytes (rd_file nested_reader)
      = PacketHeader_bytes Little nested_header @ record_bytes Little (hd sample_records) @ []"
    by (simp add: FileReader_bytes_def FileReader_deref_def istream_bytes_def istream_make_def
        istream_good_def nested_reader_def)
  have ok: "Reader_ok nested_heap nested_reader"
    by (simp add: Reader_ok_def FileReader_ok_def FileReader_deref_def buffer_ok_def vector_alloc_def
        empty_heap_def nested_heap_def nested_reader_def)
  have r: "rd_buffer nested_reader \<noteq> nullptr" "rd_scale nested_reader = Up"
    "rd_buffer_size nested_reader < unat (ph_caplen nested_header)"
    "record_ok (rd_buffer_size nested_reader) (hd sample_records)"
    "record_captured (scale_tick Up) (hd sample_records) = Captured \<lparr>tv_sec = 7, tv_nsec = 5000\<rparr> 60 [1, 2, 3]"
    by (simp_all add: nested_reader_def nested_header_def sample_records_def record_ok_def
        record_captured_def record_value_def scale_tick_def)
  from reader_resumes_in_payload [OF ok r(1) bytes r(3,4)] show ?thesis by (auto simp: r(2,5))
qed

end
