(* ===== verification/Nb_Merge.thy ===== *)
theory Nb_Merge
  imports Nb_Capture "HOL-Library.Multiset" "HOL-Library.Sublist"
begin

text \<open>
  The specification of \<open>PcapPacketSource\<close>: the merge of several packet sequences, the
  lanes, by timestamp. A lane waits in a queue under the time of its first packet; the
  front lane delivers that packet and goes back behind the lanes of the same time.
\<close>

section \<open>Timestamps\<close>

text \<open>\<open>details::makeUnixTimeNs\<close> of \<open>netbox/PcapPacketSource.h\<close>, in \<open>std::uint64_t\<close>.\<close>

definition makeUnixTimeNs :: "timespec \<Rightarrow> u64" where
  "makeUnixTimeNs ts = tv_sec ts * 1000000000 + tv_nsec ts"

definition cap_key :: "captured \<Rightarrow> u64" where
  "cap_key v = makeUnixTimeNs (cap_time v)"

section \<open>Merging lanes\<close>

fun lane_insert :: "captured list \<Rightarrow> captured list list \<Rightarrow> captured list list" where
  "lane_insert [] Q = Q"
| "lane_insert (x # xs) [] = [x # xs]"
| "lane_insert (x # xs) (l # Q) =
     (if cap_key x < cap_key (hd l) then (x # xs) # l # Q else l # lane_insert (x # xs) Q)"

lemma length_lane_insert: "length (lane_insert l Q) \<le> Suc (length Q)"
  by (induction l Q rule: lane_insert.induct) auto

lemma sum_lane_insert: "sum_list (map length (lane_insert l Q)) = length l + sum_list (map length Q)"
  by (induction l Q rule: lane_insert.induct) auto

function kmerge :: "captured list list \<Rightarrow> captured list" where
  "kmerge [] = []"
| "kmerge ([] # Q) = kmerge Q"
| "kmerge ((x # xs) # Q) = x # kmerge (lane_insert xs Q)"
  by pat_completeness auto
termination
proof (relation "measure (\<lambda>Q. 2 * sum_list (map length Q) + length Q)", goal_cases)
  case (3 x xs Q)
  then show ?case
    using length_lane_insert [of xs Q] by (simp add: sum_lane_insert)
qed auto

section \<open>The merge loses nothing and keeps the order of every lane\<close>

lemma mset_concat_lane_insert:
  "mset (concat (lane_insert l Q)) = mset l + mset (concat Q)"
  by (induction l Q rule: lane_insert.induct) auto

lemma mset_kmerge: "mset (kmerge Q) = mset (concat Q)"
  by (induction Q rule: kmerge.induct) (auto simp: mset_concat_lane_insert)

lemma set_lane_insert: "set (lane_insert l Q) = (if l = [] then {} else {l}) \<union> set Q"
  by (induction l Q rule: lane_insert.induct) auto

lemma subseq_kmerge: "l \<in> set Q \<Longrightarrow> subseq l (kmerge Q)"
proof (induction Q arbitrary: l rule: kmerge.induct)
  case (3 x xs Q)
  show ?case
  proof (cases "l = x # xs")
    case True
    show ?thesis
    proof (cases "xs = []")
      case False
      then have "xs \<in> set (lane_insert xs Q)" by (simp add: set_lane_insert)
      from "3.IH" [OF this] True show ?thesis by simp
    qed (simp add: True)
  next
    case False
    with "3.prems" have "l \<in> set (lane_insert xs Q)" by (auto simp: set_lane_insert)
    from "3.IH" [OF this] show ?thesis by (simp add: list_emb_Cons)
  qed
qed auto

section \<open>Merging sorted lanes gives a sorted sequence\<close>

definition lane_sorted :: "captured list \<Rightarrow> bool" where
  "lane_sorted l \<longleftrightarrow> sorted (map cap_key l)"

text \<open>The queue holds non-empty lanes in the order of their first packets.\<close>

definition queue_sorted :: "captured list list \<Rightarrow> bool" where
  "queue_sorted Q \<longleftrightarrow> (\<forall>l\<in>set Q. l \<noteq> []) \<and> sorted (map (\<lambda>l. cap_key (hd l)) Q)"

lemma queue_sorted_Nil [simp]: "queue_sorted []"
  by (simp add: queue_sorted_def)

lemma queue_sorted_Cons:
  "queue_sorted (l # Q) \<longleftrightarrow>
     l \<noteq> [] \<and> (\<forall>k\<in>set Q. cap_key (hd l) \<le> cap_key (hd k)) \<and> queue_sorted Q"
  by (auto simp: queue_sorted_def)

lemma queue_sorted_insert: "queue_sorted Q \<Longrightarrow> queue_sorted (lane_insert l Q)"
  by (induction l Q rule: lane_insert.induct)
    (auto simp: queue_sorted_Cons set_lane_insert not_less split: if_splits)

lemma kmerge_lower_bound:
  assumes "queue_sorted Q" and "\<forall>l\<in>set Q. lane_sorted l" and "\<forall>l\<in>set Q. b \<le> cap_key (hd l)"
    and "v \<in> set (kmerge Q)"
  shows "b \<le> cap_key v"
proof -
  have "v \<in> set (concat Q)" using assms(4) mset_kmerge [of Q] by (metis set_mset_mset)
  then obtain l where l: "l \<in> set Q" "v \<in> set l" by auto
  from l(2) obtain x xs where "l = x # xs" by (cases l) auto
  with l assms(2,3) show ?thesis by (fastforce simp: lane_sorted_def)
qed

lemma sorted_kmerge:
  assumes "queue_sorted Q" and "\<forall>l\<in>set Q. lane_sorted l"
  shows "sorted (map cap_key (kmerge Q))"
  using assms
proof (induction Q rule: kmerge.induct)
  case (3 x xs Q)
  let ?Q = "lane_insert xs Q"
  have q: "queue_sorted ?Q" using "3.prems"(1) by (simp add: queue_sorted_Cons queue_sorted_insert)
  have s: "\<forall>l\<in>set ?Q. lane_sorted l"
    using "3.prems"(2) by (auto simp: set_lane_insert lane_sorted_def)
  have "\<forall>l\<in>set ?Q. cap_key x \<le> cap_key (hd l)"
    using "3.prems" by (cases xs) (auto simp: set_lane_insert queue_sorted_Cons lane_sorted_def)
  with q s have "\<forall>v\<in>set (kmerge ?Q). cap_key x \<le> cap_key v"
    using kmerge_lower_bound by blast
  with "3.IH" [OF q s] show ?case by simp
qed (auto simp: queue_sorted_Cons)

section \<open>The merge of several sequences\<close>

definition merge_lanes :: "captured list list \<Rightarrow> captured list" where
  "merge_lanes ls = kmerge (foldl (\<lambda>Q l. lane_insert l Q) [] ls)"

lemma mset_foldl_lane_insert:
  "mset (concat (foldl (\<lambda>Q l. lane_insert l Q) Q ls)) = mset (concat Q) + mset (concat ls)"
  by (induction ls arbitrary: Q) (auto simp: mset_concat_lane_insert)

lemma set_foldl_lane_insert:
  "set (foldl (\<lambda>Q l. lane_insert l Q) Q ls) = set Q \<union> {l \<in> set ls. l \<noteq> []}"
  by (induction ls arbitrary: Q) (auto simp: set_lane_insert)

lemma queue_sorted_foldl:
  "queue_sorted Q \<Longrightarrow> queue_sorted (foldl (\<lambda>Q l. lane_insert l Q) Q ls)"
  by (induction ls arbitrary: Q) (auto simp: queue_sorted_insert)

lemma mset_merge_lanes: "mset (merge_lanes ls) = mset (concat ls)"
  by (simp add: merge_lanes_def mset_kmerge mset_foldl_lane_insert)

lemma subseq_merge_lanes: "l \<in> set ls \<Longrightarrow> subseq l (merge_lanes ls)"
  unfolding merge_lanes_def
  by (cases "l = []") (auto intro: subseq_kmerge simp: set_foldl_lane_insert)

lemma sorted_merge_lanes:
  "\<forall>l\<in>set ls. lane_sorted l \<Longrightarrow> sorted (map cap_key (merge_lanes ls))"
  unfolding merge_lanes_def
  by (intro sorted_kmerge) (auto simp: queue_sorted_foldl set_foldl_lane_insert)

section \<open>Properties of the timestamps\<close>

text \<open>
  Points of time are ordered by their seconds and then by their fraction (and the fields a
  record may be extended with).
\<close>

instantiation timespec_ext :: (linorder) linorder
begin

definition less_eq_timespec_def: "(t :: ('a::linorder) timespec_scheme) \<le> t' \<longleftrightarrow>
  tv_sec t < tv_sec t' \<or> tv_sec t = tv_sec t'
    \<and> (tv_nsec t < tv_nsec t' \<or> tv_nsec t = tv_nsec t' \<and> timespec.more t \<le> timespec.more t')"

definition less_timespec_def: "(t :: ('a::linorder) timespec_scheme) < t' \<longleftrightarrow> t \<le> t' \<and> \<not> t' \<le> t"

instance
  by standard (auto simp: less_eq_timespec_def less_timespec_def)

end

lemma timespec_le_iff:
  "(t :: timespec) \<le> t' \<longleftrightarrow> tv_sec t < tv_sec t' \<or> tv_sec t = tv_sec t' \<and> tv_nsec t \<le> tv_nsec t'"
  by (auto simp: less_eq_timespec_def)

text \<open>The time the reader puts into a packet, and its key.\<close>

definition packet_time :: "Scale \<Rightarrow> PacketHeader \<Rightarrow> timespec" where
  "packet_time sc header = pk_timestamp (Packet_make (Reader_scale_header sc header) nullptr)"

definition header_fraction :: "Scale \<Rightarrow> PacketHeader \<Rightarrow> nat" where
  "header_fraction sc header = unat (ph_ts_usec header) * (case sc of Up \<Rightarrow> 1000 | PassThrough \<Rightarrow> 1)"

lemma unat_ucast_u32: "unat (ucast (w :: u32) :: u64) = unat w"
  by (simp add: unsigned_ucast_eq take_bit_nat_eq_self order_less_le_trans [OF u32_less])

lemma packet_time_value:
  assumes "header_fraction sc header < 1000000000"
  shows "unat (tv_sec (packet_time sc header)) = unat (ph_ts_sec header)"
    and "unat (tv_nsec (packet_time sc header)) = header_fraction sc header"
proof -
  show "unat (tv_sec (packet_time sc header)) = unat (ph_ts_sec header)"
    by (simp add: packet_time_def Packet_make_def unat_ucast_u32)
  have "unat (ph_ts_usec header * 1000) = unat (ph_ts_usec header) * 1000" if "sc = Up"
    using assms that by (subst unat_mult_lem [THEN iffD1]) (auto simp: header_fraction_def)
  then show "unat (tv_nsec (packet_time sc header)) = header_fraction sc header"
    by (cases sc)
      (simp_all add: packet_time_def Packet_make_def unat_ucast_u32 Reader_scale_header_def header_fraction_def)
qed

lemma makeUnixTimeNs_value:
  assumes "unat (tv_sec t) < 2 ^ 32" and "unat (tv_nsec t) < 1000000000"
  shows "unat (makeUnixTimeNs t) = unat (tv_sec t) * 1000000000 + unat (tv_nsec t)"
proof -
  have "unat (tv_sec t * 1000000000) = unat (tv_sec t) * 1000000000"
    using assms(1) by (subst unat_mult_lem [THEN iffD1]) auto
  then show ?thesis
    unfolding makeUnixTimeNs_def using assms by (subst unat_add_lem [THEN iffD1]) auto
qed

lemma seconds_order:
  fixes a b c d N :: nat
  assumes "b < N" and "d < N"
  shows "a * N + b \<le> c * N + d \<longleftrightarrow> a < c \<or> a = c \<and> b \<le> d"
proof (cases a c rule: linorder_cases)
  case less
  then have "Suc a * N \<le> c * N" by (intro mult_le_mono1) simp
  with less assms show ?thesis by simp
next
  case greater
  then have "Suc c * N \<le> a * N" by (intro mult_le_mono1) simp
  with greater assms show ?thesis by simp
qed simp

text \<open>The order of the keys is that of the times, for captured packets with valid times.\<close>

definition time_valid :: "timespec \<Rightarrow> bool" where
  "time_valid t \<longleftrightarrow> unat (tv_sec t) < 2 ^ 32 \<and> unat (tv_nsec t) < 1000000000"

lemma makeUnixTimeNs_le_iff:
  assumes "time_valid t" and "time_valid t'"
  shows "makeUnixTimeNs t \<le> makeUnixTimeNs t' \<longleftrightarrow> t \<le> t'"
  using assms seconds_order [of "unat (tv_nsec t)" 1000000000 "unat (tv_nsec t')"]
  by (simp add: time_valid_def makeUnixTimeNs_value timespec_le_iff word_le_nat_alt word_less_nat_alt
      word_unat_eq_iff)

lemma sorted_cap_key_iff:
  "\<forall>v\<in>set vs. time_valid (cap_time v) \<Longrightarrow> sorted (map cap_key vs) \<longleftrightarrow> sorted (map cap_time vs)"
  by (induction vs) (auto simp: cap_key_def makeUnixTimeNs_le_iff)

lemma pcap_records_seconds:
  "v \<in> set (pcap_records e tick snap bs) \<Longrightarrow> unat (tv_sec (cap_time v)) < 2 ^ 32"
proof (induction "length bs" arbitrary: bs rule: less_induct)
  case less
  show ?case
  proof (cases "length bs < 16 + next_size e bs \<or> snap < next_size e bs")
    case True
    with less.prems show ?thesis by (simp add: pcap_records_end)
  next
    case False
    then have "16 + next_size e bs \<le> length bs" "next_size e bs \<le> snap" by auto
    with less.hyps [of "drop (16 + next_size e bs) bs"] less.prems pcap_records_more [OF this, of tick]
      u32_less [of "ph_ts_sec (next_header e bs)"]
    show ?thesis by (auto simp: record_value_def unat_ucast_u32)
  qed
qed

lemma pcap_file_seconds: "v \<in> set (pcap_file e bs) \<Longrightarrow> unat (tv_sec (cap_time v)) < 2 ^ 32"
  by (auto simp: pcap_file_def Let_def dest: pcap_records_seconds split: if_splits option.splits)

text \<open>
  C36. The key a packet is queued under. If the fraction of a record is below a second, as
  the format requires, then neither the scaling of the reader in 32 bits nor the sum of
  \<open>makeUnixTimeNs\<close> in 64 bits wraps around: the key is the capture time in nanoseconds, and
  the order of the keys of two packets is the order of their times.
\<close>

theorem capture_keys_chronological:
  assumes "header_fraction sc header < 1000000000" and "header_fraction sc' header' < 1000000000"
  shows "unat (makeUnixTimeNs (packet_time sc header))
      = unat (ph_ts_sec header) * 1000000000 + header_fraction sc header
    \<and> (makeUnixTimeNs (packet_time sc header) \<le> makeUnixTimeNs (packet_time sc' header')
        \<longleftrightarrow> packet_time sc header \<le> packet_time sc' header')"
proof -
  note v = packet_time_value [OF assms(1)] and v' = packet_time_value [OF assms(2)]
  have k: "unat (makeUnixTimeNs (packet_time sc header))
      = unat (ph_ts_sec header) * 1000000000 + header_fraction sc header"
    using makeUnixTimeNs_value [of "packet_time sc header"] v assms(1) u32_less by simp
  have "time_valid (packet_time sc header)" "time_valid (packet_time sc' header')"
    using v v' assms u32_less by (simp_all add: time_valid_def)
  with k show ?thesis by (simp add: makeUnixTimeNs_le_iff)
qed

theorem capture_keys_chronological_witness:
  "unat (makeUnixTimeNs (packet_time Up
     \<lparr>ph_ts_sec = 4294967295, ph_ts_usec = 999999, ph_caplen = 0, ph_len = 0\<rparr>)) = 4294967295999999000"
  by (subst capture_keys_chronological [of _ _ PassThrough
        "\<lparr>ph_ts_sec = 0, ph_ts_usec = 0, ph_caplen = 0, ph_len = 0\<rparr>", THEN conjunct1])
    (simp_all add: header_fraction_def)

end
