(* ===== verification/Nb_PacketSource.thy ===== *)
theory Nb_PacketSource
  imports Nb_Merge
begin

text \<open>
  \<open>netbox/PcapPacketSource.h\<close>: several capture files read as one stream in the order of
  their timestamps. The readers are owned by \<open>storage_\<close> and referred to by pointers,
  here indices into it; a packet waiting in the queue points into its reader's buffer, so
  the operations take and return the heap.
\<close>

section \<open>The multimap\<close>

text \<open>
  \<open>std::multimap\<close> as the list of its entries in iteration order: \<open>emplace\<close> inserts at the
  upper end of the entries with the same key.
\<close>

fun multimap_emplace :: "u64 \<Rightarrow> 'v \<Rightarrow> (u64 \<times> 'v) list \<Rightarrow> (u64 \<times> 'v) list" where
  "multimap_emplace k v [] = [(k, v)]"
| "multimap_emplace k v (y # q) =
     (if k < fst y then (k, v) # y # q else y # multimap_emplace k v q)"

section \<open>State and operations\<close>

record Context =
  ctx_packet :: Packet
  ctx_reader :: "nat option" \<comment> \<open>\<open>pcap::Reader*\<close>\<close>

definition Context_default :: Context where
  "Context_default = \<lparr>ctx_packet = Packet_default, ctx_reader = None\<rparr>"

text \<open>
  \<open>ps_doneCallback\<close> tells whether a callback is set; \<open>ps_done_calls\<close> counts its calls. The
  readers, and with them the source, are over any operations of a file.
\<close>

record 'f packet_source =
  ps_storage :: "'f capture_reader list"
  ps_queue :: "(u64 \<times> Context) list"
  ps_current :: Context
  ps_doneCallback :: bool
  ps_done_calls :: nat

definition PcapPacketSource_default :: "'f packet_source" where
  "PcapPacketSource_default =
     \<lparr>ps_storage = [], ps_queue = [], ps_current = Context_default, ps_doneCallback = False,
      ps_done_calls = 0\<rparr>"

definition PcapPacketSource_isDone :: "'f packet_source \<Rightarrow> bool" where
  "PcapPacketSource_isDone s \<longleftrightarrow> ps_queue s = [] \<and> ctx_reader (ps_current s) = None"

definition PcapPacketSource_setDoneCallback :: "'f packet_source \<Rightarrow> bool \<Rightarrow> 'f packet_source" where
  "PcapPacketSource_setDoneCallback s callback = s\<lparr>ps_doneCallback := callback\<rparr>"

definition returnToQueue_on ::
  "('f, 'x heap_scheme) file_ops \<Rightarrow> endian \<Rightarrow> 'x heap_scheme \<Rightarrow> 'f packet_source \<Rightarrow> nat
     \<Rightarrow> ('f packet_source \<times> 'x heap_scheme) option" where
  "returnToQueue_on fo e h s i =
     (if length (ps_storage s) \<le> i then None
      else do {
        (packet, reader, h) \<leftarrow> readPacket_on fo e h (ps_storage s ! i);
        let s = s\<lparr>ps_storage := (ps_storage s)[i := reader]\<rparr>;
        if Packet_bool packet then
          Some (s\<lparr>ps_queue := multimap_emplace (makeUnixTimeNs (Packet_timestamp packet))
                     \<lparr>ctx_packet = packet, ctx_reader = Some i\<rparr> (ps_queue s)\<rparr>, h)
        else Some (s, h) })"

text \<open>\<open>opener\<close> is the constructor of the file.\<close>

definition addFile_on ::
  "('f, 'x heap_scheme) file_ops \<Rightarrow> (string \<Rightarrow> 'x heap_scheme \<Rightarrow> (exn + 'f \<times> 'x heap_scheme) option)
     \<Rightarrow> endian \<Rightarrow> 'x heap_scheme \<Rightarrow> 'f packet_source \<Rightarrow> string
     \<Rightarrow> (exn + 'f packet_source \<times> 'x heap_scheme) option" where
  "addFile_on fo opener e h s filename =
     do { opened \<leftarrow> Reader_construct fo e (opener filename h);
          case opened of
            Inl x \<Rightarrow> Some (Inl x)
          | Inr (reader, h) \<Rightarrow>
              do { valid \<leftarrow> fo_bool fo (rd_file reader);
                   if \<not> valid then
                     map_option (\<lambda>h. Inr (s, h))
                       (fo_debug fo (''<WARN> File open error '' @ [CHR 0x22] @ ''%s'' @ [CHR 0x22], [Arg_cstr filename]) h)
                   else
                     let s = s\<lparr>ps_storage := ps_storage s @ [reader]\<rparr> in
                     map_option Inr (returnToQueue_on fo e h s (length (ps_storage s) - 1)) } }"

definition readNextPacket_on ::
  "('f, 'x heap_scheme) file_ops \<Rightarrow> endian \<Rightarrow> 'x heap_scheme \<Rightarrow> 'f packet_source
     \<Rightarrow> (Packet \<times> 'f packet_source \<times> 'x heap_scheme) option" where
  "readNextPacket_on fo e h s =
     do { (s, h) \<leftarrow>
            (case ctx_reader (ps_current s) of
               Some i \<Rightarrow> returnToQueue_on fo e h s i
             | None \<Rightarrow> Some (s, h));
          case ps_queue s of
            [] \<Rightarrow>
              let s = s\<lparr>ps_current := (ps_current s)\<lparr>ctx_reader := None\<rparr>\<rparr>;
                  s = (if ps_doneCallback s then s\<lparr>ps_done_calls := Suc (ps_done_calls s)\<rparr> else s)
              in Some (Packet_default, s, h)
          | (k, c) # q \<Rightarrow>
              Some (ctx_packet c, s\<lparr>ps_current := c, ps_queue := q\<rparr>, h) }"

text \<open>The source over \<open>FileReader\<close>, without messages.\<close>

type_synonym PcapPacketSource = "FileReader packet_source"

definition PcapPacketSource_returnToQueue ::
  "endian \<Rightarrow> heap \<Rightarrow> PcapPacketSource \<Rightarrow> nat \<Rightarrow> (PcapPacketSource \<times> heap) option" where
  "PcapPacketSource_returnToQueue = returnToQueue_on quiet"

definition PcapPacketSource_addFile ::
  "endian \<Rightarrow> platform \<Rightarrow> heap \<Rightarrow> PcapPacketSource \<Rightarrow> string
     \<Rightarrow> (exn + PcapPacketSource \<times> heap) option" where
  "PcapPacketSource_addFile e pf = addFile_on quiet (FileReader_construct (\<lambda>m. Some) pf) e"

definition PcapPacketSource_readNextPacket ::
  "endian \<Rightarrow> heap \<Rightarrow> PcapPacketSource \<Rightarrow> (Packet \<times> PcapPacketSource \<times> heap) option" where
  "PcapPacketSource_readNextPacket = readNextPacket_on quiet"

lemma PcapPacketSource_returnToQueue_eq:
  "PcapPacketSource_returnToQueue e h s i =
     (if length (ps_storage s) \<le> i then None
      else do {
        (packet, reader, h) \<leftarrow> Reader_readPacket e h (ps_storage s ! i);
        let s = s\<lparr>ps_storage := (ps_storage s)[i := reader]\<rparr>;
        if Packet_bool packet then
          Some (s\<lparr>ps_queue := multimap_emplace (makeUnixTimeNs (Packet_timestamp packet))
                     \<lparr>ctx_packet = packet, ctx_reader = Some i\<rparr> (ps_queue s)\<rparr>, h)
        else Some (s, h) })"
  unfolding PcapPacketSource_returnToQueue_def returnToQueue_on_def Reader_readPacket_def ..

lemma PcapPacketSource_addFile_eq:
  "PcapPacketSource_addFile e pf h s filename =
     do { opened \<leftarrow> Reader_open e pf h filename;
          case opened of
            Inl x \<Rightarrow> Some (Inl x)
          | Inr (reader, h) \<Rightarrow>
              do { valid \<leftarrow> Reader_bool reader;
                   if \<not> valid then Some (Inr (s, h))
                   else
                     let s = s\<lparr>ps_storage := ps_storage s @ [reader]\<rparr> in
                     map_option Inr
                       (PcapPacketSource_returnToQueue e h s (length (ps_storage s) - 1)) } }"
  unfolding PcapPacketSource_addFile_def addFile_on_def Reader_open_def Reader_bool_def
    PcapPacketSource_returnToQueue_def quiet_simps option.map ..

lemma PcapPacketSource_readNextPacket_eq:
  "PcapPacketSource_readNextPacket e h s =
     do { (s, h) \<leftarrow>
            (case ctx_reader (ps_current s) of
               Some i \<Rightarrow> PcapPacketSource_returnToQueue e h s i
             | None \<Rightarrow> Some (s, h));
          case ps_queue s of
            [] \<Rightarrow>
              let s = s\<lparr>ps_current := (ps_current s)\<lparr>ctx_reader := None\<rparr>\<rparr>;
                  s = (if ps_doneCallback s then s\<lparr>ps_done_calls := Suc (ps_done_calls s)\<rparr> else s)
              in Some (Packet_default, s, h)
          | (k, c) # q \<Rightarrow>
              Some (ctx_packet c, s\<lparr>ps_current := c, ps_queue := q\<rparr>, h) }"
  unfolding PcapPacketSource_readNextPacket_def readNextPacket_on_def PcapPacketSource_returnToQueue_def ..

text \<open>\<open>readNextPacket\<close> as a packet stream: the packet by value, None for an empty one.\<close>

definition Source_next_on ::
  "('f, 'x heap_scheme) file_ops \<Rightarrow> endian \<Rightarrow> 'x heap_scheme \<times> 'f packet_source
     \<Rightarrow> (captured option \<times> 'x heap_scheme \<times> 'f packet_source) option" where
  "Source_next_on fo e x =
     do { (p, s, h) \<leftarrow> readNextPacket_on fo e (fst x) (snd x);
          if Packet_bool p then do { v \<leftarrow> packet_view h p; Some (Some v, (h, s)) }
          else Some (None, (h, s)) }"

definition Source_next ::
  "endian \<Rightarrow> heap \<times> PcapPacketSource \<Rightarrow> (captured option \<times> heap \<times> PcapPacketSource) option" where
  "Source_next = Source_next_on quiet"

lemma Source_next_eq:
  "Source_next e x =
     do { (p, s, h) \<leftarrow> PcapPacketSource_readNextPacket e (fst x) (snd x);
          if Packet_bool p then do { v \<leftarrow> packet_view h p; Some (Some v, (h, s)) }
          else Some (None, (h, s)) }"
  unfolding Source_next_def Source_next_on_def PcapPacketSource_readNextPacket_def ..

section \<open>The invariant\<close>

text \<open>
  Every reader is well-formed, no two share a buffer; the queue is ordered and each entry
  holds a packet of a reader of its own, whose bytes are those in that reader's buffer;
  the current reader has no packet in the queue.
\<close>

definition entry_ok :: "heap \<Rightarrow> Reader list \<Rightarrow> u64 \<times> Context \<Rightarrow> bool" where
  "entry_ok h rs y \<longleftrightarrow>
     (\<exists>i v. ctx_reader (snd y) = Some i \<and> i < length rs
        \<and> Packet_bool (ctx_packet (snd y)) \<and> pk_data (ctx_packet (snd y)) = rd_buffer (rs ! i)
        \<and> packet_view h (ctx_packet (snd y)) = Some v \<and> fst y = cap_key v)"

definition buffers_distinct :: "Reader list \<Rightarrow> bool" where
  "buffers_distinct rs \<longleftrightarrow>
     (\<forall>i j. i < length rs \<longrightarrow> j < length rs \<longrightarrow> i \<noteq> j \<longrightarrow> rd_buffer (rs ! i) \<noteq> nullptr
        \<longrightarrow> rd_buffer (rs ! i) \<noteq> rd_buffer (rs ! j))"

definition Source_core :: "heap \<Rightarrow> Reader list \<Rightarrow> (u64 \<times> Context) list \<Rightarrow> bool" where
  "Source_core h rs q \<longleftrightarrow>
     heap_ok h \<and> (\<forall>r\<in>set rs. Reader_ok h r) \<and> buffers_distinct rs
     \<and> (\<forall>y\<in>set q. entry_ok h rs y)
     \<and> distinct (map (ctx_reader \<circ> snd) q) \<and> sorted (map fst q)"

definition current_ok :: "PcapPacketSource \<Rightarrow> bool" where
  "current_ok s \<longleftrightarrow>
     (\<forall>i. ctx_reader (ps_current s) = Some i \<longrightarrow>
        i < length (ps_storage s) \<and> Some i \<notin> (ctx_reader \<circ> snd) ` set (ps_queue s))"

definition Source_ok :: "heap \<Rightarrow> PcapPacketSource \<Rightarrow> bool" where
  "Source_ok h s \<longleftrightarrow> Source_core h (ps_storage s) (ps_queue s) \<and> current_ok s"

section \<open>Abstraction to lanes\<close>

definition entry_lane :: "endian \<Rightarrow> heap \<Rightarrow> Reader list \<Rightarrow> u64 \<times> Context \<Rightarrow> captured list" where
  "entry_lane e h rs y =
     the (packet_view h (ctx_packet (snd y))) # Reader_rest e (rs ! the (ctx_reader (snd y)))"

definition Source_lanes :: "endian \<Rightarrow> heap \<Rightarrow> PcapPacketSource \<Rightarrow> captured list list" where
  "Source_lanes e h s = map (entry_lane e h (ps_storage s)) (ps_queue s)"

text \<open>The lane of the current reader, which waits for its next packet to be read.\<close>

definition current_lane :: "endian \<Rightarrow> PcapPacketSource \<Rightarrow> captured list" where
  "current_lane e s =
     (case ctx_reader (ps_current s) of
        None \<Rightarrow> []
      | Some i \<Rightarrow> Reader_rest e (ps_storage s ! i))"

text \<open>What the source still delivers.\<close>

definition Source_rest :: "endian \<Rightarrow> heap \<times> PcapPacketSource \<Rightarrow> captured list" where
  "Source_rest e x =
     kmerge (lane_insert (current_lane e (snd x)) (Source_lanes e (fst x) (snd x)))"

section \<open>The multimap against the lanes\<close>

lemma set_multimap_emplace [simp]: "set (multimap_emplace k v q) = insert (k, v) (set q)"
  by (induction q) auto

lemma mset_multimap_emplace: "mset (multimap_emplace k v q) = mset ((k, v) # q)"
  by (induction q) auto

lemma sorted_multimap_emplace:
  "sorted (map fst q) \<Longrightarrow> sorted (map fst (multimap_emplace k v q))"
  by (induction q) auto

lemma distinct_multimap_emplace:
  "distinct (map f (multimap_emplace k v q)) \<longleftrightarrow> f (k, v) \<notin> f ` set q \<and> distinct (map f q)"
  by (induction q) auto

lemma multimap_emplace_lanes:
  assumes "\<And>y. y \<in> insert (k, v) (set q) \<Longrightarrow> f y \<noteq> [] \<and> cap_key (hd (f y)) = fst y"
  shows "map f (multimap_emplace k v q) = lane_insert (f (k, v)) (map f q)"
  using assms
proof (induction q)
  case Nil
  then show ?case by (cases "f (k, v)") auto
next
  case (Cons y q)
  from Cons.prems [of "(k, v)"] obtain x xs where x: "f (k, v) = x # xs" "cap_key x = k"
    by (cases "f (k, v)") auto
  have "cap_key (hd (f y)) = fst y" using Cons.prems [of y] by simp
  moreover have "map f (multimap_emplace k v q) = lane_insert (f (k, v)) (map f q)"
    using Cons.prems by (intro Cons.IH) auto
  ultimately show ?case using x by simp
qed

section \<open>Operations of one reader leave the other packets alone\<close>

lemma packet_view_frame:
  assumes "hp_mem h' b = hp_mem h b" and "pk_data p = Pointer (Some b) 0"
  shows "packet_view h' p = packet_view h p"
  using assms by (simp add: packet_view_def load_bytes_def)

lemma buffer_ok_frame:
  assumes "buffer_ok h p n" and "heap_frame q h h'" and "p \<noteq> nullptr \<Longrightarrow> p \<noteq> q"
  shows "buffer_ok h' p n"
  using assms by (auto simp: buffer_ok_def heap_frame_def)

lemma buffers_distinct_update:
  assumes "buffers_distinct rs" and "same_buffer (rs ! i) r'"
  shows "buffers_distinct (rs[i := r'])"
proof -
  have "rd_buffer (rs[i := r'] ! j) = rd_buffer (rs ! j)" if "j < length rs" for j
    using assms(2) that by (cases "j = i") (auto simp: same_buffer_def)
  with assms(1) show ?thesis by (simp add: buffers_distinct_def)
qed

lemma readers_ok_update:
  assumes rs: "\<forall>r\<in>set rs. Reader_ok h r" "buffers_distinct rs" and i: "i < length rs"
    and h': "heap_frame (rd_buffer (rs ! i)) h h'" and r': "Reader_ok h' r'"
  shows "\<forall>r\<in>set (rs[i := r']). Reader_ok h' r"
proof
  fix r assume "r \<in> set (rs[i := r'])"
  then obtain j where j: "j < length rs" "r = rs[i := r'] ! j" by (auto simp: in_set_conv_nth)
  show "Reader_ok h' r"
  proof (cases "j = i")
    case False
    with j have r: "r = rs ! j" by simp
    with rs(1) j(1) have "Reader_ok h r" by (metis nth_mem)
    moreover have "rd_buffer r \<noteq> rd_buffer (rs ! i)" if "rd_buffer r \<noteq> nullptr"
      using rs(2) r i j(1) False that by (auto simp: buffers_distinct_def)
    ultimately show ?thesis using h' by (auto simp: Reader_ok_def intro: buffer_ok_frame)
  qed (use j r' in simp)
qed

lemma heap_ok_frame:
  assumes "heap_ok h" and "Reader_ok h r" and "heap_frame (rd_buffer r) h h'"
  shows "heap_ok h'"
  using assms by (fastforce simp: heap_ok_def heap_frame_def Reader_ok_def buffer_ok_def)

text \<open>Where the packet of an entry lies: a block of its own reader.\<close>

lemma entry_okE:
  assumes "entry_ok h rs y" and "\<forall>r\<in>set rs. Reader_ok h r"
  obtains j v b where "ctx_reader (snd y) = Some j" and "j < length rs"
    and "Packet_bool (ctx_packet (snd y))" and "pk_data (ctx_packet (snd y)) = rd_buffer (rs ! j)"
    and "rd_buffer (rs ! j) = Pointer (Some b) 0" and "b < hp_next h"
    and "packet_view h (ctx_packet (snd y)) = Some v" and "fst y = cap_key v"
proof -
  from assms(1) obtain j v where j: "ctx_reader (snd y) = Some j" "j < length rs"
    "Packet_bool (ctx_packet (snd y))" "pk_data (ctx_packet (snd y)) = rd_buffer (rs ! j)"
    "packet_view h (ctx_packet (snd y)) = Some v" "fst y = cap_key v"
    by (auto simp: entry_ok_def)
  moreover from assms(2) j(2) have "buffer_ok h (rd_buffer (rs ! j)) (rd_buffer_size (rs ! j))"
    by (auto simp: Reader_ok_def)
  moreover from j(3,4) have "rd_buffer (rs ! j) \<noteq> nullptr" by (simp add: Packet_bool_def)
  ultimately show thesis by (auto simp: buffer_ok_def intro: that)
qed

lemma entry_frame:
  assumes y: "entry_ok h rs y" and rs: "\<forall>r\<in>set rs. Reader_ok h r" "buffers_distinct rs"
    and i: "i < length rs" "ctx_reader (snd y) \<noteq> Some i"
    and h': "heap_frame (rd_buffer (rs ! i)) h h'"
  shows "entry_ok h' (rs[i := r']) y" and "entry_lane e h' (rs[i := r']) y = entry_lane e h rs y"
proof -
  obtain j v b where j: "ctx_reader (snd y) = Some j" "j < length rs"
    "Packet_bool (ctx_packet (snd y))" "pk_data (ctx_packet (snd y)) = rd_buffer (rs ! j)"
    "rd_buffer (rs ! j) = Pointer (Some b) 0"
    "packet_view h (ctx_packet (snd y)) = Some v" "fst y = cap_key v"
    using entry_okE [OF y rs(1)] by metis
  from j i have ji: "j \<noteq> i" by auto
  with rs(2) i j have "rd_buffer (rs ! i) \<noteq> Pointer (Some b) 0"
    by (metis Pointer_not_null(1) buffers_distinct_def)
  with h' have "hp_mem h' b = hp_mem h b" by (simp add: heap_frame_def)
  then have view: "packet_view h' (ctx_packet (snd y)) = packet_view h (ctx_packet (snd y))"
    using j by (intro packet_view_frame) auto
  with j ji show "entry_ok h' (rs[i := r']) y" by (simp add: entry_ok_def)
  from j ji view show "entry_lane e h' (rs[i := r']) y = entry_lane e h rs y"
    by (simp add: entry_lane_def)
qed

section \<open>returnToQueue\<close>

lemma Source_core_update:
  assumes core: "Source_core h rs q" and i: "i < length rs" "Some i \<notin> (ctx_reader \<circ> snd) ` set q"
    and r': "Reader_ok h' r'" "same_buffer (rs ! i) r'" "heap_frame (rd_buffer (rs ! i)) h h'"
  shows "Source_core h' (rs[i := r']) q"
    and "map (entry_lane e h' (rs[i := r'])) q = map (entry_lane e h rs) q"
proof -
  have rs: "\<forall>r\<in>set rs. Reader_ok h r" "buffers_distinct rs"
    using core by (auto simp: Source_core_def)
  then have "Reader_ok h (rs ! i)" using i(1) by (metis nth_mem)
  with core r'(3) have "heap_ok h'" by (auto simp: Source_core_def intro: heap_ok_frame)
  moreover have "\<forall>r\<in>set (rs[i := r']). Reader_ok h' r"
    using readers_ok_update [OF rs i(1) r'(3,1)] .
  moreover have "buffers_distinct (rs[i := r'])"
    using buffers_distinct_update [OF rs(2) r'(2)] .
  moreover have y: "entry_ok h rs y" "ctx_reader (snd y) \<noteq> Some i" if "y \<in> set q" for y
    using core i(2) that by (auto simp: Source_core_def rev_image_eqI)
  note frame = entry_frame [OF y(1) rs i(1) y(2) r'(3)]
  ultimately show "Source_core h' (rs[i := r']) q"
    using core frame(1) by (auto simp: Source_core_def)
  show "map (entry_lane e h' (rs[i := r'])) q = map (entry_lane e h rs) q"
    using frame(2) by auto
qed

lemma entry_lane_head:
  "entry_ok h rs y \<Longrightarrow> entry_lane e h rs y \<noteq> [] \<and> cap_key (hd (entry_lane e h rs y)) = fst y"
  by (auto simp: entry_ok_def entry_lane_def)

lemma Source_core_emplace:
  assumes core: "Source_core h rs q" and y: "entry_ok h rs (k, c)"
    and new: "ctx_reader c \<notin> (ctx_reader \<circ> snd) ` set q"
  shows "Source_core h rs (multimap_emplace k c q)"
    and "map (entry_lane e h rs) (multimap_emplace k c q)
      = lane_insert (entry_lane e h rs (k, c)) (map (entry_lane e h rs) q)"
proof -
  show "Source_core h rs (multimap_emplace k c q)"
    using assms by (auto simp: Source_core_def sorted_multimap_emplace distinct_multimap_emplace)
  show "map (entry_lane e h rs) (multimap_emplace k c q)
      = lane_insert (entry_lane e h rs (k, c)) (map (entry_lane e h rs) q)"
    using core y by (intro multimap_emplace_lanes entry_lane_head) (auto simp: Source_core_def)
qed

text \<open>
  The effect of \<open>returnToQueue\<close> on the lanes: the lane of the reader is put back behind
  the lanes of the same time, or dropped when its file is at the end.
\<close>

definition return_outcome ::
  "endian \<Rightarrow> heap \<Rightarrow> PcapPacketSource \<Rightarrow> nat \<Rightarrow> (PcapPacketSource \<times> heap) option \<Rightarrow> bool" where
  "return_outcome e h s i out \<longleftrightarrow>
     (\<exists>s' h'. out = Some (s', h') \<and> Source_core h' (ps_storage s') (ps_queue s')
        \<and> ps_current s' = ps_current s \<and> ps_doneCallback s' = ps_doneCallback s
        \<and> ps_done_calls s' = ps_done_calls s \<and> length (ps_storage s') = length (ps_storage s)
        \<and> (\<forall>j. j \<noteq> i \<longrightarrow> ps_storage s' ! j = ps_storage s ! j)
        \<and> heap_frame (rd_buffer (ps_storage s ! i)) h h'
        \<and> (ctx_reader \<circ> snd) ` set (ps_queue s')
            \<subseteq> insert (Some i) ((ctx_reader \<circ> snd) ` set (ps_queue s))
        \<and> Source_lanes e h' s' = lane_insert (Reader_rest e (ps_storage s ! i)) (Source_lanes e h s))"

lemma returnToQueue_outcome:
  assumes core: "Source_core h (ps_storage s) (ps_queue s)"
    and i: "i < length (ps_storage s)" "Some i \<notin> (ctx_reader \<circ> snd) ` set (ps_queue s)"
  shows "return_outcome e h s i (PcapPacketSource_returnToQueue e h s i)"
proof -
  let ?r = "ps_storage s ! i"
  have ok: "Reader_ok h ?r" using core i(1) by (auto simp: Source_core_def)
  obtain p r' h' where r: "Reader_readPacket e h ?r = Some (p, r', h')" "Reader_ok h' r'"
    "same_buffer ?r r'" "heap_frame (rd_buffer ?r) h h'"
    and p: "case Reader_rest e ?r of [] \<Rightarrow> \<not> Packet_bool p
      | v # ws \<Rightarrow> Packet_bool p \<and> pk_data p = rd_buffer ?r \<and> packet_view h' p = Some v
          \<and> Reader_rest e r' = ws"
    using readPacket_outcome [OF ok, of e] unfolding read_outcome_def by blast
  let ?rs = "(ps_storage s)[i := r']"
  note upd = Source_core_update [OF core i r(2-4)]
  show ?thesis
  proof (cases "Reader_rest e ?r")
    case Nil
    with p upd r i show ?thesis
      by (simp add: return_outcome_def PcapPacketSource_returnToQueue_eq Source_lanes_def subset_insertI)
  next
    case (Cons v ws)
    let ?c = "\<lparr>ctx_packet = p, ctx_reader = Some i\<rparr>"
    have k: "makeUnixTimeNs (pk_timestamp p) = cap_key v"
      using p Cons by (auto simp: packet_view_def cap_key_def bind_Some_iff)
    have y: "entry_ok h' ?rs (cap_key v, ?c)"
      using p Cons i r(3) by (simp add: entry_ok_def same_buffer_def)
    have lane: "entry_lane e h' ?rs (cap_key v, ?c) = v # ws"
      using p Cons i by (simp add: entry_lane_def)
    note emp = Source_core_emplace [OF upd(1) y] upd(2)
    from emp i p Cons r k lane show ?thesis
      by (simp add: return_outcome_def PcapPacketSource_returnToQueue_eq Source_lanes_def)
  qed
qed

section \<open>readNextPacket\<close>

text \<open>
  The outcome of \<open>readNextPacket\<close> on the packets \<open>vs\<close> the source has left. At the end the
  packet is empty, the source is done and the callback, if set, has been called once.
\<close>

definition next_outcome ::
  "endian \<Rightarrow> PcapPacketSource \<Rightarrow> captured list
     \<Rightarrow> (Packet \<times> PcapPacketSource \<times> heap) option \<Rightarrow> bool" where
  "next_outcome e s vs out \<longleftrightarrow>
     (\<exists>p s' h'. out = Some (p, s', h') \<and> Source_ok h' s'
        \<and> ps_doneCallback s' = ps_doneCallback s
        \<and> (case vs of
             [] \<Rightarrow> \<not> Packet_bool p \<and> PcapPacketSource_isDone s'
                 \<and> ps_done_calls s' = ps_done_calls s + (if ps_doneCallback s then 1 else 0)
           | v # ws \<Rightarrow> Packet_bool p \<and> packet_view h' p = Some v
                 \<and> (\<exists>b<hp_next h'. pk_data p = Pointer (Some b) 0) \<and> Source_rest e (h', s') = ws
                 \<and> \<not> PcapPacketSource_isDone s' \<and> ps_done_calls s' = ps_done_calls s))"

lemma next_outcome_pop:
  assumes core: "Source_core h (ps_storage s) (ps_queue s)"
  shows "next_outcome e s (kmerge (Source_lanes e h s))
    (case ps_queue s of
       [] \<Rightarrow>
         let s = s\<lparr>ps_current := (ps_current s)\<lparr>ctx_reader := None\<rparr>\<rparr>;
             s = (if ps_doneCallback s then s\<lparr>ps_done_calls := Suc (ps_done_calls s)\<rparr> else s)
         in Some (Packet_default, s, h)
     | (k, c) # q \<Rightarrow> Some (ctx_packet c, s\<lparr>ps_current := c, ps_queue := q\<rparr>, h))"
proof (cases "ps_queue s")
  case Nil
  with core show ?thesis
    by (auto simp: next_outcome_def Source_lanes_def Source_ok_def current_ok_def
        PcapPacketSource_isDone_def Let_def)
next
  case (Cons y q)
  obtain k c where y: "y = (k, c)" by (cases y)
  from core Cons y have ok: "entry_ok h (ps_storage s) (k, c)" by (simp add: Source_core_def)
  moreover have "\<forall>r\<in>set (ps_storage s). Reader_ok h r" using core by (simp add: Source_core_def)
  ultimately obtain i v b where i: "ctx_reader c = Some i" "i < length (ps_storage s)"
    "Packet_bool (ctx_packet c)" "packet_view h (ctx_packet c) = Some v"
    "pk_data (ctx_packet c) = Pointer (Some b) 0" "b < hp_next h"
    using entry_okE [of h "ps_storage s" "(k, c)"] by (metis snd_conv)
  have "Source_ok h (s\<lparr>ps_current := c, ps_queue := q\<rparr>)"
    using core Cons y i by (auto simp: Source_ok_def Source_core_def current_ok_def)
  moreover have "Source_lanes e h s
      = (v # Reader_rest e (ps_storage s ! i)) # map (entry_lane e h (ps_storage s)) q"
    using Cons y i by (simp add: Source_lanes_def entry_lane_def)
  ultimately show ?thesis
    using Cons y i
    by (simp add: next_outcome_def Source_rest_def Source_lanes_def current_lane_def
        PcapPacketSource_isDone_def)
qed

text \<open>The first part of \<open>readNextPacket\<close>: the current reader goes back to the queue.\<close>

lemma requeue_outcome:
  assumes "Source_ok h s"
  obtains s' h' where "(case ctx_reader (ps_current s) of
        Some i \<Rightarrow> PcapPacketSource_returnToQueue e h s i
      | None \<Rightarrow> Some (s, h)) = Some (s', h')"
    and "Source_core h' (ps_storage s') (ps_queue s')"
    and "Source_rest e (h, s) = kmerge (Source_lanes e h' s')"
    and "ps_doneCallback s' = ps_doneCallback s" and "ps_done_calls s' = ps_done_calls s"
proof (cases "ctx_reader (ps_current s)")
  case None
  with assms show thesis
    by (intro that [of s h]) (simp_all add: Source_ok_def Source_rest_def current_lane_def)
next
  case (Some i)
  have "return_outcome e h s i (PcapPacketSource_returnToQueue e h s i)"
    using assms Some by (intro returnToQueue_outcome) (auto simp: Source_ok_def current_ok_def)
  then obtain s' h' where s': "PcapPacketSource_returnToQueue e h s i = Some (s', h')"
    "Source_core h' (ps_storage s') (ps_queue s')"
    "ps_doneCallback s' = ps_doneCallback s" "ps_done_calls s' = ps_done_calls s"
    "Source_lanes e h' s' = lane_insert (Reader_rest e (ps_storage s ! i)) (Source_lanes e h s)"
    unfolding return_outcome_def by blast
  with Some show thesis
    by (intro that [of s' h']) (simp_all add: Source_rest_def current_lane_def)
qed

lemma readNextPacket_outcome:
  assumes "Source_ok h s"
  shows "next_outcome e s (Source_rest e (h, s)) (PcapPacketSource_readNextPacket e h s)"
proof -
  obtain s' h' where s': "(case ctx_reader (ps_current s) of
        Some i \<Rightarrow> PcapPacketSource_returnToQueue e h s i
      | None \<Rightarrow> Some (s, h)) = Some (s', h')"
    "Source_core h' (ps_storage s') (ps_queue s')" "Source_rest e (h, s) = kmerge (Source_lanes e h' s')"
    "ps_doneCallback s' = ps_doneCallback s" "ps_done_calls s' = ps_done_calls s"
    using requeue_outcome [OF assms, of e] by blast
  have "next_outcome e s = next_outcome e s'"
    unfolding next_outcome_def fun_eq_iff s'(4,5) by simp
  with next_outcome_pop [OF s'(2), of e] s'(1,3) show ?thesis
    by (simp add: PcapPacketSource_readNextPacket_eq)
qed

text \<open>A source is a packet stream that tells when it is done.\<close>

interpretation source: finished_stream
  "\<lambda>x. Source_ok (fst x) (snd x)" "Source_next e" "Source_rest e"
  "\<lambda>x. PcapPacketSource_isDone (snd x)" for e
proof (unfold_locales, goal_cases)
  case (1 x)
  then show ?case
    using readNextPacket_outcome [of "fst x" "snd x" e]
    by (auto simp: Source_next_eq next_outcome_def)
next
  case (2 x v vs)
  then show ?case
    using readNextPacket_outcome [of "fst x" "snd x" e]
    by (auto simp: Source_next_eq next_outcome_def)
next
  case (3 x)
  then show ?case
    by (simp add: PcapPacketSource_isDone_def Source_rest_def current_lane_def Source_lanes_def)
next
  case (4 x x')
  then show ?case
    using readNextPacket_outcome [of "fst x" "snd x" e]
    by (auto simp: Source_next_eq next_outcome_def bind_Some_iff split: if_splits list.splits)
qed

section \<open>addFile\<close>

lemma Source_default_ok: "heap_ok h \<Longrightarrow> Source_ok h PcapPacketSource_default"
  by (simp add: Source_ok_def Source_core_def current_ok_def PcapPacketSource_default_def
      Context_default_def buffers_distinct_def)

lemma Source_default_simps [simp]:
  "ps_queue PcapPacketSource_default = []" "ps_storage PcapPacketSource_default = []"
  "ctx_reader (ps_current PcapPacketSource_default) = None"
  "Source_lanes e h PcapPacketSource_default = []"
  by (simp_all add: PcapPacketSource_default_def Context_default_def Source_lanes_def)

lemma buffer_ok_open_frame: "buffer_ok h p n \<Longrightarrow> open_frame h h' q \<Longrightarrow> buffer_ok h' p n"
  by (fastforce simp: buffer_ok_def open_frame_def)

lemma buffers_distinct_append:
  assumes "buffers_distinct rs" and "\<forall>r\<in>set rs. Reader_ok h r" and "open_frame h h' (rd_buffer r')"
  shows "buffers_distinct (rs @ [r'])"
proof -
  have new: "rd_buffer r' = nullptr \<or> rd_buffer (rs ! j) \<noteq> rd_buffer r'" if "j < length rs" for j
  proof -
    from assms(2) that have "buffer_ok h (rd_buffer (rs ! j)) (rd_buffer_size (rs ! j))"
      by (auto simp: Reader_ok_def)
    with assms(3) show ?thesis by (auto simp: buffer_ok_def open_frame_def)
  qed
  show ?thesis
    unfolding buffers_distinct_def
  proof (intro allI impI)
    fix i j
    assume ij: "i < length (rs @ [r'])" "j < length (rs @ [r'])" "i \<noteq> j"
      "rd_buffer ((rs @ [r']) ! i) \<noteq> nullptr"
    then consider "i < length rs" "j < length rs" | "i = length rs" "j < length rs"
      | "i < length rs" "j = length rs"
      by fastforce
    then show "rd_buffer ((rs @ [r']) ! i) \<noteq> rd_buffer ((rs @ [r']) ! j)"
    proof cases
      case 1
      with assms(1) ij show ?thesis by (simp add: buffers_distinct_def nth_append)
    next
      case 2
      with new [of j] ij show ?thesis by (auto simp: nth_append)
    next
      case 3
      with new [of i] ij show ?thesis by (auto simp: nth_append)
    qed
  qed
qed

lemma entry_append:
  assumes y: "entry_ok h rs y" and rs: "\<forall>r\<in>set rs. Reader_ok h r" and h': "open_frame h h' q"
  shows "entry_ok h' (rs @ [r']) y" and "entry_lane e h' (rs @ [r']) y = entry_lane e h rs y"
proof -
  obtain j v b where j: "ctx_reader (snd y) = Some j" "j < length rs"
    "Packet_bool (ctx_packet (snd y))" "pk_data (ctx_packet (snd y)) = rd_buffer (rs ! j)"
    "rd_buffer (rs ! j) = Pointer (Some b) 0" "b < hp_next h"
    "packet_view h (ctx_packet (snd y)) = Some v" "fst y = cap_key v"
    using entry_okE [OF y rs] by metis
  have "hp_mem h' b = hp_mem h b" using h' j(6) by (simp add: open_frame_def)
  then have view: "packet_view h' (ctx_packet (snd y)) = packet_view h (ctx_packet (snd y))"
    using j by (intro packet_view_frame) auto
  with j show "entry_ok h' (rs @ [r']) y" by (simp add: entry_ok_def nth_append)
  from j view show "entry_lane e h' (rs @ [r']) y = entry_lane e h rs y"
    by (simp add: entry_lane_def nth_append)
qed

lemma Source_core_append:
  assumes core: "Source_core h rs q" and r': "Reader_ok h' r'" "open_frame h h' (rd_buffer r')"
  shows "Source_core h' (rs @ [r']) q"
    and "map (entry_lane e h' (rs @ [r'])) q = map (entry_lane e h rs) q"
    and "Some (length rs) \<notin> (ctx_reader \<circ> snd) ` set q"
proof -
  have rs: "\<forall>r\<in>set rs. Reader_ok h r" "buffers_distinct rs" and q: "\<forall>y\<in>set q. entry_ok h rs y"
    using core by (auto simp: Source_core_def)
  have "\<forall>r\<in>set rs. Reader_ok h' r"
    using rs(1) r'(2) by (auto simp: Reader_ok_def intro: buffer_ok_open_frame)
  then show "Source_core h' (rs @ [r']) q"
    using core r' q buffers_distinct_append [OF rs(2,1) r'(2)] entry_append(1) [OF _ rs(1) r'(2)]
    by (auto simp: Source_core_def open_frame_def)
  show "map (entry_lane e h' (rs @ [r'])) q = map (entry_lane e h rs) q"
    using q entry_append(2) [OF _ rs(1) r'(2)] by auto
  show "Some (length rs) \<notin> (ctx_reader \<circ> snd) ` set q"
    using q by (auto simp: entry_ok_def)
qed

text \<open>
  Adding a file that opens without an exception: its packets become a lane of their own,
  none if the file is missing or not a capture.
\<close>

definition add_outcome ::
  "endian \<Rightarrow> heap \<Rightarrow> PcapPacketSource \<Rightarrow> captured list
     \<Rightarrow> (exn + PcapPacketSource \<times> heap) option \<Rightarrow> bool" where
  "add_outcome e h s vs out \<longleftrightarrow>
     (\<exists>s' h'. out = Some (Inr (s', h')) \<and> Source_ok h' s' \<and> hp_next h \<le> hp_next h'
        \<and> (\<forall>b<hp_next h. hp_mem h' b = hp_mem h b)
        \<and> Source_lanes e h' s' = lane_insert vs (Source_lanes e h s)
        \<and> current_lane e s' = current_lane e s \<and> ps_current s' = ps_current s
        \<and> ps_doneCallback s' = ps_doneCallback s \<and> ps_done_calls s' = ps_done_calls s)"

lemma addFile_outcome:
  assumes ok: "Source_ok h s" and f: "FileReader_open pf name = Inr f"
  shows "add_outcome e h s (pcap_file e (FileReader_bytes f)) (PcapPacketSource_addFile e pf h s name)"
proof -
  have core: "Source_core h (ps_storage s) (ps_queue s)" and h: "heap_ok h"
    using ok by (auto simp: Source_ok_def Source_core_def)
  obtain r h1 where r: "Reader_open e pf h name = Some (Inr (r, h1))" "Reader_ok h1 r"
    "open_frame h h1 (rd_buffer r)" "Reader_rest e r = pcap_file e (FileReader_bytes f)"
    "Reader_bool r = Some True"
    using Reader_open_outcome [OF h f] by metis
  note app = Source_core_append [OF core r(2,3)]
  define s1 where "s1 = s\<lparr>ps_storage := ps_storage s @ [r]\<rparr>"
  let ?i = "length (ps_storage s)"
  have "return_outcome e h1 s1 ?i (PcapPacketSource_returnToQueue e h1 s1 ?i)"
    using app by (intro returnToQueue_outcome) (auto simp: s1_def)
  then obtain s' h' where s': "PcapPacketSource_returnToQueue e h1 s1 ?i = Some (s', h')"
    "Source_core h' (ps_storage s') (ps_queue s')" "ps_current s' = ps_current s"
    "ps_doneCallback s' = ps_doneCallback s" "ps_done_calls s' = ps_done_calls s"
    "length (ps_storage s') = Suc ?i"
    "Source_lanes e h' s' = lane_insert (Reader_rest e r) (Source_lanes e h1 s1)"
    "heap_frame (rd_buffer r) h1 h'"
    and keep: "\<forall>j. j \<noteq> ?i \<longrightarrow> ps_storage s' ! j = ps_storage s1 ! j"
    "(ctx_reader \<circ> snd) ` set (ps_queue s') \<subseteq> insert (Some ?i) ((ctx_reader \<circ> snd) ` set (ps_queue s))"
    by (auto simp: return_outcome_def s1_def)
  have cur: "ctx_reader (ps_current s) = Some j \<Longrightarrow>
      j < ?i \<and> Some j \<notin> (ctx_reader \<circ> snd) ` set (ps_queue s)" for j
    using ok by (auto simp: Source_ok_def current_ok_def)
  have "ps_storage s' ! j = ps_storage s ! j" if "j < ?i" for j
    using keep(1) that by (auto simp: s1_def nth_append)
  with cur s'(3) have "current_lane e s' = current_lane e s"
    by (auto simp: current_lane_def split: option.split)
  moreover have "current_ok s'"
    unfolding current_ok_def
  proof (intro allI impI)
    fix j assume "ctx_reader (ps_current s') = Some j"
    with cur s'(3) have "j < ?i" "Some j \<notin> (ctx_reader \<circ> snd) ` set (ps_queue s)" by auto
    with keep(2) s'(6) show "j < length (ps_storage s') \<and> Some j \<notin> (ctx_reader \<circ> snd) ` set (ps_queue s')"
      by auto
  qed
  moreover have "hp_next h \<le> hp_next h' \<and> (\<forall>b<hp_next h. hp_mem h' b = hp_mem h b)"
    using r(3) s'(8) by (auto simp: open_frame_def heap_frame_def)
  moreover have "Source_lanes e h1 s1 = Source_lanes e h s"
    using app(2) by (simp add: Source_lanes_def s1_def)
  ultimately show ?thesis
    using s' r by (simp add: add_outcome_def PcapPacketSource_addFile_eq s1_def Source_ok_def)
qed

section \<open>Client: the program \<open>examples/packet_source.cpp\<close>\<close>

text \<open>The loop over the command line, which adds the files in turn, and the loop that reads
  the packets; \<open>main\<close> reports how many there were.\<close>

fun add_files_on ::
  "('f, 'x heap_scheme) file_ops \<Rightarrow> (string \<Rightarrow> 'x heap_scheme \<Rightarrow> (exn + 'f \<times> 'x heap_scheme) option)
     \<Rightarrow> endian \<Rightarrow> 'x heap_scheme \<Rightarrow> 'f packet_source \<Rightarrow> string list
     \<Rightarrow> (exn + 'f packet_source \<times> 'x heap_scheme) option" where
  "add_files_on fo opener e h s [] = Some (Inr (s, h))"
| "add_files_on fo opener e h s (f # fs) =
     do { x \<leftarrow> addFile_on fo opener e h s f;
          case x of Inl exc \<Rightarrow> Some (Inl exc) | Inr (s, h) \<Rightarrow> add_files_on fo opener e h s fs }"

definition source_program_on ::
  "('f, 'x heap_scheme) file_ops \<Rightarrow> (string \<Rightarrow> 'x heap_scheme \<Rightarrow> (exn + 'f \<times> 'x heap_scheme) option)
     \<Rightarrow> endian \<Rightarrow> 'x heap_scheme \<Rightarrow> bool \<Rightarrow> string list
     \<Rightarrow> (exn + captured list \<times> 'x heap_scheme \<times> 'f packet_source) option" where
  "source_program_on fo opener e h callback names =
     do { x \<leftarrow> add_files_on fo opener e h (PcapPacketSource_setDoneCallback PcapPacketSource_default callback) names;
          case x of
            Inl exc \<Rightarrow> Some (Inl exc)
          | Inr (s, h) \<Rightarrow>
              map_option Inr
                (read_until (\<lambda>x. PcapPacketSource_isDone (snd x)) (Source_next_on fo e) (h, s)) }"

definition add_files ::
  "endian \<Rightarrow> platform \<Rightarrow> heap \<Rightarrow> PcapPacketSource \<Rightarrow> string list
     \<Rightarrow> (exn + PcapPacketSource \<times> heap) option" where
  "add_files e pf = add_files_on quiet (FileReader_construct (\<lambda>m. Some) pf) e"

definition source_program ::
  "endian \<Rightarrow> platform \<Rightarrow> heap \<Rightarrow> bool \<Rightarrow> string list
     \<Rightarrow> (exn + captured list \<times> heap \<times> PcapPacketSource) option" where
  "source_program e pf = source_program_on quiet (FileReader_construct (\<lambda>m. Some) pf) e"

lemma add_files_simps [simp]:
  "add_files e pf h s [] = Some (Inr (s, h))"
  "add_files e pf h s (f # fs) =
     do { x \<leftarrow> PcapPacketSource_addFile e pf h s f;
          case x of Inl exc \<Rightarrow> Some (Inl exc) | Inr (s, h) \<Rightarrow> add_files e pf h s fs }"
  unfolding add_files_def PcapPacketSource_addFile_def by (rule add_files_on.simps)+

lemma source_program_eq:
  "source_program e pf h callback names =
     do { x \<leftarrow> add_files e pf h (PcapPacketSource_setDoneCallback PcapPacketSource_default callback) names;
          case x of
            Inl exc \<Rightarrow> Some (Inl exc)
          | Inr (s, h) \<Rightarrow>
              map_option Inr
                (read_until (\<lambda>x. PcapPacketSource_isDone (snd x)) (Source_next e) (h, s)) }"
  unfolding source_program_def source_program_on_def add_files_def Source_next_def ..

definition packet_source_main ::
  "endian \<Rightarrow> platform \<Rightarrow> heap \<Rightarrow> string list \<Rightarrow> (exn + nat) option" where
  "packet_source_main e pf h argv =
     map_option (map_sum id (length \<circ> fst)) (source_program e pf h False argv)"

text \<open>The packets of one file, and the condition that opening it throws nothing.\<close>

definition file_packets :: "endian \<Rightarrow> platform \<Rightarrow> string \<Rightarrow> captured list" where
  "file_packets e pf name =
     (case FileReader_open pf name of Inl x \<Rightarrow> [] | Inr f \<Rightarrow> pcap_file e (FileReader_bytes f))"

definition opens :: "platform \<Rightarrow> string \<Rightarrow> bool" where
  "opens pf name \<longleftrightarrow> (case FileReader_open pf name of Inl x \<Rightarrow> False | Inr f \<Rightarrow> True)"

lemma addFile_opens:
  assumes "Source_ok h s" and "opens pf name"
  shows "add_outcome e h s (file_packets e pf name) (PcapPacketSource_addFile e pf h s name)"
  using assms addFile_outcome
  by (cases "FileReader_open pf name") (simp_all add: opens_def file_packets_def)

lemma addFile_throws:
  "\<not> opens pf name \<Longrightarrow> \<exists>x. PcapPacketSource_addFile e pf h s name = Some (Inl x)"
  by (auto simp: opens_def PcapPacketSource_addFile_eq Reader_open_eq split: sum.splits)

lemma add_files_outcome:
  assumes "Source_ok h s" and "\<forall>name\<in>set names. opens pf name"
  shows "\<exists>s' h'. add_files e pf h s names = Some (Inr (s', h')) \<and> Source_ok h' s'
    \<and> hp_next h \<le> hp_next h' \<and> (\<forall>b<hp_next h. hp_mem h' b = hp_mem h b)
    \<and> Source_lanes e h' s'
        = foldl (\<lambda>Q l. lane_insert l Q) (Source_lanes e h s) (map (file_packets e pf) names)
    \<and> ps_current s' = ps_current s \<and> current_lane e s' = current_lane e s
    \<and> ps_doneCallback s' = ps_doneCallback s \<and> ps_done_calls s' = ps_done_calls s"
  using assms
proof (induction names arbitrary: s h)
  case (Cons name names)
  have "add_outcome e h s (file_packets e pf name) (PcapPacketSource_addFile e pf h s name)"
    using Cons.prems by (intro addFile_opens) auto
  then obtain s1 h1 where s1: "PcapPacketSource_addFile e pf h s name = Some (Inr (s1, h1))"
    "Source_ok h1 s1" "hp_next h \<le> hp_next h1" "\<forall>b<hp_next h. hp_mem h1 b = hp_mem h b"
    "Source_lanes e h1 s1 = lane_insert (file_packets e pf name) (Source_lanes e h s)"
    "current_lane e s1 = current_lane e s" "ps_current s1 = ps_current s"
    "ps_doneCallback s1 = ps_doneCallback s" "ps_done_calls s1 = ps_done_calls s"
    unfolding add_outcome_def by blast
  with Cons.IH [OF s1(2)] Cons.prems(2) show ?case by fastforce
qed simp

lemma Source_next_outcome:
  assumes "Source_ok h s"
  obtains v h' s' where "Source_next e (h, s) = Some (v, (h', s'))" and "Source_ok h' s'"
    and "ps_doneCallback s' = ps_doneCallback s"
    and "case Source_rest e (h, s) of
        [] \<Rightarrow> v = None \<and> PcapPacketSource_isDone s'
          \<and> ps_done_calls s' = ps_done_calls s + (if ps_doneCallback s then 1 else 0)
      | w # ws \<Rightarrow> v = Some w \<and> Source_rest e (h', s') = ws \<and> \<not> PcapPacketSource_isDone s'
          \<and> ps_done_calls s' = ps_done_calls s"
proof -
  obtain p s' h' where out: "PcapPacketSource_readNextPacket e h s = Some (p, s', h')" "Source_ok h' s'"
    "ps_doneCallback s' = ps_doneCallback s"
    and p: "case Source_rest e (h, s) of
        [] \<Rightarrow> \<not> Packet_bool p \<and> PcapPacketSource_isDone s'
          \<and> ps_done_calls s' = ps_done_calls s + (if ps_doneCallback s then 1 else 0)
      | w # ws \<Rightarrow> Packet_bool p \<and> packet_view h' p = Some w
          \<and> (\<exists>b<hp_next h'. pk_data p = Pointer (Some b) 0) \<and> Source_rest e (h', s') = ws
          \<and> \<not> PcapPacketSource_isDone s' \<and> ps_done_calls s' = ps_done_calls s"
    using readNextPacket_outcome [OF assms, of e] unfolding next_outcome_def by blast
  show thesis
  proof (cases "Source_rest e (h, s)")
    case Nil
    with out p show ?thesis by (intro that [of None h' s']) (auto simp: Source_next_eq)
  next
    case (Cons w ws)
    with out p show ?thesis by (intro that [of "Some w" h' s']) (auto simp: Source_next_eq)
  qed
qed

text \<open>The callback is called once, by the read that finds no packet.\<close>

lemma read_until_done_calls:
  assumes "Source_ok h s"
  shows "\<exists>h' s'. read_until (\<lambda>x. PcapPacketSource_isDone (snd x)) (Source_next e) (h, s)
      = Some (Source_rest e (h, s), (h', s')) \<and> PcapPacketSource_isDone s'
    \<and> ps_done_calls s' = ps_done_calls s
        + (if ps_doneCallback s \<and> \<not> PcapPacketSource_isDone s then 1 else 0)"
  using assms
proof (induction "Source_rest e (h, s)" arbitrary: h s)
  case Nil
  let ?d = "\<lambda>x :: heap \<times> PcapPacketSource. PcapPacketSource_isDone (snd x)"
  obtain v h' s' where "Source_next e (h, s) = Some (v, (h', s'))"
    "case Source_rest e (h, s) of
        [] \<Rightarrow> v = None \<and> PcapPacketSource_isDone s'
          \<and> ps_done_calls s' = ps_done_calls s + (if ps_doneCallback s then 1 else 0)
      | w # ws \<Rightarrow> v = Some w \<and> Source_rest e (h', s') = ws \<and> \<not> PcapPacketSource_isDone s'
          \<and> ps_done_calls s' = ps_done_calls s"
    using Source_next_outcome [OF Nil(2)] by metis
  with Nil(1) [symmetric] show ?case
    by (simp add: read_until.simps [of ?d _ "(h, s)"] read_until.simps [of ?d _ "(h', s')"])
next
  case (Cons w ws)
  let ?d = "\<lambda>x :: heap \<times> PcapPacketSource. PcapPacketSource_isDone (snd x)"
  obtain v h' s' where s': "Source_next e (h, s) = Some (v, (h', s'))" "Source_ok h' s'"
    "ps_doneCallback s' = ps_doneCallback s"
    "case Source_rest e (h, s) of
        [] \<Rightarrow> v = None \<and> PcapPacketSource_isDone s'
          \<and> ps_done_calls s' = ps_done_calls s + (if ps_doneCallback s then 1 else 0)
      | w # ws \<Rightarrow> v = Some w \<and> Source_rest e (h', s') = ws \<and> \<not> PcapPacketSource_isDone s'
          \<and> ps_done_calls s' = ps_done_calls s"
    using Source_next_outcome [OF Cons.prems] by metis
  have "\<not> PcapPacketSource_isDone s"
    using source.finished_rest [of "(h, s)" e] Cons.prems Cons.hyps(2) by auto
  with Cons.hyps(1) [OF _ s'(2)] s'(1,3,4) Cons.hyps(2) [symmetric] show ?case
    by (auto simp: read_until.simps [of ?d _ "(h, s)"])
qed

lemma kmerge_head [simp]: "kmerge ((v # vs) # Q) \<noteq> []"
  by simp

lemma isDone_initial:
  assumes "ctx_reader (ps_current s) = None"
  shows "PcapPacketSource_isDone s \<longleftrightarrow> Source_rest e (h, s) = []"
  using assms
  by (cases "ps_queue s")
    (simp_all add: PcapPacketSource_isDone_def Source_rest_def current_lane_def Source_lanes_def
      entry_lane_def)

lemma source_program_outcome:
  assumes "heap_ok h" and "\<forall>name\<in>set names. opens pf name"
  shows "\<exists>h' s'. source_program e pf h callback names
      = Some (Inr (merge_lanes (map (file_packets e pf) names), h', s'))
    \<and> PcapPacketSource_isDone s'
    \<and> ps_done_calls s'
        = (if callback \<and> merge_lanes (map (file_packets e pf) names) \<noteq> [] then 1 else 0)"
proof -
  let ?s = "PcapPacketSource_setDoneCallback PcapPacketSource_default callback :: PcapPacketSource"
  have ok: "Source_ok h ?s"
    using Source_default_ok [OF assms(1)]
    by (simp add: Source_ok_def current_ok_def PcapPacketSource_setDoneCallback_def)
  have s0: "Source_lanes e h ?s = []" "current_lane e ?s = []" "ctx_reader (ps_current ?s) = None"
    "ps_doneCallback ?s = callback" "ps_done_calls ?s = 0"
    by (simp_all add: PcapPacketSource_setDoneCallback_def Source_lanes_def current_lane_def
        PcapPacketSource_default_def Context_default_def)
  obtain s' h' where s': "add_files e pf h ?s names = Some (Inr (s', h'))" "Source_ok h' s'"
    "Source_lanes e h' s'
        = foldl (\<lambda>Q l. lane_insert l Q) (Source_lanes e h ?s) (map (file_packets e pf) names)"
    "ps_current s' = ps_current ?s" "current_lane e s' = current_lane e ?s"
    "ps_doneCallback s' = ps_doneCallback ?s" "ps_done_calls s' = ps_done_calls ?s"
    using add_files_outcome [OF ok assms(2), of e] by blast
  have rest: "Source_rest e (h', s') = merge_lanes (map (file_packets e pf) names)"
    using s' s0 by (simp add: Source_rest_def merge_lanes_def)
  with isDone_initial [of s' e h'] s'(4) s0
  have "PcapPacketSource_isDone s' \<longleftrightarrow> merge_lanes (map (file_packets e pf) names) = []" by simp
  with read_until_done_calls [OF s'(2), of e] rest s' s0 show ?thesis
    by (auto simp: source_program_eq)
qed

section \<open>Reachable states\<close>

text \<open>
  The calls a client may make, in any order; a file that throws when it is opened leaves
  the source as it was.
\<close>

inductive source_step ::
  "endian \<Rightarrow> platform \<Rightarrow> heap \<times> PcapPacketSource \<Rightarrow> heap \<times> PcapPacketSource \<Rightarrow> bool"
  for e pf where
  step_add: "PcapPacketSource_addFile e pf h s name = Some (Inr (s', h')) \<Longrightarrow>
      source_step e pf (h, s) (h', s')"
| step_throw: "PcapPacketSource_addFile e pf h s name = Some (Inl exc) \<Longrightarrow>
      source_step e pf (h, s) (h, s)"
| step_read: "PcapPacketSource_readNextPacket e h s = Some (p, s', h') \<Longrightarrow>
      source_step e pf (h, s) (h', s')"
| step_callback: "source_step e pf (h, s) (h, PcapPacketSource_setDoneCallback s callback)"

inductive source_reach ::
  "endian \<Rightarrow> platform \<Rightarrow> heap \<Rightarrow> heap \<times> PcapPacketSource \<Rightarrow> bool" for e pf h0 where
  reach_init: "source_reach e pf h0 (h0, PcapPacketSource_default)"
| reach_step: "source_reach e pf h0 x \<Longrightarrow> source_step e pf x y \<Longrightarrow> source_reach e pf h0 y"

inductive_cases source_stepE: "source_step e pf (h, s) y"

lemma Source_ok_setDoneCallback:
  "Source_ok h s \<Longrightarrow> Source_ok h (PcapPacketSource_setDoneCallback s callback)"
  by (simp add: Source_ok_def current_ok_def PcapPacketSource_setDoneCallback_def)

lemma addFile_cases:
  assumes "Source_ok h s"
  obtains exc where "PcapPacketSource_addFile e pf h s name = Some (Inl exc)"
  | s' h' where "PcapPacketSource_addFile e pf h s name = Some (Inr (s', h'))" "Source_ok h' s'"
proof (cases "opens pf name")
  case True
  with addFile_opens [OF assms] that(2) show thesis unfolding add_outcome_def by metis
next
  case False
  with addFile_throws that(1) show thesis by metis
qed

lemma Source_ok_add:
  assumes "Source_ok h s" and "PcapPacketSource_addFile e pf h s name = Some (Inr (s', h'))"
  shows "Source_ok h' s'"
  using assms(2) by (cases rule: addFile_cases [OF assms(1), of e pf name]) auto

lemma addFile_defined: "Source_ok h s \<Longrightarrow> PcapPacketSource_addFile e pf h s name \<noteq> None"
  by (rule addFile_cases [of h s e pf name]) auto

lemma Source_ok_read:
  "Source_ok h s \<Longrightarrow> PcapPacketSource_readNextPacket e h s = Some (p, s', h') \<Longrightarrow> Source_ok h' s'"
  using readNextPacket_outcome [of h s e] by (auto simp: next_outcome_def)

lemma readNextPacket_defined: "Source_ok h s \<Longrightarrow> PcapPacketSource_readNextPacket e h s \<noteq> None"
  using readNextPacket_outcome [of h s e] by (auto simp: next_outcome_def)

lemma source_step_ok: "source_step e pf x y \<Longrightarrow> Source_ok (fst x) (snd x) \<Longrightarrow> Source_ok (fst y) (snd y)"
  by (cases x) (auto elim!: source_stepE intro: Source_ok_add Source_ok_read Source_ok_setDoneCallback)

lemma source_reach_ok: "source_reach e pf h0 x \<Longrightarrow> heap_ok h0 \<Longrightarrow> Source_ok (fst x) (snd x)"
  by (induction rule: source_reach.induct) (auto intro: Source_default_ok source_step_ok)

section \<open>Properties of the source\<close>

text \<open>Two captures for the instances below.\<close>

definition sample_records2 :: "(PacketHeader \<times> u8 list) list" where
  "sample_records2 = [(\<lparr>ph_ts_sec = 8, ph_ts_usec = 0, ph_caplen = 1, ph_len = 1\<rparr>, [9])]"

definition sample_platform2 :: "endian \<Rightarrow> platform" where
  "sample_platform2 e = plain_platform
     [''a.pcap'' \<mapsto> capture_bytes e sample_header sample_records,
      ''b.pcap'' \<mapsto> capture_bytes e sample_header sample_records2]"

definition sample_merged :: "captured list" where
  "sample_merged =
     [Captured \<lparr>tv_sec = 7, tv_nsec = 5000\<rparr> 60 [1, 2, 3],
      Captured \<lparr>tv_sec = 8, tv_nsec = 0\<rparr> 1 [9],
      Captured \<lparr>tv_sec = 9, tv_nsec = 6000\<rparr> 0 []]"

lemma opens_plain: "plain_name name \<Longrightarrow> opens pf name"
  by (metis FileReader_open_plain opens_def sum.simps(6))

lemma file_packets_plain:
  "plain_name name \<Longrightarrow> file_packets e pf name
     = pcap_file e (case pf_files pf name of None \<Rightarrow> [] | Some bs \<Rightarrow> bs)"
  by (metis FileReader_open_plain file_packets_def sum.simps(6))

lemma sample_packets:
  "file_packets e (sample_platform2 e) ''a.pcap'' = [sample_merged ! 0, sample_merged ! 2]"
  "file_packets e (sample_platform2 e) ''b.pcap'' = [sample_merged ! 1]"
proof -
  have ok: "\<forall>x\<in>set sample_records2. record_ok (unat (fh_snaplen sample_header)) x"
    by (simp add: sample_records2_def record_ok_def sample_header_def)
  show "file_packets e (sample_platform2 e) ''a.pcap'' = [sample_merged ! 0, sample_merged ! 2]"
    using pcap_file_capture [OF sample_ok, of e]
    by (simp add: file_packets_plain sample_platform2_def plain_platform_def sample_records_def
        sample_header_def record_captured_def record_value_def header_tick_def
        sample_merged_def)
  show "file_packets e (sample_platform2 e) ''b.pcap'' = [sample_merged ! 1]"
    using pcap_file_capture [OF sample_ok(1) ok, of e]
    by (simp add: file_packets_plain sample_platform2_def plain_platform_def sample_records2_def
        sample_header_def record_captured_def record_value_def header_tick_def
        sample_merged_def)
qed

lemma sample_merge:
  "merge_lanes (map (file_packets e (sample_platform2 e)) [''a.pcap'', ''b.pcap'']) = sample_merged"
proof -
  have keys: "cap_key (sample_merged ! 0) = 7000005000" "cap_key (sample_merged ! 1) = 8000000000"
    "cap_key (sample_merged ! 2) = 9000006000"
    by (simp_all add: sample_merged_def cap_key_def makeUnixTimeNs_def)
  have "sample_merged = [sample_merged ! 0, sample_merged ! 1, sample_merged ! 2]"
    by (simp add: sample_merged_def)
  then show ?thesis
    by (simp add: merge_lanes_def sample_packets keys del: One_nat_def)
qed

lemma sample_opens: "\<forall>name\<in>set [''a.pcap'', ''b.pcap'']. opens (sample_platform2 e) name"
  by (simp add: opens_plain)

text \<open>
  C1. The program \<open>examples/packet_source.cpp\<close>, for any file contents: the loop
  \<open>while (!isDone())\<close> ends without undefined behaviour and has read the merge of the files
  by capture time; the source is then done, and a done callback has been called exactly
  once, or not at all when there was no packet.
\<close>

theorem packet_source_merges_files:
  assumes "heap_ok h" and "\<forall>name\<in>set names. opens pf name"
  shows "\<exists>h' s'. source_program e pf h callback names
      = Some (Inr (merge_lanes (map (file_packets e pf) names), h', s'))
    \<and> PcapPacketSource_isDone s'
    \<and> ps_done_calls s'
        = (if callback \<and> merge_lanes (map (file_packets e pf) names) \<noteq> [] then 1 else 0)"
  using source_program_outcome [OF assms] .

theorem packet_source_merges_files_witness:
  "\<exists>h' s'. source_program Little (sample_platform2 Little) empty_heap True [''a.pcap'', ''b.pcap'']
      = Some (Inr (sample_merged, h', s')) \<and> PcapPacketSource_isDone s' \<and> ps_done_calls s' = 1"
  using packet_source_merges_files [OF empty_heap_ok sample_opens, of Little Little True]
  unfolding sample_merge by (auto simp: sample_merged_def)

text \<open>
  C3. The packets of several captures come out in the order of their times, if each file
  is in this order and no fraction of a time exceeds a second.
\<close>

theorem packet_source_time_order:
  assumes "heap_ok h" and "\<forall>name\<in>set names. opens pf name"
    and "\<forall>name\<in>set names. sorted (map cap_time (file_packets e pf name))"
    and "\<forall>name\<in>set names. \<forall>v\<in>set (file_packets e pf name). unat (tv_nsec (cap_time v)) < 1000000000"
  shows "\<exists>out h' s'. source_program e pf h callback names = Some (Inr (out, h', s'))
    \<and> sorted (map cap_time out)"
proof -
  let ?out = "merge_lanes (map (file_packets e pf) names)"
  have valid: "time_valid (cap_time v)" if "name \<in> set names" "v \<in> set (file_packets e pf name)" for name v
    using that assms(4) pcap_file_seconds
    by (auto simp: time_valid_def file_packets_def split: sum.splits)
  have "sorted (map cap_key (file_packets e pf name))" if "name \<in> set names" for name
    using that assms(3) valid sorted_cap_key_iff by blast
  then have "sorted (map cap_key ?out)"
    by (intro sorted_merge_lanes) (auto simp: lane_sorted_def)
  moreover have "set ?out = (\<Union>name\<in>set names. set (file_packets e pf name))"
    using arg_cong [OF mset_merge_lanes [of "map (file_packets e pf) names"], of set_mset] by simp
  ultimately have "sorted (map cap_time ?out)"
    using valid sorted_cap_key_iff [of ?out] by blast
  with source_program_outcome [OF assms(1,2), of e callback] show ?thesis by blast
qed

theorem packet_source_time_order_witness:
  "\<exists>out h' s'. source_program Big (sample_platform2 Big) empty_heap False [''a.pcap'', ''b.pcap'']
     = Some (Inr (out, h', s')) \<and> sorted (map cap_time out)"
  by (rule packet_source_time_order [OF empty_heap_ok sample_opens])
    (simp_all add: sample_packets sample_merged_def timespec_le_iff)

text \<open>
  C5. No packet is lost, duplicated or invented by the merge, in order or not: the packets
  read are those of the files, each as often as it occurs in them, and each file's packets
  come in the order of the file.
\<close>

theorem packet_source_complete:
  assumes "heap_ok h" and "\<forall>name\<in>set names. opens pf name"
  shows "\<exists>out h' s'. source_program e pf h callback names = Some (Inr (out, h', s'))
    \<and> mset out = (\<Sum>name\<leftarrow>names. mset (file_packets e pf name))
    \<and> (\<forall>name\<in>set names. subseq (file_packets e pf name) out)"
proof -
  have "mset (merge_lanes (map (file_packets e pf) names)) = (\<Sum>name\<leftarrow>names. mset (file_packets e pf name))"
    by (simp add: mset_merge_lanes mset_concat comp_def)
  with source_program_outcome [OF assms, of e callback] show ?thesis
    by (auto intro!: subseq_merge_lanes)
qed

theorem packet_source_complete_witness:
  "\<exists>out h' s'. source_program Little (sample_platform2 Little) empty_heap False [''a.pcap'', ''b.pcap'']
      = Some (Inr (out, h', s'))
    \<and> mset out = mset sample_merged
    \<and> subseq [sample_merged ! 0, sample_merged ! 2] out"
  using packet_source_complete [OF empty_heap_ok sample_opens, of Little Little False]
  by (fastforce simp: sample_packets sample_merged_def add_mset_commute)

lemma add_files_throws:
  assumes "Source_ok h s" and "\<not> (\<forall>name\<in>set names. opens pf name)"
  shows "\<exists>x. add_files e pf h s names = Some (Inl x)"
  using assms
proof (induction names arbitrary: h s)
  case (Cons name names)
  show ?case
  proof (cases "opens pf name")
    case True
    obtain s' h' where add: "PcapPacketSource_addFile e pf h s name = Some (Inr (s', h'))" "Source_ok h' s'"
      using addFile_opens [OF Cons.prems(1) True, of e] unfolding add_outcome_def by metis
    with Cons.IH [OF add(2)] Cons.prems(2) True show ?thesis by auto
  qed (use addFile_throws [of pf name e h s] in auto)
qed simp





text \<open>
  C23. The packet \<open>readNextPacket\<close> returns keeps its bytes while more files are added: a
  new file is read into a buffer of its own.
\<close>

theorem packet_stays_valid:
  assumes "Source_ok h s" and "PcapPacketSource_readNextPacket e h s = Some (p, s', h')"
    and "Packet_bool p" and "\<forall>name\<in>set names. opens pf name"
  shows "\<exists>v s'' h''. packet_view h' p = Some v
    \<and> add_files e pf h' s' names = Some (Inr (s'', h'')) \<and> packet_view h'' p = Some v"
proof -
  have s': "Source_ok h' s'" using Source_ok_read [OF assms(1,2)] .
  have out: "next_outcome e s (Source_rest e (h, s)) (Some (p, s', h'))"
    using readNextPacket_outcome [OF assms(1), of e] assms(2) by simp
  with assms(3) obtain v ws where "Source_rest e (h, s) = v # ws"
    by (cases "Source_rest e (h, s)") (auto simp: next_outcome_def)
  with out obtain b where b: "packet_view h' p = Some v" "b < hp_next h'" "pk_data p = Pointer (Some b) 0"
    by (auto simp: next_outcome_def)
  obtain s'' h'' where "add_files e pf h' s' names = Some (Inr (s'', h''))"
    "\<forall>b<hp_next h'. hp_mem h'' b = hp_mem h' b"
    using add_files_outcome [OF s' assms(4), of e] by blast
  with b packet_view_frame [of h'' b h' p] show ?thesis by auto
qed

text \<open>
  \<open>isDone\<close> is false until a read has come back empty: after the last packet the source
  has nothing left, yet \<open>isDone\<close> gives false, and the next call returns an empty packet,
  makes it true and calls the done callback.
\<close>

theorem isDone_after_empty_read:
  assumes "Source_ok h s" and "Source_rest e (h, s) = [v]"
  shows "\<exists>p s1 h1 p' s2 h2. PcapPacketSource_readNextPacket e h s = Some (p, s1, h1)
    \<and> packet_view h1 p = Some v \<and> \<not> PcapPacketSource_isDone s1
    \<and> PcapPacketSource_readNextPacket e h1 s1 = Some (p', s2, h2)
    \<and> \<not> Packet_bool p' \<and> PcapPacketSource_isDone s2
    \<and> ps_done_calls s2 = ps_done_calls s + (if ps_doneCallback s then 1 else 0)"
proof -
  obtain p s1 h1 where 1: "PcapPacketSource_readNextPacket e h s = Some (p, s1, h1)"
    "Source_ok h1 s1" "packet_view h1 p = Some v" "Source_rest e (h1, s1) = []"
    "\<not> PcapPacketSource_isDone s1" "ps_doneCallback s1 = ps_doneCallback s"
    "ps_done_calls s1 = ps_done_calls s"
    using readNextPacket_outcome [OF assms(1), of e] assms(2) by (auto simp: next_outcome_def)
  with readNextPacket_outcome [OF 1(2), of e] show ?thesis by (auto simp: next_outcome_def)
qed

text \<open>A source that has one captured file in its queue.\<close>

lemma sample_source:
  obtains h s where "add_files Little (sample_platform2 Little) empty_heap PcapPacketSource_default
      [''b.pcap''] = Some (Inr (s, h))"
    and "Source_ok h s" and "Source_rest Little (h, s) = [sample_merged ! 1]"
proof -
  have "\<forall>name\<in>set [''b.pcap'']. opens (sample_platform2 Little) name" by (simp add: opens_plain)
  from add_files_outcome [OF Source_default_ok [OF empty_heap_ok] this, of Little]
  obtain s h where "add_files Little (sample_platform2 Little) empty_heap PcapPacketSource_default
      [''b.pcap''] = Some (Inr (s, h))" "Source_ok h s"
    "Source_lanes Little h s = [[sample_merged ! 1]]"
    "current_lane Little s = current_lane Little PcapPacketSource_default"
    by (auto simp: sample_packets)
  moreover have "current_lane Little PcapPacketSource_default = []"
    by (simp add: current_lane_def)
  ultimately show thesis by (intro that) (auto simp: Source_rest_def)
qed

theorem packet_stays_valid_witness:
  "\<exists>h s p s' h' v s'' h''. PcapPacketSource_readNextPacket Little h s = Some (p, s', h')
     \<and> packet_view h' p = Some v \<and> packet_view h'' p = Some v
     \<and> add_files Little (sample_platform2 Little) h' s' [''a.pcap'', ''b.pcap''] = Some (Inr (s'', h''))"
proof -
  obtain h s where s: "Source_ok h s" "Source_rest Little (h, s) = [sample_merged ! 1]"
    using sample_source by metis
  with readNextPacket_outcome [OF s(1), of Little] obtain p s' h'
    where p: "PcapPacketSource_readNextPacket Little h s = Some (p, s', h')" "Packet_bool p"
    by (auto simp: next_outcome_def)
  from packet_stays_valid [OF s(1) p sample_opens] p show ?thesis by blast
qed

theorem isDone_after_empty_read_witness:
  "\<exists>h s p s1 h1. PcapPacketSource_readNextPacket Little h s = Some (p, s1, h1)
     \<and> packet_view h1 p = Some (sample_merged ! 1) \<and> \<not> PcapPacketSource_isDone s1"
proof -
  obtain h s where "Source_ok h s" "Source_rest Little (h, s) = [sample_merged ! 1]"
    using sample_source by metis
  from isDone_after_empty_read [OF this] show ?thesis by blast
qed

end
