(* ===== verification/Nb_Endpoint.thy ===== *)
theory Nb_Endpoint
  imports Nb_ByteOrder Nb_Error
begin

text \<open>
  The interface of a socket endpoint, \<open>netbox/details/concepts.h\<close> and the members both
  endpoint classes have: an address and a port that are set and read back, the raw
  socket address with its size, and the size check the kernel's answer goes through.
\<close>

section \<open>Platform constants\<close>

definition AF_UNSPEC :: int where "AF_UNSPEC = 0"
definition AF_INET :: int where "AF_INET = 2"
definition AF_INET6 :: int where "AF_INET6 = 10"

section \<open>The endpoint interface\<close>

text \<open>
  \<open>kept\<close> is the part of an address the endpoint's storage keeps (all of an IPv4
  address; an IPv6 address without its scope). \<open>default\<close> is the endpoint of the default
  constructor, \<open>raw\<close> the bytes \<open>data()\<close> points to.
\<close>

locale endpoint_interface =
  fixes default :: 'ep
    and make :: "'a \<Rightarrow> u16 \<Rightarrow> 'ep"
    and address :: "'ep \<Rightarrow> 'a"
    and set_address :: "'ep \<Rightarrow> 'a \<Rightarrow> 'ep"
    and port :: "'ep \<Rightarrow> u16"
    and set_port :: "'ep \<Rightarrow> u16 \<Rightarrow> 'ep"
    and kept :: "'a \<Rightarrow> 'a"
    and addr_ok :: "'a \<Rightarrow> bool"
    and ep_ok :: "'ep \<Rightarrow> bool"
    and ep_eq :: "'ep \<Rightarrow> 'ep \<Rightarrow> bool"
    and raw :: "'ep \<Rightarrow> u8 list"
    and raw_size :: nat
  assumes make: "make a p = set_port (set_address default a) p"
    and address_set: "addr_ok a \<Longrightarrow> address (set_address ep a) = kept a"
    and port_set: "port (set_port ep p) = p"
    and port_set_address: "port (set_address ep a) = port ep"
    and address_set_port: "address (set_port ep p) = address ep"
    and ok_default: "ep_ok default"
    and ok_set_address: "ep_ok ep \<Longrightarrow> addr_ok a \<Longrightarrow> ep_ok (set_address ep a)"
    and ok_set_port: "ep_ok ep \<Longrightarrow> ep_ok (set_port ep p)"
    and eq_iff: "ep_ok ep1 \<Longrightarrow> ep_ok ep2 \<Longrightarrow>
        ep_eq ep1 ep2 \<longleftrightarrow> address ep1 = address ep2 \<and> port ep1 = port ep2"
    and raw_length: "ep_ok ep \<Longrightarrow> length (raw ep) = raw_size"
begin

lemma make_address: "addr_ok a \<Longrightarrow> address (make a p) = kept a"
  by (simp add: make address_set address_set_port)

lemma make_port: "port (make a p) = p"
  by (simp add: make port_set)

lemma make_ok: "addr_ok a \<Longrightarrow> ep_ok (make a p)"
  by (simp add: make ok_default ok_set_address ok_set_port)

lemma make_eq_iff:
  "addr_ok a \<Longrightarrow> addr_ok b \<Longrightarrow> ep_eq (make a p) (make b q) \<longleftrightarrow> kept a = kept b \<and> p = q"
  by (simp add: eq_iff make_ok make_address make_port)

lemma setters_commute:
  assumes "ep_ok ep" and "addr_ok a"
  shows "ep_eq (set_port (set_address ep a) p) (set_address (set_port ep p) a)"
  using assms
  by (simp add: eq_iff ok_set_port ok_set_address address_set address_set_port port_set
      port_set_address)

lemma make_raw_length: "addr_ok a \<Longrightarrow> length (raw (make a p)) = raw_size"
  by (simp add: raw_length make_ok)

end

section \<open>The storage of an endpoint\<close>

text \<open>
  What the operations that hand the storage to the kernel rely on: it has a fixed size, its
  bytes determine the endpoint and can be any, and \<open>resize\<close> accepts just this size.
\<close>

locale endpoint_storage =
  fixes raw :: "'ep \<Rightarrow> u8 list"
    and of_raw :: "u8 list \<Rightarrow> 'ep"
    and resize :: "u32 \<Rightarrow> exn + unit"
    and ep_ok :: "'ep \<Rightarrow> bool"
    and raw_size :: nat
  assumes size_fits: "raw_size < 2 ^ 32"
    and raw_of_raw: "length bs = raw_size \<Longrightarrow> raw (of_raw bs) = bs"
    and of_raw_raw: "ep_ok ep \<Longrightarrow> of_raw (raw ep) = ep"
    and storage_length: "ep_ok ep \<Longrightarrow> length (raw ep) = raw_size"
    and resize_same: "unat n = raw_size \<Longrightarrow> resize n = Inr ()"
    and resize_other: "unat n \<noteq> raw_size \<Longrightarrow> \<exists>t. resize n = Inl (AddressError t)"

end
