(* ===== verification/Nb_IPv4.thy ===== *)
theory Nb_IPv4
  imports Nb_Endpoint
begin

text \<open>
  \<open>netbox/details/ipv4/Address.h\<close>, \<open>netbox/details/ipv4/Endpoint.h\<close> and
  \<open>netbox/IPv4.h\<close>. An address holds \<open>in_addr\<close>, a 32 bit word in network byte order; an
  endpoint holds \<open>sockaddr_in\<close>. \<open>inet_pton\<close> and \<open>inet_ntop\<close> are arguments.
\<close>

unbundle bit_operations_syntax

section \<open>Address\<close>

record IPv4_Address =
  s_addr :: u32

definition IPv4_Address_default :: IPv4_Address where
  "IPv4_Address_default = \<lparr>s_addr = 0\<rparr>"

definition IPv4_Address_fromBytes :: "endian \<Rightarrow> u8 list \<Rightarrow> IPv4_Address" where
  "IPv4_Address_fromBytes e bytes = \<lparr>s_addr = word_of_bytes e bytes\<rparr>"

definition IPv4_Address_fromUint :: "endian \<Rightarrow> u32 \<Rightarrow> IPv4_Address" where
  "IPv4_Address_fromUint e addr = \<lparr>s_addr = hostToNetwork32 e addr\<rparr>"

definition IPv4_Address_toBytes :: "endian \<Rightarrow> IPv4_Address \<Rightarrow> u8 list" where
  "IPv4_Address_toBytes e a = bytes_of_word e 4 (s_addr a)"

definition IPv4_Address_toUint :: "endian \<Rightarrow> IPv4_Address \<Rightarrow> u32" where
  "IPv4_Address_toUint e a = networkToHost32 e (s_addr a)"

definition IPv4_Address_eq :: "IPv4_Address \<Rightarrow> IPv4_Address \<Rightarrow> bool" where
  "IPv4_Address_eq a1 a2 \<longleftrightarrow> s_addr a1 = s_addr a2"

definition IPv4_Address_neq :: "IPv4_Address \<Rightarrow> IPv4_Address \<Rightarrow> bool" where
  "IPv4_Address_neq a1 a2 \<longleftrightarrow> s_addr a1 \<noteq> s_addr a2"

definition IPv4_Address_any :: IPv4_Address where
  "IPv4_Address_any = IPv4_Address_default"

definition IPv4_Address_loopback :: "endian \<Rightarrow> IPv4_Address" where
  "IPv4_Address_loopback e = IPv4_Address_fromUint e 0x7F000001"

definition IPv4_Address_broadcast :: "endian \<Rightarrow> IPv4_Address" where
  "IPv4_Address_broadcast e = IPv4_Address_fromUint e 0xFFFFFFFF"

section \<open>Endpoint\<close>

record IPv4_Endpoint =
  sin_family :: u16
  sin_port :: u16
  sin_addr :: u32
  sin_zero :: "u8 list"

definition IPv4_Endpoint_default :: IPv4_Endpoint where
  "IPv4_Endpoint_default =
     \<lparr>sin_family = of_int AF_INET, sin_port = 0, sin_addr = 0, sin_zero = replicate 8 0\<rparr>"

text \<open>The constructor from a \<open>sockaddr_in\<close>: an endpoint is one.\<close>

definition IPv4_Endpoint_fromStorage :: "IPv4_Endpoint \<Rightarrow> IPv4_Endpoint" where
  "IPv4_Endpoint_fromStorage storage = storage"

definition IPv4_Endpoint_address :: "endian \<Rightarrow> IPv4_Endpoint \<Rightarrow> IPv4_Address" where
  "IPv4_Endpoint_address e ep = IPv4_Address_fromUint e (networkToHost32 e (sin_addr ep))"

definition IPv4_Endpoint_setAddress :: "endian \<Rightarrow> IPv4_Endpoint \<Rightarrow> IPv4_Address \<Rightarrow> IPv4_Endpoint" where
  "IPv4_Endpoint_setAddress e ep a =
     ep\<lparr>sin_addr := hostToNetwork32 e (IPv4_Address_toUint e a)\<rparr>"

definition IPv4_Endpoint_port :: "endian \<Rightarrow> IPv4_Endpoint \<Rightarrow> u16" where
  "IPv4_Endpoint_port e ep = networkToHost16 e (sin_port ep)"

definition IPv4_Endpoint_setPort :: "endian \<Rightarrow> IPv4_Endpoint \<Rightarrow> u16 \<Rightarrow> IPv4_Endpoint" where
  "IPv4_Endpoint_setPort e ep p = ep\<lparr>sin_port := hostToNetwork16 e p\<rparr>"

definition IPv4_Endpoint_make :: "endian \<Rightarrow> IPv4_Address \<Rightarrow> u16 \<Rightarrow> IPv4_Endpoint" where
  "IPv4_Endpoint_make e a p =
     IPv4_Endpoint_setPort e (IPv4_Endpoint_setAddress e IPv4_Endpoint_default a) p"

text \<open>The bytes of the \<open>sockaddr\<close> that \<open>data()\<close> points to, and their number.\<close>

definition IPv4_Endpoint_data :: "endian \<Rightarrow> IPv4_Endpoint \<Rightarrow> u8 list" where
  "IPv4_Endpoint_data e ep =
     bytes_of_word e 2 (sin_family ep) @ bytes_of_word e 2 (sin_port ep)
       @ bytes_of_word e 4 (sin_addr ep) @ sin_zero ep"

text \<open>The endpoint whose storage holds the given bytes.\<close>

definition IPv4_Endpoint_of_data :: "endian \<Rightarrow> u8 list \<Rightarrow> IPv4_Endpoint" where
  "IPv4_Endpoint_of_data e bs =
     \<lparr>sin_family = word_of_bytes e (take 2 bs), sin_port = word_of_bytes e (take 2 (drop 2 bs)),
      sin_addr = word_of_bytes e (take 4 (drop 4 bs)), sin_zero = drop 8 bs\<rparr>"

definition IPv4_Endpoint_size :: u32 where
  "IPv4_Endpoint_size = 16"

definition IPv4_Endpoint_resize :: "u32 \<Rightarrow> exn + unit" where
  "IPv4_Endpoint_resize sz =
     (if sz \<noteq> 16 then throwEx AddressError ''IPv4 resize'' else Inr ())"

definition IPv4_Endpoint_eq :: "endian \<Rightarrow> IPv4_Endpoint \<Rightarrow> IPv4_Endpoint \<Rightarrow> bool" where
  "IPv4_Endpoint_eq e ep1 ep2 \<longleftrightarrow>
     IPv4_Address_eq (IPv4_Endpoint_address e ep1) (IPv4_Endpoint_address e ep2)
       \<and> IPv4_Endpoint_port e ep1 = IPv4_Endpoint_port e ep2"

definition IPv4_Endpoint_neq :: "endian \<Rightarrow> IPv4_Endpoint \<Rightarrow> IPv4_Endpoint \<Rightarrow> bool" where
  "IPv4_Endpoint_neq e ep1 ep2 \<longleftrightarrow> \<not> IPv4_Endpoint_eq e ep1 ep2"

section \<open>Conversions and classification\<close>

text \<open>
  \<open>pton af s\<close> is the return value of \<open>inet_pton\<close> and the bytes it stores; \<open>ntop af bs n\<close>
  the string \<open>inet_ntop\<close> writes into a buffer of \<open>n\<close> bytes, None for a null result.
\<close>

definition IPv4_addressFromString ::
  "(int \<Rightarrow> string \<Rightarrow> int \<times> u8 list) \<Rightarrow> endian \<Rightarrow> string \<Rightarrow> exn + IPv4_Address" where
  "IPv4_addressFromString pton e str =
     (case pton AF_INET str of (rc, bytes) \<Rightarrow>
        if rc \<le> 0 then throwEx AddressError ''IPv4:;Address from string''
        else Inr (IPv4_Address_fromBytes e bytes))"

definition IPv4_addressFromString_view ::
  "(int \<Rightarrow> string \<Rightarrow> int \<times> u8 list) \<Rightarrow> endian \<Rightarrow> string \<Rightarrow> exn + IPv4_Address" where
  "IPv4_addressFromString_view pton e str = IPv4_addressFromString pton e (c_str str)"

definition IPv4_isLoopback :: "endian \<Rightarrow> IPv4_Address \<Rightarrow> bool" where
  "IPv4_isLoopback e a \<longleftrightarrow> IPv4_Address_toUint e a AND 0xFF000000 = 0x7F000000"

definition IPv4_isMulticast :: "endian \<Rightarrow> IPv4_Address \<Rightarrow> bool" where
  "IPv4_isMulticast e a \<longleftrightarrow> IPv4_Address_toUint e a AND 0xF0000000 = 0xE0000000"

definition IPv4_toString ::
  "(int \<Rightarrow> u8 list \<Rightarrow> nat \<Rightarrow> string option) \<Rightarrow> endian \<Rightarrow> IPv4_Address \<Rightarrow> string" where
  "IPv4_toString ntop e a =
     (case ntop AF_INET (IPv4_Address_toBytes e a) 16 of None \<Rightarrow> '''' | Some s \<Rightarrow> c_str s)"

section \<open>Lemmas\<close>

lemmas ipv4_address_defs =
  IPv4_Address_fromBytes_def IPv4_Address_fromUint_def IPv4_Address_toBytes_def
  IPv4_Address_toUint_def

lemma IPv4_Address_eq_iff [simp]: "IPv4_Address_eq a b \<longleftrightarrow> a = b"
  by (cases a; cases b) (simp add: IPv4_Address_eq_def)

lemma IPv4_fromUint_ntoh [simp]: "IPv4_Address_fromUint e (networkToHost32 e w) = \<lparr>s_addr = w\<rparr>"
  by (simp add: IPv4_Address_fromUint_def byte_simps)

lemma IPv4_toBytes_length [simp]: "length (IPv4_Address_toBytes e a) = 4"
  by (simp add: IPv4_Address_toBytes_def)

lemma IPv4_toBytes_fromBytes:
  "length bs = 4 \<Longrightarrow> IPv4_Address_toBytes e (IPv4_Address_fromBytes e bs) = bs"
  by (simp add: ipv4_address_defs byte_simps)

lemma IPv4_fromBytes_toBytes: "IPv4_Address_fromBytes e (IPv4_Address_toBytes e a) = a"
  by (simp add: ipv4_address_defs byte_simps)

lemma IPv4_toUint_fromUint: "IPv4_Address_toUint e (IPv4_Address_fromUint e u) = u"
  by (simp add: ipv4_address_defs byte_simps)

lemma IPv4_toUint_fromBytes:
  "length bs = 4 \<Longrightarrow> IPv4_Address_toUint e (IPv4_Address_fromBytes e bs) = word_of_le (rev bs)"
  by (simp add: ipv4_address_defs byte_simps)

interpretation ep4: endpoint_interface
  IPv4_Endpoint_default "IPv4_Endpoint_make e" "IPv4_Endpoint_address e"
  "IPv4_Endpoint_setAddress e" "IPv4_Endpoint_port e" "IPv4_Endpoint_setPort e"
  "\<lambda>a. a" "\<lambda>a. True" "\<lambda>ep. length (sin_zero ep) = 8" "IPv4_Endpoint_eq e"
  "IPv4_Endpoint_data e" "unat IPv4_Endpoint_size" for e
  by unfold_locales
    (auto simp: IPv4_Endpoint_make_def IPv4_Endpoint_address_def IPv4_Endpoint_setAddress_def
      IPv4_Endpoint_port_def IPv4_Endpoint_setPort_def IPv4_Endpoint_default_def
      IPv4_Endpoint_eq_def IPv4_Endpoint_data_def IPv4_Endpoint_size_def
      IPv4_Address_toUint_def byte_simps)

text \<open>Masking out the low bits of a word, on its value.\<close>

lemma unat_push_drop:
  "unat (push_bit n (drop_bit n (w :: u32))) = 2 ^ n * (unat w div 2 ^ n)"
proof -
  have w: "unat w < 2 ^ 32" using unsigned_less [of w, where ?'a = nat] by simp
  have "2 ^ n * (unat w div 2 ^ n) \<le> unat w" by simp
  also note w
  finally have b: "2 ^ n * (unat w div 2 ^ n) < 2 ^ 32" .
  have "unat w div 2 ^ n < 2 ^ 32"
    by (rule le_less_trans [OF div_le_dividend w])
  with b w show ?thesis
    unfolding unsigned_push_bit_eq unsigned_drop_bit_eq
    by (simp add: push_bit_eq_mult drop_bit_eq_div take_bit_nat_eq_self mult.commute)
qed

lemma and_high_byte: "(w :: u32) AND 0xFF000000 = push_bit 24 (drop_bit 24 w)"
proof -
  have "(0xFF000000 :: u32) = push_bit 24 (mask 8)" by (simp add: mask_eq_exp_minus_1)
  then have "w AND 0xFF000000 = w AND push_bit 24 (mask 8)" by simp
  also have "\<dots> = push_bit 24 (drop_bit 24 w)"
    by (rule bit_word_eqI) (auto simp: bit_simps)
  finally show ?thesis .
qed

lemma and_high_nibble: "(w :: u32) AND 0xF0000000 = push_bit 28 (drop_bit 28 w)"
proof -
  have "(0xF0000000 :: u32) = push_bit 28 (mask 4)" by (simp add: mask_eq_exp_minus_1)
  then have "w AND 0xF0000000 = w AND push_bit 28 (mask 4)" by simp
  also have "\<dots> = push_bit 28 (drop_bit 28 w)"
    by (rule bit_word_eqI) (auto simp: bit_simps)
  finally show ?thesis .
qed

lemma isLoopback_iff: "IPv4_isLoopback e a \<longleftrightarrow> unat (IPv4_Address_toUint e a) div 2 ^ 24 = 127"
  unfolding IPv4_isLoopback_def and_high_byte word_unat_eq_iff unat_push_drop by simp

lemma isMulticast_iff: "IPv4_isMulticast e a \<longleftrightarrow> unat (IPv4_Address_toUint e a) div 2 ^ 28 = 14"
  unfolding IPv4_isMulticast_def and_high_nibble word_unat_eq_iff unat_push_drop by simp

lemma unat_toUint_fromBytes:
  "length bs = 4 \<Longrightarrow> unat (IPv4_Address_toUint e (IPv4_Address_fromBytes e bs)) = be_value bs"
  by (simp add: IPv4_toUint_fromBytes unat_word_of_be)

lemma Endpoint_data_of_data:
  assumes "length bs = 16"
  shows "IPv4_Endpoint_data e (IPv4_Endpoint_of_data e bs) = bs"
proof -
  have "take 4 (drop 4 bs) @ drop 8 bs = drop 4 bs"
    using append_take_drop_id [of 4 "drop 4 bs"] by simp
  moreover have "take 2 (drop 2 bs) @ drop 4 bs = drop 2 bs"
    using append_take_drop_id [of 2 "drop 2 bs"] by simp
  ultimately have "take 2 (drop 2 bs) @ take 4 (drop 4 bs) @ drop 8 bs = drop 2 bs" by simp
  then show ?thesis
    using assms
    by (simp add: IPv4_Endpoint_data_def IPv4_Endpoint_of_data_def bytes_of_word_of_bytes)
qed

lemma Endpoint_of_data_data: "IPv4_Endpoint_of_data e (IPv4_Endpoint_data e ep) = ep"
  by (simp add: IPv4_Endpoint_data_def IPv4_Endpoint_of_data_def word_of_bytes_of_word)

lemma Endpoint_of_data_fields:
  assumes "length bs = 16"
  shows "IPv4_Endpoint_address e (IPv4_Endpoint_of_data e bs)
      = IPv4_Address_fromBytes e (take 4 (drop 4 bs))"
    and "IPv4_Endpoint_port e (IPv4_Endpoint_of_data e bs) = word_of_le (rev (take 2 (drop 2 bs)))"
  using assms
  by (simp_all add: IPv4_Endpoint_address_def IPv4_Endpoint_port_def IPv4_Endpoint_of_data_def
      IPv4_Address_fromBytes_def ntoh16_of_bytes)

interpretation st4: endpoint_storage
  "IPv4_Endpoint_data e" "IPv4_Endpoint_of_data e" IPv4_Endpoint_resize
  "\<lambda>ep. length (sin_zero ep) = 8" 16 for e
proof
  show "length (IPv4_Endpoint_data e ep) = 16" if "length (sin_zero ep) = 8" for ep
    using that by (simp add: IPv4_Endpoint_data_def)
qed (simp_all add: Endpoint_data_of_data Endpoint_of_data_data IPv4_Endpoint_resize_def throwEx_def
      word_unat_eq_iff)

section \<open>Properties\<close>

text \<open>
  C35. The conversions of an IPv4 address agree with network byte order on either host:
  an address built from four bytes reads back those bytes and, as an integer, the number
  they denote most significant byte first; and integer and address convert without loss.
\<close>

theorem ipv4_address_conversions:
  assumes "length bs = 4"
  shows "IPv4_Address_toBytes e (IPv4_Address_fromBytes e bs) = bs
    \<and> unat (IPv4_Address_toUint e (IPv4_Address_fromBytes e bs)) = be_value bs
    \<and> IPv4_Address_toUint e (IPv4_Address_fromUint e u) = u
    \<and> IPv4_Address_fromUint e (IPv4_Address_toUint e a) = a"
  using assms
  by (simp add: IPv4_toBytes_fromBytes unat_toUint_fromBytes IPv4_toUint_fromUint)
    (simp add: ipv4_address_defs byte_simps)

lemma ipv4_address_conversions_witness:
  "IPv4_Address_toBytes Little (IPv4_Address_fromBytes Little [192, 168, 0, 1]) = [192, 168, 0, 1]
    \<and> unat (IPv4_Address_toUint Little (IPv4_Address_fromBytes Little [192, 168, 0, 1]))
        = 3232235521"
  using ipv4_address_conversions [of "[192, 168, 0, 1]" Little 0 IPv4_Address_any]
  by (simp add: be_value_4)

text \<open>
  The classification of IPv4 addresses is the one of the first byte, on either host:
  loopback is 127.0.0.0/8 and multicast is 224.0.0.0/4; the loopback, the any and the
  broadcast address are classified accordingly.
\<close>

theorem ipv4_classification:
  "(IPv4_isLoopback e (IPv4_Address_fromBytes e [a, b, c, d]) \<longleftrightarrow> unat a = 127)
    \<and> (IPv4_isMulticast e (IPv4_Address_fromBytes e [a, b, c, d]) \<longleftrightarrow> unat a \<in> {224..239})
    \<and> IPv4_isLoopback e (IPv4_Address_loopback e)
    \<and> IPv4_Address_toBytes e (IPv4_Address_loopback e) = [127, 0, 0, 1]
    \<and> \<not> IPv4_isMulticast e (IPv4_Address_broadcast e)
    \<and> IPv4_Address_toUint e IPv4_Address_any = 0"
proof (intro conjI)
  note bytes = u8_less [of a] u8_less [of b] u8_less [of c] u8_less [of d]
  have v: "unat (IPv4_Address_toUint e (IPv4_Address_fromBytes e [a, b, c, d]))
      = 16777216 * unat a + 65536 * unat b + 256 * unat c + unat d"
    by (simp add: unat_toUint_fromBytes be_value_4)
  show "IPv4_isLoopback e (IPv4_Address_fromBytes e [a, b, c, d]) \<longleftrightarrow> unat a = 127"
    unfolding isLoopback_iff v using bytes by auto
  show "IPv4_isMulticast e (IPv4_Address_fromBytes e [a, b, c, d]) \<longleftrightarrow> unat a \<in> {224..239}"
    unfolding isMulticast_iff v using bytes by auto
  show "IPv4_isLoopback e (IPv4_Address_loopback e)"
    by (simp add: IPv4_isLoopback_def IPv4_Address_loopback_def IPv4_toUint_fromUint)
  show "IPv4_Address_toBytes e (IPv4_Address_loopback e) = [127, 0, 0, 1]"
    by (simp add: IPv4_Address_toBytes_def IPv4_Address_loopback_def IPv4_Address_fromUint_def
        byte_simps bytes_of_le_4)
  show "\<not> IPv4_isMulticast e (IPv4_Address_broadcast e)"
    by (simp add: IPv4_isMulticast_def IPv4_Address_broadcast_def IPv4_toUint_fromUint)
  show "IPv4_Address_toUint e IPv4_Address_any = 0"
    by (cases e) (simp_all add: IPv4_Address_any_def IPv4_Address_default_def
        IPv4_Address_toUint_def networkToHost32_def hostToNetwork32_def bswap32_def)
qed

text \<open>
  An IPv4 endpoint built from an address and a port gives both back, and the
  \<open>sockaddr_in\<close> handed to the kernel holds the family in host order, the port and the
  address in network order and zero padding, in \<open>size()\<close> bytes.
\<close>

theorem ipv4_endpoint_wire_format:
  "IPv4_Endpoint_address e (IPv4_Endpoint_make e a p) = a
    \<and> IPv4_Endpoint_port e (IPv4_Endpoint_make e a p) = p
    \<and> IPv4_Endpoint_data e (IPv4_Endpoint_make e a p) =
        bytes_of_word e 2 (2 :: u16) @ rev (bytes_of_le 2 p) @ IPv4_Address_toBytes e a
          @ replicate 8 0
    \<and> length (IPv4_Endpoint_data e (IPv4_Endpoint_make e a p)) = unat IPv4_Endpoint_size
    \<and> IPv4_Endpoint_resize IPv4_Endpoint_size = Inr ()"
  using ep4.make_address [of e a p] ep4.make_port [of e a p] ep4.make_raw_length [of e a p]
  by (simp add: IPv4_Endpoint_data_def IPv4_Endpoint_make_def IPv4_Endpoint_setAddress_def
      IPv4_Endpoint_setPort_def IPv4_Endpoint_default_def AF_INET_def byte_simps
      IPv4_Address_toBytes_def IPv4_Address_toUint_def IPv4_Endpoint_resize_def
      IPv4_Endpoint_size_def)

text \<open>
  Reading an address from the text it was printed as gives the address back, where
  the C library's \<open>inet_pton\<close> inverts its \<open>inet_ntop\<close> on it; and a text \<open>inet_pton\<close>
  rejects is an \<open>AddressError\<close>.
\<close>

theorem ipv4_text_roundtrip:
  assumes "ntop AF_INET (IPv4_Address_toBytes e a) 16 = Some s" and "CHR 0x00 \<notin> set s"
    and "pton AF_INET s = (1, IPv4_Address_toBytes e a)"
    and "fst (pton AF_INET t) \<le> 0"
  shows "IPv4_addressFromString_view pton e (IPv4_toString ntop e a) = Inr a
    \<and> IPv4_addressFromString pton e t = Inl (AddressError ''IPv4:;Address from string'')"
  using assms
  by (cases "pton AF_INET t")
    (simp add: IPv4_addressFromString_view_def IPv4_toString_def IPv4_addressFromString_def
      c_str_id IPv4_fromBytes_toBytes throwEx_def)

lemma ipv4_text_roundtrip_witness:
  "IPv4_addressFromString_view
      (\<lambda>f s. if s = ''127.0.0.1'' then (1, [127, 0, 0, 1]) else (0, [])) Little
      (IPv4_toString (\<lambda>f bs n. if bs = [127, 0, 0, 1] then Some ''127.0.0.1'' else None) Little
        (IPv4_Address_loopback Little))
    = Inr (IPv4_Address_loopback Little)"
proof -
  have b: "IPv4_Address_toBytes Little (IPv4_Address_loopback Little) = [127, 0, 0, 1]"
    by (simp add: IPv4_Address_toBytes_def IPv4_Address_loopback_def IPv4_Address_fromUint_def
        byte_simps bytes_of_le_4)
  show ?thesis
    using ipv4_text_roundtrip
      [of "\<lambda>f bs n. if bs = [127, 0, 0, 1] then Some ''127.0.0.1'' else None" Little
        "IPv4_Address_loopback Little" "''127.0.0.1''"
        "\<lambda>f s. if s = ''127.0.0.1'' then (1, [127, 0, 0, 1]) else (0, [])" "''x''"]
    by (simp add: b)
qed

end
