(* ===== verification/Nb_Pdu.thy ===== *)
theory Nb_Pdu
  imports Nb_Memory Nb_IPv4
begin

text \<open>
  \<open>netbox/pdu/EthernetII.h\<close>, \<open>netbox/pdu/IPv4.h\<close> and \<open>netbox/pdu/UDP.h\<close>: protocol
  data units read in place from a buffer. A PDU holds a pointer to its header and the
  size of the buffer; its accessors load fields from memory at the offsets of the kernel
  header structs (\<open>ethhdr\<close>, \<open>iphdr\<close>, \<open>udphdr\<close>) the sources include.
\<close>

unbundle bit_operations_syntax

section \<open>The interface of a PDU\<close>

text \<open>
  What the nesting of PDUs relies on: construction checks the size against the header
  size, and the payload is the rest of the buffer. A client that is given a readable
  buffer of the size it names then reads payloads inside that buffer only, and the size
  of the payload does not wrap around.
\<close>

locale pdu_interface =
  fixes make :: "pointer \<Rightarrow> u32 \<Rightarrow> exn + 'p"
    and hdr_size :: u32
    and payload :: "'p \<Rightarrow> pointer"
    and payload_size :: "'p \<Rightarrow> u32"
  assumes make_Inr: "make b n = Inr x \<Longrightarrow>
      hdr_size \<le> n \<and> payload x = ptr_add b (unat hdr_size) \<and> payload_size x = n - hdr_size"
    and make_Inl: "n < hdr_size \<Longrightarrow> \<exists>t. make b n = Inl (PDUError t)"
    and make_ok: "hdr_size \<le> n \<Longrightarrow> \<exists>x. make b n = Inr x"
begin

lemma payload_size_unat: "make b n = Inr x \<Longrightarrow> unat (payload_size x) = unat n - unat hdr_size"
  by (auto dest!: make_Inr simp: unat_sub)

lemma payload_size_le: "make b n = Inr x \<Longrightarrow> unat hdr_size + unat (payload_size x) = unat n"
  using make_Inr [of b n x] payload_size_unat [of b n x] by (auto simp: word_le_nat_alt)

lemma payload_load:
  assumes "make b n = Inr x" and "load_bytes m b (unat n) = Some bs"
  shows "load_bytes m (payload x) (unat (payload_size x)) = Some (drop (unat hdr_size) bs)"
proof -
  have "unat hdr_size \<le> unat n" using assms(1) payload_size_le by fastforce
  with load_bytes_suffix [OF assms(2)] make_Inr [OF assms(1)] payload_size_unat [OF assms(1)]
  show ?thesis by simp
qed

lemma payload_readable:
  "make b n = Inr x \<Longrightarrow> readable m b (unat n) \<Longrightarrow> readable m (payload x) (unat (payload_size x))"
  using payload_load by (fastforce simp: readable_load)

lemma header_load:
  assumes "make b n = Inr x" and "load_bytes m b (unat n) = Some bs"
  shows "load_bytes m b (unat hdr_size) = Some (take (unat hdr_size) bs)"
  using assms payload_size_le by (fastforce intro: load_bytes_prefix)

end

section \<open>EthernetII\<close>

record EthernetII =
  eth_header :: pointer
  eth_size :: u32

text \<open>\<open>sizeof(ethhdr)\<close>: two addresses of 6 bytes and a 16 bit protocol.\<close>

definition EthernetII_HeaderSize :: u32 where "EthernetII_HeaderSize = 14"

definition EthernetII_default :: EthernetII where
  "EthernetII_default = \<lparr>eth_header = nullptr, eth_size = 0\<rparr>"

definition EthernetII_make :: "pointer \<Rightarrow> u32 \<Rightarrow> exn + EthernetII" where
  "EthernetII_make buffer sz =
     (if sz < EthernetII_HeaderSize then throwEx PDUError ''Not enought data for EthernetII PDU''
      else Inr \<lparr>eth_header = buffer, eth_size = sz\<rparr>)"

definition EthernetII_bool :: "EthernetII \<Rightarrow> bool" where
  "EthernetII_bool x \<longleftrightarrow> eth_size x > 0"

definition EthernetII_destination :: "memory \<Rightarrow> EthernetII \<Rightarrow> u8 list option" where
  "EthernetII_destination m x = load_bytes m (eth_header x) 6"

definition EthernetII_source :: "memory \<Rightarrow> EthernetII \<Rightarrow> u8 list option" where
  "EthernetII_source m x = load_bytes m (ptr_add (eth_header x) 6) 6"

definition EthernetII_protocol :: "endian \<Rightarrow> memory \<Rightarrow> EthernetII \<Rightarrow> u16 option" where
  "EthernetII_protocol e m x =
     do { w \<leftarrow> load16 e m (ptr_add (eth_header x) 12); Some (networkToHost16 e w) }"

definition EthernetII_payload :: "EthernetII \<Rightarrow> pointer" where
  "EthernetII_payload x = ptr_add (eth_header x) (unat EthernetII_HeaderSize)"

definition EthernetII_payloadSize :: "EthernetII \<Rightarrow> u32" where
  "EthernetII_payloadSize x = eth_size x - EthernetII_HeaderSize"

text \<open>
  \<open>snprintf\<close> with the format of six two-digit hexadecimal numbers separated by colons,
  into a buffer of 18 bytes: at most 17 characters and the terminating NUL.
\<close>

definition hex_digit :: "nat \<Rightarrow> char" where
  "hex_digit n = ''0123456789abcdef'' ! n"

definition hex02 :: "u8 \<Rightarrow> string" where
  "hex02 b = [hex_digit (unat b div 16), hex_digit (unat b mod 16)]"

definition EthernetII_toString :: "u8 list \<Rightarrow> string" where
  "EthernetII_toString a =
     take (6 * 3 - 1)
       (hex02 (a ! 0) @ '':'' @ hex02 (a ! 1) @ '':'' @ hex02 (a ! 2) @ '':''
        @ hex02 (a ! 3) @ '':'' @ hex02 (a ! 4) @ '':'' @ hex02 (a ! 5))"

section \<open>IPv4\<close>

record IPv4_pdu =
  ip_header :: pointer
  ip_size :: u32

text \<open>\<open>sizeof(iphdr)\<close>, without options.\<close>

definition IPv4_pdu_HeaderSize :: u32 where "IPv4_pdu_HeaderSize = 20"

definition IPv4_pdu_default :: IPv4_pdu where
  "IPv4_pdu_default = \<lparr>ip_header = nullptr, ip_size = 0\<rparr>"

definition IPv4_pdu_make :: "pointer \<Rightarrow> u32 \<Rightarrow> exn + IPv4_pdu" where
  "IPv4_pdu_make buffer sz =
     (if sz < IPv4_pdu_HeaderSize then throwEx PDUError ''Not enought data for IPv4 PDU''
      else Inr \<lparr>ip_header = buffer, ip_size = sz\<rparr>)"

definition IPv4_pdu_bool :: "IPv4_pdu \<Rightarrow> bool" where
  "IPv4_pdu_bool x \<longleftrightarrow> ip_size x > 0"

definition IPv4_pdu_protocol :: "memory \<Rightarrow> IPv4_pdu \<Rightarrow> u8 option" where
  "IPv4_pdu_protocol m x =
     do { bs \<leftarrow> load_bytes m (ptr_add (ip_header x) 9) 1; Some (hd bs) }"

definition IPv4_pdu_ttl :: "memory \<Rightarrow> IPv4_pdu \<Rightarrow> u8 option" where
  "IPv4_pdu_ttl m x =
     do { bs \<leftarrow> load_bytes m (ptr_add (ip_header x) 8) 1; Some (hd bs) }"

definition IPv4_pdu_checksum :: "endian \<Rightarrow> memory \<Rightarrow> IPv4_pdu \<Rightarrow> u16 option" where
  "IPv4_pdu_checksum e m x =
     do { w \<leftarrow> load16 e m (ptr_add (ip_header x) 10); Some (networkToHost16 e w) }"

definition IPv4_pdu_source :: "endian \<Rightarrow> memory \<Rightarrow> IPv4_pdu \<Rightarrow> IPv4_Address option" where
  "IPv4_pdu_source e m x =
     do { w \<leftarrow> load32 e m (ptr_add (ip_header x) 12);
          Some (IPv4_Address_fromUint e (networkToHost32 e w)) }"

definition IPv4_pdu_destination :: "endian \<Rightarrow> memory \<Rightarrow> IPv4_pdu \<Rightarrow> IPv4_Address option" where
  "IPv4_pdu_destination e m x =
     do { w \<leftarrow> load32 e m (ptr_add (ip_header x) 16);
          Some (IPv4_Address_fromUint e (networkToHost32 e w)) }"

text \<open>
  \<open>version\<close> is a bit-field of \<open>iphdr\<close>, declared after \<open>ihl\<close> on a little-endian host and
  before it on a big-endian one; both layouts put it in the high half of the first byte.
\<close>

definition IPv4_pdu_version :: "memory \<Rightarrow> IPv4_pdu \<Rightarrow> u8 option" where
  "IPv4_pdu_version m x =
     do { bs \<leftarrow> load_bytes m (ip_header x) 1; Some (drop_bit 4 (hd bs)) }"

definition IPv4_pdu_payload :: "IPv4_pdu \<Rightarrow> pointer" where
  "IPv4_pdu_payload x = ptr_add (ip_header x) (unat IPv4_pdu_HeaderSize)"

definition IPv4_pdu_payloadSize :: "IPv4_pdu \<Rightarrow> u32" where
  "IPv4_pdu_payloadSize x = ip_size x - IPv4_pdu_HeaderSize"

section \<open>UDP\<close>

record UDP =
  udp_header :: pointer
  udp_size :: u32

text \<open>\<open>sizeof(udphdr)\<close>: four 16 bit fields.\<close>

definition UDP_HeaderSize :: u32 where "UDP_HeaderSize = 8"

definition UDP_default :: UDP where
  "UDP_default = \<lparr>udp_header = nullptr, udp_size = 0\<rparr>"

definition UDP_make :: "pointer \<Rightarrow> u32 \<Rightarrow> exn + UDP" where
  "UDP_make buffer sz =
     (if sz < UDP_HeaderSize then throwEx PDUError ''Not enought data for UDP PDU''
      else Inr \<lparr>udp_header = buffer, udp_size = sz\<rparr>)"

definition UDP_bool :: "UDP \<Rightarrow> bool" where
  "UDP_bool x \<longleftrightarrow> udp_size x > 0"

definition UDP_source :: "endian \<Rightarrow> memory \<Rightarrow> UDP \<Rightarrow> u16 option" where
  "UDP_source e m x = do { w \<leftarrow> load16 e m (udp_header x); Some (networkToHost16 e w) }"

definition UDP_destination :: "endian \<Rightarrow> memory \<Rightarrow> UDP \<Rightarrow> u16 option" where
  "UDP_destination e m x =
     do { w \<leftarrow> load16 e m (ptr_add (udp_header x) 2); Some (networkToHost16 e w) }"

definition UDP_length :: "endian \<Rightarrow> memory \<Rightarrow> UDP \<Rightarrow> u16 option" where
  "UDP_length e m x =
     do { w \<leftarrow> load16 e m (ptr_add (udp_header x) 4); Some (networkToHost16 e w) }"

definition UDP_checksum :: "endian \<Rightarrow> memory \<Rightarrow> UDP \<Rightarrow> u16 option" where
  "UDP_checksum e m x =
     do { w \<leftarrow> load16 e m (ptr_add (udp_header x) 6); Some (networkToHost16 e w) }"

definition UDP_payload :: "UDP \<Rightarrow> pointer" where
  "UDP_payload x = ptr_add (udp_header x) (unat UDP_HeaderSize)"

definition UDP_payloadSize :: "UDP \<Rightarrow> u32" where
  "UDP_payloadSize x = udp_size x - UDP_HeaderSize"

section \<open>The PDUs provide the interface\<close>

lemmas pdu_defs =
  EthernetII_make_def EthernetII_HeaderSize_def EthernetII_payload_def EthernetII_payloadSize_def
  IPv4_pdu_make_def IPv4_pdu_HeaderSize_def IPv4_pdu_payload_def IPv4_pdu_payloadSize_def
  UDP_make_def UDP_HeaderSize_def UDP_payload_def UDP_payloadSize_def

interpretation eth: pdu_interface EthernetII_make EthernetII_HeaderSize EthernetII_payload
  EthernetII_payloadSize
  by unfold_locales (auto simp: pdu_defs throwEx_def not_less split: if_splits)

interpretation ip: pdu_interface IPv4_pdu_make IPv4_pdu_HeaderSize IPv4_pdu_payload
  IPv4_pdu_payloadSize
  by unfold_locales (auto simp: pdu_defs throwEx_def not_less split: if_splits)

interpretation udp: pdu_interface UDP_make UDP_HeaderSize UDP_payload UDP_payloadSize
  by unfold_locales (auto simp: pdu_defs throwEx_def not_less split: if_splits)

section \<open>Reading fields from the bytes of the buffer\<close>

text \<open>
  The accessors on a header of known bytes. The value of a 16 or 32 bit field is the one
  of its bytes in network order, on a host of either byte order.
\<close>

lemma load16_ntoh:
  assumes "load_bytes m p n = Some bs" and "k + 2 \<le> n"
  shows "map_option unat (do { w \<leftarrow> load16 e m (ptr_add p k); Some (networkToHost16 e w) })
     = Some (be_value (take 2 (drop k bs)))"
  using assms load_bytes_length [OF assms(1)]
  by (simp add: load16_sub [OF assms] ntoh16_of_bytes unat_word_of_be)

lemma load32_address:
  assumes "load_bytes m p n = Some bs" and "k + 4 \<le> n"
  shows "(do { w \<leftarrow> load32 e m (ptr_add p k);
               Some (IPv4_Address_fromUint e (networkToHost32 e w)) })
     = Some (IPv4_Address_fromBytes e (take 4 (drop k bs)))"
  by (simp add: load32_sub [OF assms] IPv4_Address_fromBytes_def)

lemma load8_sub:
  assumes "load_bytes m p n = Some bs" and "k < n"
  shows "load_bytes m (ptr_add p k) 1 = Some [bs ! k]"
  using assms load_bytes_length [OF assms(1)] load_bytes_sub [OF assms(1), of k 1]
  by (simp add: take_Suc_conv_app_nth hd_drop_conv_nth)

lemmas accessor_defs =
  EthernetII_destination_def EthernetII_source_def EthernetII_protocol_def
  IPv4_pdu_protocol_def IPv4_pdu_ttl_def IPv4_pdu_checksum_def IPv4_pdu_source_def
  IPv4_pdu_destination_def IPv4_pdu_version_def
  UDP_source_def UDP_destination_def UDP_length_def UDP_checksum_def

lemma EthernetII_make_header: "EthernetII_make p n = Inr x \<Longrightarrow> eth_header x = p \<and> 14 \<le> unat n"
  by (auto simp: EthernetII_make_def EthernetII_HeaderSize_def not_less word_le_nat_alt split: if_splits)

lemma IPv4_pdu_make_header: "IPv4_pdu_make p n = Inr x \<Longrightarrow> ip_header x = p \<and> 20 \<le> unat n"
  by (auto simp: IPv4_pdu_make_def IPv4_pdu_HeaderSize_def not_less word_le_nat_alt split: if_splits)

lemma UDP_make_header: "UDP_make p n = Inr x \<Longrightarrow> udp_header x = p \<and> 8 \<le> unat n"
  by (auto simp: UDP_make_def UDP_HeaderSize_def not_less word_le_nat_alt split: if_splits)

lemma hex_digit_inject: "m < 16 \<Longrightarrow> n < 16 \<Longrightarrow> hex_digit m = hex_digit n \<longleftrightarrow> m = n"
  unfolding hex_digit_def by (rule nth_eq_iff_index_eq) auto

lemma hex02_inject: "hex02 x = hex02 y \<longleftrightarrow> x = y"
proof
  assume "hex02 x = hex02 y"
  then have "unat x div 16 = unat y div 16" "unat x mod 16 = unat y mod 16"
    using u8_less [of x] u8_less [of y] by (auto simp: hex02_def hex_digit_inject)
  then have "unat x = unat y" by (metis div_mult_mod_eq)
  then show "x = y" by (simp add: word_unat_eq_iff)
qed simp

lemma length_6_conv: "length bs = 6 \<longleftrightarrow> (\<exists>a b c d e f. bs = [a, b, c, d, e, f])"
  by (auto simp: eval_nat_numeral length_Suc_conv)

section \<open>Properties\<close>

text \<open>
  An EthernetII PDU constructed on a buffer with contents \<open>bs\<close> reads its fields and
  its payload inside the buffer, with the values of the Ethernet II layout: destination
  and source address, the protocol in network byte order on either host, and the bytes
  after the 14 of the header as payload.
\<close>

theorem ethernet_fields:
  assumes "load_bytes m p (unat n) = Some bs" and "EthernetII_make p n = Inr x"
  shows "EthernetII_destination m x = Some (take 6 bs)
    \<and> EthernetII_source m x = Some (take 6 (drop 6 bs))
    \<and> map_option unat (EthernetII_protocol e m x) = Some (be_value (take 2 (drop 12 bs)))
    \<and> load_bytes m (EthernetII_payload x) (unat (EthernetII_payloadSize x)) = Some (drop 14 bs)"
proof -
  have h: "eth_header x = p" "14 \<le> unat n" using EthernetII_make_header [OF assms(2)] by auto
  show ?thesis
    using h eth.payload_load [OF assms(2,1)] load16_ntoh [OF assms(1), of 12 e]
      load_bytes_sub [OF assms(1), of 6 6] load_bytes_prefix [OF assms(1), of 6]
    by (simp add: accessor_defs EthernetII_HeaderSize_def)
qed

lemma ethernet_fields_witness:
  "map_option unat (EthernetII_protocol Little
      [0 \<mapsto> replicate 12 0 @ [8, 0, 69]] \<lparr>eth_header = Pointer (Some 0) 0, eth_size = 15\<rparr>)
   = Some 2048"
proof -
  let ?m = "[0 \<mapsto> replicate 12 0 @ [8, 0, 69 :: u8]]"
  have l: "load_bytes ?m (Pointer (Some 0) 0) (unat (15 :: u32)) = Some (replicate 12 0 @ [8, 0, 69])"
    by (simp add: load_bytes_def)
  have "EthernetII_make (Pointer (Some 0) 0) 15
      = Inr \<lparr>eth_header = Pointer (Some 0) 0, eth_size = 15\<rparr>"
    by (simp add: EthernetII_make_def EthernetII_HeaderSize_def)
  from ethernet_fields [OF l this, of Little] show ?thesis by (simp add: be_value_2)
qed

text \<open>
  An IPv4 PDU constructed on a buffer with contents \<open>bs\<close> reads its fields inside the
  buffer with the values of the RFC 791 layout: version, time to live, protocol, checksum
  in network byte order, and the two addresses, on a host of either byte order.
\<close>

theorem ipv4_pdu_fields:
  assumes "load_bytes m p (unat n) = Some bs" and "IPv4_pdu_make p n = Inr x"
  shows "map_option unat (IPv4_pdu_version m x) = Some (unat (bs ! 0) div 16)
    \<and> IPv4_pdu_ttl m x = Some (bs ! 8)
    \<and> IPv4_pdu_protocol m x = Some (bs ! 9)
    \<and> map_option unat (IPv4_pdu_checksum e m x) = Some (be_value (take 2 (drop 10 bs)))
    \<and> map_option (IPv4_Address_toBytes e) (IPv4_pdu_source e m x) = Some (take 4 (drop 12 bs))
    \<and> map_option (IPv4_Address_toBytes e) (IPv4_pdu_destination e m x) = Some (take 4 (drop 16 bs))"
proof -
  have h: "ip_header x = p" "20 \<le> unat n" using IPv4_pdu_make_header [OF assms(2)] by auto
  note len = load_bytes_length [OF assms(1)]
  have v: "unat (drop_bit 4 b) = unat b div 16" for b :: u8
    using u8_less [of b] unfolding unsigned_drop_bit_eq by (simp add: drop_bit_eq_div take_bit_nat_eq_self)
  show ?thesis
    using h len load8_sub [OF assms(1), of 0] load8_sub [OF assms(1), of 8]
      load8_sub [OF assms(1), of 9] load16_ntoh [OF assms(1), of 10 e]
    by (simp add: accessor_defs v load32_address [OF assms(1)] IPv4_toBytes_fromBytes
        del: IPv4_fromUint_ntoh)
qed

lemma ipv4_pdu_fields_witness:
  "IPv4_pdu_ttl [0 \<mapsto> [69, 0, 0, 20, 0, 0, 0, 0, 64, 17, 0, 0, 10, 0, 0, 1, 10, 0, 0, 2]]
     \<lparr>ip_header = Pointer (Some 0) 0, ip_size = 20\<rparr> = Some 64"
proof -
  let ?bs = "[69, 0, 0, 20, 0, 0, 0, 0, 64, 17, 0, 0, 10, 0, 0, 1, 10, 0, 0, 2] :: u8 list"
  have l: "load_bytes [0 \<mapsto> ?bs] (Pointer (Some 0) 0) (unat (20 :: u32)) = Some ?bs"
    by (simp add: load_bytes_def)
  have "IPv4_pdu_make (Pointer (Some 0) 0) 20 = Inr \<lparr>ip_header = Pointer (Some 0) 0, ip_size = 20\<rparr>"
    by (simp add: IPv4_pdu_make_def IPv4_pdu_HeaderSize_def)
  from ipv4_pdu_fields [OF l this] show ?thesis by simp
qed

text \<open>
  The header length, total length and payload of a datagram as RFC 791 defines them: the
  header is \<open>ihl\<close> words long, options included, and the datagram ends at its total length.
\<close>

definition rfc791_header_length :: "u8 list \<Rightarrow> nat" where
  "rfc791_header_length bs = 4 * (unat (bs ! 0) mod 16)"

definition rfc791_total_length :: "u8 list \<Rightarrow> nat" where
  "rfc791_total_length bs = be_value (take 2 (drop 2 bs))"

definition rfc791_payload :: "u8 list \<Rightarrow> u8 list" where
  "rfc791_payload bs =
     take (rfc791_total_length bs - rfc791_header_length bs) (drop (rfc791_header_length bs) bs)"

text \<open>
  C34. The payload of an IPv4 PDU is everything after the first 20 bytes of the buffer,
  whatever the header says. On a valid datagram it is the payload of RFC 791 exactly when
  the header has no options and the datagram fills the buffer; with options or with
  link-layer padding it is not.
\<close>

theorem ipv4_pdu_payload_ignores_header:
  assumes "load_bytes m p (unat n) = Some bs" and "IPv4_pdu_make p n = Inr x"
    and "20 \<le> rfc791_header_length bs"
    and "rfc791_header_length bs \<le> rfc791_total_length bs"
    and "rfc791_total_length bs \<le> unat n"
  shows "load_bytes m (IPv4_pdu_payload x) (unat (IPv4_pdu_payloadSize x)) = Some (drop 20 bs)
    \<and> (drop 20 bs = rfc791_payload bs \<longleftrightarrow>
         rfc791_header_length bs = 20 \<and> rfc791_total_length bs = unat n)"
proof
  show "load_bytes m (IPv4_pdu_payload x) (unat (IPv4_pdu_payloadSize x)) = Some (drop 20 bs)"
    using ip.payload_load [OF assms(2,1)] by (simp add: IPv4_pdu_HeaderSize_def)
  have len: "length bs = unat n" by (rule load_bytes_length [OF assms(1)])
  have paylen: "length (rfc791_payload bs) = rfc791_total_length bs - rfc791_header_length bs"
    using assms(4,5) len by (simp add: rfc791_payload_def)
  show "drop 20 bs = rfc791_payload bs \<longleftrightarrow>
      rfc791_header_length bs = 20 \<and> rfc791_total_length bs = unat n"
  proof
    assume "drop 20 bs = rfc791_payload bs"
    then have "length (drop 20 bs) = length (rfc791_payload bs)" by (rule arg_cong)
    then have "unat n - 20 = rfc791_total_length bs - rfc791_header_length bs"
      by (simp add: paylen len)
    with assms(3-5) show "rfc791_header_length bs = 20 \<and> rfc791_total_length bs = unat n"
      by linarith
  next
    assume "rfc791_header_length bs = 20 \<and> rfc791_total_length bs = unat n"
    then show "drop 20 bs = rfc791_payload bs" by (simp add: rfc791_payload_def len)
  qed
qed

lemma ipv4_pdu_payload_ignores_header_witness:
  "let bs = [70, 0, 0, 25, 0, 0, 0, 0, 64, 17, 0, 0, 10, 0, 0, 1, 10, 0, 0, 2, 1, 1, 1, 1, 9]
   in load_bytes [0 \<mapsto> bs] (IPv4_pdu_payload \<lparr>ip_header = Pointer (Some 0) 0, ip_size = 25\<rparr>) 5
        = Some [1, 1, 1, 1, 9]
      \<and> rfc791_payload bs = [9]"
proof -
  let ?bs = "[70, 0, 0, 25, 0, 0, 0, 0, 64, 17, 0, 0, 10, 0, 0, 1, 10, 0, 0, 2, 1, 1, 1, 1, 9] :: u8 list"
  have l: "load_bytes [0 \<mapsto> ?bs] (Pointer (Some 0) 0) (unat (25 :: u32)) = Some ?bs"
    by (simp add: load_bytes_def)
  have mk: "IPv4_pdu_make (Pointer (Some 0) 0) 25
      = Inr \<lparr>ip_header = Pointer (Some 0) 0, ip_size = 25\<rparr>"
    by (simp add: IPv4_pdu_make_def IPv4_pdu_HeaderSize_def)
  have h: "rfc791_header_length ?bs = 24" "rfc791_total_length ?bs = 25"
    by (simp_all add: rfc791_header_length_def rfc791_total_length_def be_value_2)
  from ipv4_pdu_payload_ignores_header [OF l mk] show ?thesis
    by (simp add: h IPv4_pdu_payloadSize_def IPv4_pdu_HeaderSize_def rfc791_payload_def)
qed

text \<open>
  A UDP PDU constructed on a buffer with contents \<open>bs\<close> reads its four fields in
  network byte order on either host, and its payload is the bytes after the header.
\<close>

theorem udp_fields:
  assumes "load_bytes m p (unat n) = Some bs" and "UDP_make p n = Inr x"
  shows "map_option unat (UDP_source e m x) = Some (be_value (take 2 bs))
    \<and> map_option unat (UDP_destination e m x) = Some (be_value (take 2 (drop 2 bs)))
    \<and> map_option unat (UDP_length e m x) = Some (be_value (take 2 (drop 4 bs)))
    \<and> map_option unat (UDP_checksum e m x) = Some (be_value (take 2 (drop 6 bs)))
    \<and> load_bytes m (UDP_payload x) (unat (UDP_payloadSize x)) = Some (drop 8 bs)"
proof -
  have h: "udp_header x = p" "8 \<le> unat n" using UDP_make_header [OF assms(2)] by auto
  show ?thesis
    using h udp.payload_load [OF assms(2,1)] load16_ntoh [OF assms(1), of 0 e]
      load16_ntoh [OF assms(1), of 2 e] load16_ntoh [OF assms(1), of 4 e]
      load16_ntoh [OF assms(1), of 6 e]
    by (simp add: accessor_defs UDP_HeaderSize_def)
qed

lemma udp_fields_witness:
  "map_option unat (UDP_destination Little [0 \<mapsto> [0, 53, 1, 0, 0, 8, 0, 0]]
     \<lparr>udp_header = Pointer (Some 0) 0, udp_size = 8\<rparr>) = Some 256"
proof -
  let ?bs = "[0, 53, 1, 0, 0, 8, 0, 0] :: u8 list"
  have l: "load_bytes [0 \<mapsto> ?bs] (Pointer (Some 0) 0) (unat (8 :: u32)) = Some ?bs"
    by (simp add: load_bytes_def)
  have "UDP_make (Pointer (Some 0) 0) 8 = Inr \<lparr>udp_header = Pointer (Some 0) 0, udp_size = 8\<rparr>"
    by (simp add: UDP_make_def UDP_HeaderSize_def)
  from udp_fields [OF l this, of Little] show ?thesis by (simp add: be_value_2)
qed

text \<open>A client that reads a UDP datagram out of a frame.\<close>

definition nested_pdus :: "pointer \<Rightarrow> u32 \<Rightarrow> exn + EthernetII \<times> IPv4_pdu \<times> UDP" where
  "nested_pdus p n =
     (case EthernetII_make p n of Inl x \<Rightarrow> Inl x | Inr et \<Rightarrow>
      case IPv4_pdu_make (EthernetII_payload et) (EthernetII_payloadSize et) of Inl x \<Rightarrow> Inl x
      | Inr i \<Rightarrow>
      case UDP_make (IPv4_pdu_payload i) (IPv4_pdu_payloadSize i) of Inl x \<Rightarrow> Inl x
      | Inr u \<Rightarrow> Inr (et, i, u))"

text \<open>
  C16. Nesting the three PDUs on a readable frame: each constructor takes the payload of
  the one before. If the frame has at least 42 bytes all three succeed, the innermost
  payload is the frame after 42 bytes and no size wraps around; otherwise the first
  header that does not fit is the \<open>PDUError\<close> thrown.
\<close>

theorem nested_pdus_safe:
  assumes "load_bytes m p (unat n) = Some bs"
  shows "(42 \<le> unat n \<longrightarrow> (\<exists>et i u. nested_pdus p n = Inr (et, i, u)
            \<and> load_bytes m (UDP_payload u) (unat (UDP_payloadSize u)) = Some (drop 42 bs)
            \<and> unat (UDP_payloadSize u) = unat n - 42))
    \<and> (unat n < 42 \<longrightarrow> nested_pdus p n = Inl (PDUError (
          if unat n < 14 then ''Not enought data for EthernetII PDU''
          else if unat n < 34 then ''Not enought data for IPv4 PDU''
          else ''Not enought data for UDP PDU'')))"
proof (cases "EthernetII_make p n")
  case (Inl x)
  then have "unat n < 14" "x = PDUError ''Not enought data for EthernetII PDU''"
    by (auto simp: EthernetII_make_def EthernetII_HeaderSize_def throwEx_def word_less_nat_alt
        split: if_splits)
  with Inl show ?thesis by (simp add: nested_pdus_def)
next
  case et: (Inr et)
  note e = eth.payload_load [OF et assms] eth.payload_size_unat [OF et]
    EthernetII_make_header [OF et]
  show ?thesis
  proof (cases "IPv4_pdu_make (EthernetII_payload et) (EthernetII_payloadSize et)")
    case (Inl x)
    then have "unat n < 34" "x = PDUError ''Not enought data for IPv4 PDU''"
      using e by (auto simp: IPv4_pdu_make_def IPv4_pdu_HeaderSize_def EthernetII_HeaderSize_def
          throwEx_def word_less_nat_alt split: if_splits)
    with Inl et e show ?thesis by (simp add: nested_pdus_def)
  next
    case ip: (Inr i)
    note i = ip.payload_load [OF ip e(1)] ip.payload_size_unat [OF ip] IPv4_pdu_make_header [OF ip]
    have n34: "34 \<le> unat n" using e(2,3) i(3) unfolding EthernetII_HeaderSize_def by simp linarith
    show ?thesis
    proof (cases "UDP_make (IPv4_pdu_payload i) (IPv4_pdu_payloadSize i)")
      case (Inl x)
      then have "unat n < 42" "x = PDUError ''Not enought data for UDP PDU''"
        using e i by (auto simp: UDP_make_def UDP_HeaderSize_def IPv4_pdu_HeaderSize_def
            EthernetII_HeaderSize_def throwEx_def word_less_nat_alt split: if_splits)
      with Inl et ip n34 show ?thesis by (simp add: nested_pdus_def)
    next
      case udp: (Inr u)
      show ?thesis
        using udp et ip e i udp.payload_load [OF udp i(1)] udp.payload_size_unat [OF udp]
          UDP_make_header [OF udp]
        by (simp add: nested_pdus_def EthernetII_HeaderSize_def IPv4_pdu_HeaderSize_def
            UDP_HeaderSize_def) linarith
    qed
  qed
qed

lemma nested_pdus_safe_witness:
  "\<exists>et i u. nested_pdus (Pointer (Some 0) 0) 42 = Inr (et, i, u) \<and> unat (UDP_payloadSize u) = 0"
proof -
  have "load_bytes [0 \<mapsto> replicate 42 0] (Pointer (Some 0) 0) (unat (42 :: u32))
      = Some (replicate 42 (0 :: u8))"
    by (simp add: load_bytes_def)
  from nested_pdus_safe [OF this] show ?thesis by auto
qed

text \<open>
  The text of a hardware address always has 17 characters, so it fits the buffer it is
  formatted into, and it determines the address.
\<close>

theorem ethernet_address_text:
  assumes "length a = 6" and "length b = 6"
  shows "length (EthernetII_toString a) = 17
    \<and> (EthernetII_toString a = EthernetII_toString b \<longleftrightarrow> a = b)"
proof -
  obtain a0 a1 a2 a3 a4 a5 where a: "a = [a0, a1, a2, a3, a4, a5]"
    using assms(1) by (auto simp: length_6_conv)
  obtain b0 b1 b2 b3 b4 b5 where b: "b = [b0, b1, b2, b3, b4, b5]"
    using assms(2) by (auto simp: length_6_conv)
  have len: "length (hex02 x) = 2" for x by (simp add: hex02_def)
  show ?thesis
    by (simp add: a b EthernetII_toString_def len eval_nat_numeral hex02_inject [symmetric])
qed

lemma ethernet_address_text_witness:
  "length (EthernetII_toString [0, 1, 2, 3, 4, 255]) = 17
    \<and> EthernetII_toString [0, 1, 2, 3, 4, 255] \<noteq> EthernetII_toString [0, 1, 2, 3, 4, 254]"
  using ethernet_address_text [of "[0, 1, 2, 3, 4, 255]" "[0, 1, 2, 3, 4, 254]"] by simp

end
