(* ===== verification/Nb_PcapReader.thy ===== *)
theory Nb_PcapReader
  imports Nb_Pdu Nb_Capture
begin

text \<open>
  The program \<open>examples/pcap_reader.cpp\<close>: the loop that reads a capture until the end of
  its file and the function that prints the protocol headers of a packet. What is printed
  is a list of lines, as values; the text of an address is left out.
\<close>

section \<open>printPacket\<close>

datatype line =
    Line_packet
  | Line_mac_src string
  | Line_mac_dst string
  | Line_internet
  | Line_vlan
  | Line_src IPv4_Address
  | Line_dst IPv4_Address
  | Line_checksum u16
  | Line_ttl u8
  | Line_protocol u8
  | Line_port_src u16
  | Line_port_dst u16
  | Line_len u16
  | Line_payload_size u32
  | Line_error string

definition ETH_P_IP :: u16 where "ETH_P_IP = 0x0800"
definition ETH_P_8021Q :: u16 where "ETH_P_8021Q = 0x8100"
definition IPPROTO_UDP :: u8 where "IPPROTO_UDP = 17"

definition print_udp :: "endian \<Rightarrow> memory \<Rightarrow> IPv4_pdu \<Rightarrow> line list option" where
  "print_udp e m ipv4 =
     (case UDP_make (IPv4_pdu_payload ipv4) (IPv4_pdu_payloadSize ipv4) of
        Inl x \<Rightarrow> Some [Line_error (what x)]
      | Inr udp \<Rightarrow>
          do { source \<leftarrow> UDP_source e m udp;
               destination \<leftarrow> UDP_destination e m udp;
               len \<leftarrow> UDP_length e m udp;
               checksum \<leftarrow> UDP_checksum e m udp;
               Some [Line_port_src source, Line_port_dst destination, Line_len len,
                     Line_checksum checksum, Line_payload_size (UDP_payloadSize udp)] })"

definition print_ipv4 :: "endian \<Rightarrow> memory \<Rightarrow> pointer \<Rightarrow> u32 \<Rightarrow> line list option" where
  "print_ipv4 e m p n =
     (case IPv4_pdu_make p n of
        Inl x \<Rightarrow> Some [Line_error (what x)]
      | Inr ipv4 \<Rightarrow>
          do { version \<leftarrow> IPv4_pdu_version m ipv4;
               if version \<noteq> 4 then Some []
               else do {
                 source \<leftarrow> IPv4_pdu_source e m ipv4;
                 destination \<leftarrow> IPv4_pdu_destination e m ipv4;
                 checksum \<leftarrow> IPv4_pdu_checksum e m ipv4;
                 ttl \<leftarrow> IPv4_pdu_ttl m ipv4;
                 protocol \<leftarrow> IPv4_pdu_protocol m ipv4;
                 rest \<leftarrow> (if protocol \<noteq> IPPROTO_UDP then Some [] else print_udp e m ipv4);
                 Some ([Line_src source, Line_dst destination, Line_checksum checksum,
                        Line_ttl ttl, Line_protocol protocol] @ rest) } })"

definition print_packet :: "endian \<Rightarrow> memory \<Rightarrow> pointer \<Rightarrow> u32 \<Rightarrow> line list option" where
  "print_packet e m p n =
     (case EthernetII_make p n of
        Inl x \<Rightarrow> Some [Line_error (what x)]
      | Inr eth \<Rightarrow>
          do { source \<leftarrow> EthernetII_source m eth;
               destination \<leftarrow> EthernetII_destination m eth;
               protocol \<leftarrow> EthernetII_protocol e m eth;
               rest \<leftarrow>
                 (if protocol = ETH_P_IP then
                    map_option (Cons Line_internet)
                      (print_ipv4 e m (EthernetII_payload eth) (EthernetII_payloadSize eth - 0))
                  else if protocol = ETH_P_8021Q then
                    map_option (Cons Line_vlan)
                      (print_ipv4 e m (ptr_add (EthernetII_payload eth) 4)
                         (EthernetII_payloadSize eth - 4))
                  else Some []);
               Some ([Line_packet, Line_mac_src (EthernetII_toString source),
                      Line_mac_dst (EthernetII_toString destination)] @ rest) })"

section \<open>The loop\<close>

text \<open>\<open>while (!reader.eof())\<close> around \<open>readPacket\<close> and a body for the valid packets.\<close>

partial_function (option) eof_loop_on ::
  "('f, 'x heap_scheme) file_ops \<Rightarrow> endian \<Rightarrow> ('x heap_scheme \<Rightarrow> Packet \<Rightarrow> 'a list option)
     \<Rightarrow> 'x heap_scheme \<Rightarrow> 'f capture_reader
     \<Rightarrow> ('a list \<times> 'x heap_scheme \<times> 'f capture_reader) option" where
  "eof_loop_on fo e body h r =
     do { eof \<leftarrow> fo_eof fo (rd_file r);
          if eof then Some ([], h, r)
          else do {
            x \<leftarrow> readPacket_on fo e h r;
            out \<leftarrow> (if Packet_bool (fst x) then body (snd (snd x)) (fst x) else Some []);
            y \<leftarrow> eof_loop_on fo e body (snd (snd x)) (fst (snd x));
            Some (out @ fst y, snd y) } }"

definition pcap_reader_main_on ::
  "('f, 'x heap_scheme) file_ops \<Rightarrow> (string \<Rightarrow> 'x heap_scheme \<Rightarrow> (exn + 'f \<times> 'x heap_scheme) option)
     \<Rightarrow> endian \<Rightarrow> 'x heap_scheme \<Rightarrow> string \<Rightarrow> (exn + line list) option" where
  "pcap_reader_main_on fo opener e h name =
     do { x \<leftarrow> Reader_construct fo e (opener name h);
          case x of
            Inl exc \<Rightarrow> Some (Inl exc)
          | Inr (reader, h) \<Rightarrow>
              do { valid \<leftarrow> fo_bool fo (rd_file reader);
                   if \<not> valid then Some (throwEx runtime_error ''Can't open pcap file'')
                   else map_option (\<lambda>y. Inr (fst y))
                     (eof_loop_on fo e (\<lambda>h p. print_packet e (hp_mem h) (Packet_data p) (Packet_captureLength p))
                        h reader) } }"

definition eof_loop ::
  "endian \<Rightarrow> (heap \<Rightarrow> Packet \<Rightarrow> 'a list option) \<Rightarrow> heap \<Rightarrow> Reader \<Rightarrow> ('a list \<times> heap \<times> Reader) option" where
  "eof_loop = eof_loop_on quiet"

definition pcap_reader_main ::
  "endian \<Rightarrow> platform \<Rightarrow> heap \<Rightarrow> string \<Rightarrow> (exn + line list) option" where
  "pcap_reader_main e pf = pcap_reader_main_on quiet (FileReader_construct (\<lambda>m. Some) pf) e"

lemma eof_loop_step:
  "eof_loop e body h r =
     do { eof \<leftarrow> Reader_eof r;
          if eof then Some ([], h, r)
          else do {
            x \<leftarrow> Reader_readPacket e h r;
            out \<leftarrow> (if Packet_bool (fst x) then body (snd (snd x)) (fst x) else Some []);
            y \<leftarrow> eof_loop e body (snd (snd x)) (fst (snd x));
            Some (out @ fst y, snd y) } }"
  unfolding eof_loop_def Reader_readPacket_def
  by (subst eof_loop_on.simps) (simp add: Reader_eof_def)

lemma pcap_reader_main_eq:
  "pcap_reader_main e pf h name =
     do { x \<leftarrow> Reader_open e pf h name;
          case x of
            Inl exc \<Rightarrow> Some (Inl exc)
          | Inr (reader, h) \<Rightarrow>
              do { valid \<leftarrow> Reader_bool reader;
                   if \<not> valid then Some (throwEx runtime_error ''Can't open pcap file'')
                   else map_option (\<lambda>y. Inr (fst y))
                     (eof_loop e (\<lambda>h p. print_packet e (hp_mem h) (Packet_data p) (Packet_captureLength p))
                        h reader) } }"
  unfolding pcap_reader_main_def pcap_reader_main_on_def Reader_open_def Reader_bool_def eof_loop_def quiet_simps ..

section \<open>Printing stays inside the packet\<close>

lemma print_udp_safe:
  assumes "load_bytes m p (unat n) = Some bs" and "IPv4_pdu_make p n = Inr i"
  shows "\<exists>ls. print_udp e m i = Some ls"
proof (cases "UDP_make (IPv4_pdu_payload i) (IPv4_pdu_payloadSize i)")
  case (Inr u)
  note l = ip.payload_load [OF assms(2,1)]
  note h = UDP_make_header [OF Inr]
  show ?thesis
    using Inr h load16_sub [OF l, of 0 e] load16_sub [OF l, of 2 e] load16_sub [OF l, of 4 e]
      load16_sub [OF l, of 6 e]
    by (simp add: print_udp_def accessor_defs)
qed (simp add: print_udp_def)

lemma print_ipv4_safe:
  assumes "load_bytes m p (unat n) = Some bs"
  shows "\<exists>ls. print_ipv4 e m p n = Some ls"
proof (cases "IPv4_pdu_make p n")
  case (Inr i)
  have h: "ip_header i = p" "20 \<le> unat n" using IPv4_pdu_make_header [OF Inr] by auto
  obtain ls where "print_udp e m i = Some ls" using print_udp_safe [OF assms Inr] by metis
  then show ?thesis
    using Inr h load8_sub [OF assms, of 0] load8_sub [OF assms, of 8] load8_sub [OF assms, of 9]
      load16_sub [OF assms, of 10 e] load32_sub [OF assms, of 12 e] load32_sub [OF assms, of 16 e]
    by (simp add: print_ipv4_def accessor_defs)
qed (simp add: print_ipv4_def)

text \<open>The protocol of a frame, by its bytes.\<close>

definition frame_protocol :: "u8 list \<Rightarrow> nat" where
  "frame_protocol bs = be_value (take 2 (drop 12 bs))"

lemma EthernetII_protocol_load:
  assumes "load_bytes m p (unat n) = Some bs" and "EthernetII_make p n = Inr x"
  obtains w where "EthernetII_protocol e m x = Some w" and "unat w = frame_protocol bs"
proof -
  have h: "eth_header x = p" "14 \<le> unat n" using EthernetII_make_header [OF assms(2)] by auto
  with load16_ntoh [OF assms(1), of 12 e] that show thesis
    by (auto simp: accessor_defs frame_protocol_def)
qed

lemma print_packet_safe:
  assumes l: "load_bytes m p (unat n) = Some bs"
    and vlan: "frame_protocol bs = 0x8100 \<Longrightarrow> unat n < 14 \<or> 18 \<le> unat n"
  shows "\<exists>ls. print_packet e m p n = Some ls"
proof (cases "EthernetII_make p n")
  case (Inr x)
  have h: "eth_header x = p" "14 \<le> unat n" using EthernetII_make_header [OF Inr] by auto
  note pl = eth.payload_load [OF Inr l] and ps = eth.payload_size_unat [OF Inr]
  obtain w where w: "EthernetII_protocol e m x = Some w" "unat w = frame_protocol bs"
    using EthernetII_protocol_load [OF l Inr] by metis
  have addr: "\<exists>s. EthernetII_source m x = Some s" "\<exists>d. EthernetII_destination m x = Some d"
    using h load_bytes_sub [OF l, of 6 6] load_bytes_prefix [OF l, of 6]
    by (simp_all add: accessor_defs)
  obtain ls where ip: "print_ipv4 e m (EthernetII_payload x) (EthernetII_payloadSize x) = Some ls"
    using print_ipv4_safe [OF pl] by metis
  have "\<exists>ls. print_ipv4 e m (ptr_add (EthernetII_payload x) 4) (EthernetII_payloadSize x - 4) = Some ls"
    if "w = ETH_P_8021Q"
  proof -
    have "18 \<le> unat n" using that w(2) vlan h by (auto simp: ETH_P_8021Q_def)
    then have k: "4 \<le> unat (EthernetII_payloadSize x)" using ps by (simp add: EthernetII_HeaderSize_def)
    then have "unat (EthernetII_payloadSize x - 4) = unat (EthernetII_payloadSize x) - 4"
      by (subst unat_sub) (auto simp: word_le_nat_alt)
    with load_bytes_suffix [OF pl k] print_ipv4_safe show ?thesis by metis
  qed
  with Inr w addr ip show ?thesis by (auto simp: print_packet_def)
qed (simp add: print_packet_def)

lemma print_packet_vlan:
  assumes b: "m b = Some bs" "length bs = unat n"
    and vlan: "frame_protocol bs = 0x8100" and n: "14 \<le> unat n" "unat n < 18"
  shows "print_packet e m (Pointer (Some b) 0) n = None"
proof -
  let ?p = "Pointer (Some b) 0"
  have l: "load_bytes m ?p (unat n) = Some bs" using b n by (simp add: load_bytes_def)
  obtain x where x: "EthernetII_make ?p n = Inr x"
    using eth.make_ok [of n ?p] n by (auto simp: EthernetII_HeaderSize_def word_le_nat_alt)
  have h: "eth_header x = ?p" using EthernetII_make_header [OF x] by auto
  obtain w where w: "EthernetII_protocol e m x = Some w" "unat w = frame_protocol bs"
    using EthernetII_protocol_load [OF l x] by metis
  then have w8: "w = ETH_P_8021Q" using vlan by (simp add: ETH_P_8021Q_def word_unat_eq_iff)
  let ?q = "ptr_add (EthernetII_payload x) 4"
  have q: "?q = Pointer (Some b) 18"
    by (simp add: EthernetII_payload_def EthernetII_HeaderSize_def h ptr_add_def)
  have "unat (EthernetII_payloadSize x) < 4"
    using eth.payload_size_unat [OF x] n by (simp add: EthernetII_HeaderSize_def)
  then have "unat (EthernetII_payloadSize x - 4) \<ge> 20"
    by (simp add: unat_sub_if_size word_size)
  then have "IPv4_pdu_HeaderSize \<le> EthernetII_payloadSize x - 4"
    by (simp add: IPv4_pdu_HeaderSize_def word_le_nat_alt)
  then obtain i where i: "IPv4_pdu_make ?q (EthernetII_payloadSize x - 4) = Inr i"
    using ip.make_ok by blast
  have "IPv4_pdu_version m i = None"
    using IPv4_pdu_make_header [OF i] q b n by (simp add: IPv4_pdu_version_def load_bytes_def)
  with i have "print_ipv4 e m ?q (EthernetII_payloadSize x - 4) = None" by (simp add: print_ipv4_def)
  moreover have "\<exists>s. EthernetII_source m x = Some s" "\<exists>d. EthernetII_destination m x = Some d"
    using h n load_bytes_sub [OF l, of 6 6] load_bytes_prefix [OF l, of 6]
    by (simp_all add: accessor_defs)
  ultimately show ?thesis
    using x w w8 by (auto simp: print_packet_def ETH_P_IP_def ETH_P_8021Q_def)
qed

section \<open>The loop ends on a file that ends, and not on one that breaks\<close>

text \<open>What is left to do for the loop: nothing once the eof bit is set.\<close>

definition file_work :: "FileReader \<Rightarrow> nat" where
  "file_work f = (if FileReader_eof f = Some True then 0 else Suc (length (FileReader_bytes f)))"

lemma FileReader_read_clean:
  assumes "file_clean f"
  obtains bs k f' where "FileReader_read n f = Some (bs, k, f')" and "file_clean f'"
    and "FileReader_eof f' = Some True \<and> (k < n \<or> n = 0)
      \<or> k = n \<and> length (FileReader_bytes f) = n + length (FileReader_bytes f')"
proof -
  from assms obtain s where s: "FileReader_deref f = Some s" "istream_clean s"
    by (auto simp: file_clean_def)
  obtain bs s' where r: "istream_read n s = (bs, s')" "istream_clean s'"
    "st_eof s' \<and> (st_gcount s' < n \<or> n = 0)
      \<or> st_gcount s' = n \<and> length (istream_bytes s) = n + length (istream_bytes s')"
    using istream_read_clean [OF s(2)] by metis
  with s show thesis
    by (intro that [of bs "st_gcount s'" "FileReader_put f s'"])
      (auto simp: FileReader_read_def file_clean_def FileReader_eof_def FileReader_bytes_def)
qed

lemma file_clean_ok: "file_clean f \<Longrightarrow> FileReader_ok f"
  by (auto simp: file_clean_def FileReader_ok_def)

lemma read_data_clean:
  assumes "file_clean (rd_file r)" and "read_data h r header = Some (p, r', h')"
  shows "file_clean (rd_file r')"
    and "FileReader_eof (rd_file r') = Some True
      \<or> length (FileReader_bytes (rd_file r')) \<le> length (FileReader_bytes (rd_file r))"
proof -
  obtain bs k f' where "FileReader_read (unat (ph_caplen header)) (rd_file r) = Some (bs, k, f')"
    "file_clean f'" "FileReader_eof f' = Some True
      \<or> k = unat (ph_caplen header)
        \<and> length (FileReader_bytes (rd_file r)) = unat (ph_caplen header) + length (FileReader_bytes f')"
    using FileReader_read_clean [OF assms(1)] by metis
  with assms show "file_clean (rd_file r')" "FileReader_eof (rd_file r') = Some True
      \<or> length (FileReader_bytes (rd_file r')) \<le> length (FileReader_bytes (rd_file r))"
    by (auto simp: read_data_def bind_Some_iff Let_def split: if_splits)
qed

lemma readPacket_work:
  assumes "file_clean (rd_file r)" and "FileReader_eof (rd_file r) \<noteq> Some True"
    and out: "Reader_readPacket e h r = Some (p, r', h')"
  shows "file_clean (rd_file r') \<and> file_work (rd_file r') < file_work (rd_file r)"
proof -
  obtain bs k f where f: "FileReader_read 16 (rd_file r) = Some (bs, k, f)" "file_clean f"
    "FileReader_eof f = Some True \<and> k < 16
      \<or> k = 16 \<and> length (FileReader_bytes (rd_file r)) = 16 + length (FileReader_bytes f)"
    using FileReader_read_clean [OF assms(1), of 16] by (metis zero_neq_numeral)
  show ?thesis
  proof (cases "k = 16")
    case True
    let ?header = "Reader_scale_header (rd_scale r) (PacketHeader_of_bytes e bs)"
    have "read_data h (r\<lparr>rd_file := f\<rparr>) ?header = Some (p, r', h')"
      using out f(1) True by (simp add: readPacket_header)
    with f(2,3) True assms(2) show ?thesis
      using read_data_clean [of "r\<lparr>rd_file := f\<rparr>" h ?header p r' h'] by (auto simp: file_work_def)
  next
    case False
    with f(3) have "unat (of_nat k :: u32) \<noteq> 16" by (subst unat_count_eq) auto
    with out f have "r' = r\<lparr>rd_file := f\<rparr>"
      by (simp add: Reader_readPacket_eq FileReader_readStruct_def)
    with f False assms(2) show ?thesis by (simp add: file_work_def)
  qed
qed

lemma eof_loop_ends:
  assumes "Reader_ok h r" and "file_clean (rd_file r)"
    and body: "\<And>h p. readable (hp_mem h) (pk_data p) (unat (pk_captureLength p)) \<Longrightarrow> \<exists>ls. body h p = Some ls"
  shows "\<exists>ls h' r'. eof_loop e body h r = Some (ls, h', r')"
  using assms(1,2)
proof (induction "file_work (rd_file r)" arbitrary: h r rule: less_induct)
  case less
  obtain b where b: "Reader_eof r = Some b"
    using less.prems(1) by (auto simp: Reader_ok_def FileReader_ok_def Reader_eof_def FileReader_eof_def)
  show ?case
  proof (cases b)
    case True
    with b show ?thesis by (simp add: eof_loop_step)
  next
    case False
    obtain p r1 h1 where out: "Reader_readPacket e h r = Some (p, r1, h1)" "Reader_ok h1 r1"
      "Packet_bool p \<Longrightarrow> \<exists>v. packet_view h1 p = Some v"
      using readPacket_outcome [OF less.prems(1), of e]
      by (cases "Reader_rest e r") (auto simp: read_outcome_def)
    have "file_clean (rd_file r1) \<and> file_work (rd_file r1) < file_work (rd_file r)"
      using b False out(1) less.prems(2) by (intro readPacket_work) (auto simp: Reader_eof_def)
    with less.hyps [of r1 h1] out(2) obtain ls h' r' where "eof_loop e body h1 r1 = Some (ls, h', r')"
      by blast
    moreover have "\<exists>xs. (if Packet_bool p then body h1 p else Some []) = Some xs"
      using body [of h1 p] out(3) by (auto simp: readable_load packet_view_def bind_Some_iff)
    ultimately show ?thesis using b False out(1) by (auto simp: eof_loop_step [of e body h r])
  qed
qed

text \<open>A stream whose buffer has reported an error: the bad bit is set, the eof bit is not.\<close>

definition reader_stuck :: "Reader \<Rightarrow> bool" where
  "reader_stuck r \<longleftrightarrow>
     (case FileReader_deref (rd_file r) of
        None \<Rightarrow> False
      | Some s \<Rightarrow> st_bad s \<and> \<not> st_eof s)"

lemma reader_stuck_eof: "reader_stuck r \<Longrightarrow> Reader_eof r = Some False"
  by (auto simp: reader_stuck_def Reader_eof_def FileReader_eof_def split: option.splits)

lemma reader_stuck_step:
  assumes "reader_stuck r"
  obtains r' where "Reader_readPacket e h r = Some (Packet_default, r', h)" and "reader_stuck r'"
proof -
  from assms obtain s where s: "FileReader_deref (rd_file r) = Some s" "st_bad s" "\<not> st_eof s"
    by (auto simp: reader_stuck_def split: option.splits)
  let ?s = "s\<lparr>st_fail := True, st_gcount := 0\<rparr>"
  have "istream_read 16 s = ([], ?s)" using s by (simp add: istream_read_def istream_good_def)
  with s(1) have "Reader_readPacket e h r
      = Some (Packet_default, r\<lparr>rd_file := FileReader_put (rd_file r) ?s\<rparr>, h)"
    by (simp add: Reader_readPacket_eq FileReader_readStruct_def FileReader_read_def)
  moreover have "reader_stuck (r\<lparr>rd_file := FileReader_put (rd_file r) ?s\<rparr>)"
    using s by (simp add: reader_stuck_def)
  ultimately show thesis by (rule that)
qed

lemma eof_loop_stuck:
  fixes body :: "heap \<Rightarrow> Packet \<Rightarrow> 'a list option"
  assumes "eof_loop e body h r = Some y"
  shows "\<not> reader_stuck r"
proof -
  have "fo = quiet \<longrightarrow> \<not> reader_stuck r" if "eof_loop_on fo e body h r = Some y"
    for fo :: "(FileReader, heap) file_ops" and body :: "heap \<Rightarrow> Packet \<Rightarrow> 'a list option" and e h r y
  proof (rule eof_loop_on.raw_induct [where P = "\<lambda>fo e body h r y. fo = quiet \<longrightarrow> \<not> reader_stuck r", OF _ that])
    fix loop :: "(FileReader, heap) file_ops \<Rightarrow> endian \<Rightarrow> (heap \<Rightarrow> Packet \<Rightarrow> 'a list option) \<Rightarrow> heap \<Rightarrow> Reader
        \<Rightarrow> ('a list \<times> heap \<times> Reader) option"
      and fo e body h r y
    assume IH: "\<And>fo e body h r y. loop fo e body h r = Some y \<Longrightarrow> fo = quiet \<longrightarrow> \<not> reader_stuck r"
    assume out: "(do { eof \<leftarrow> fo_eof fo (rd_file r);
        if eof then Some ([], h, r)
        else do {
          x \<leftarrow> readPacket_on fo e h r;
          out \<leftarrow> (if Packet_bool (fst x) then body (snd (snd x)) (fst x) else Some []);
          y \<leftarrow> loop fo e body (snd (snd x)) (fst (snd x));
          Some (out @ fst y, snd y) } }) = Some y"
    show "fo = quiet \<longrightarrow> \<not> reader_stuck r"
    proof (intro impI notI)
      assume fo: "fo = quiet" and r: "reader_stuck r"
      then obtain r' where r': "Reader_readPacket e h r = Some (Packet_default, r', h)" "reader_stuck r'"
        by (metis reader_stuck_step)
      with out fo reader_stuck_eof [OF r] have "loop quiet e body h r' \<noteq> None"
        by (cases y) (auto simp: bind_Some_iff Reader_readPacket_def Reader_eof_def)
      with IH r'(2) show False by fastforce
    qed
  qed
  with assms show ?thesis by (auto simp: eof_loop_def)
qed

section \<open>Properties\<close>

text \<open>
  C26. \<open>printPacket\<close> reads nothing outside the packet it is given, with any contents and any
  length, except for one kind of frame: a VLAN frame of 14 to 17 bytes.
\<close>

theorem print_packet_in_bounds:
  assumes "load_bytes m p (unat n) = Some bs"
    and "frame_protocol bs \<noteq> 0x8100 \<or> unat n < 14 \<or> 18 \<le> unat n"
  shows "\<exists>ls. print_packet e m p n = Some ls"
  using print_packet_safe [OF assms(1)] assms(2) by blast

theorem print_packet_in_bounds_witness:
  "\<exists>ls. print_packet Little [0 \<mapsto> replicate 12 0 @ [129, 0, 0, 1]] (Pointer (Some 0) 0) 13 = Some ls"
proof -
  have "load_bytes [0 \<mapsto> replicate 12 0 @ [129, 0, 0, 1]] (Pointer (Some 0) 0) (unat (13 :: u32))
      = Some (replicate 12 0 @ [129 :: u8])"
    by (simp add: load_bytes_def)
  from print_packet_in_bounds [OF this] show ?thesis by simp
qed

text \<open>
  For a VLAN frame of 14 to 17 bytes the size left after the VLAN tag wraps around:
  the IPv4 PDU is constructed past the end of the packet, and where the packet ends its
  allocation the version field is read out of bounds.
\<close>

theorem print_packet_vlan_overrun:
  assumes "m b = Some bs" and "length bs = unat n"
    and "frame_protocol bs = 0x8100" and "14 \<le> unat n" and "unat n < 18"
  shows "print_packet e m (Pointer (Some b) 0) n = None"
  using assms by (rule print_packet_vlan)

theorem print_packet_vlan_overrun_witness:
  "print_packet Little [0 \<mapsto> replicate 12 0 @ [129, 0, 0]] (Pointer (Some 0) 0) 15 = None"
  by (rule print_packet_vlan_overrun [where bs = "replicate 12 0 @ [129, 0, 0]"])
    (simp_all add: frame_protocol_def be_value_2)




text \<open>A compressed capture whose decoder fails after the file header.\<close>

definition broken_platform :: platform where
  "broken_platform =
     \<lparr>pf_files = [''x.xz'' \<mapsto> [0]], pf_lzma_enabled = True, pf_gzip_enabled = False,
      pf_lzma = \<lambda>bs. Inr (FileHeader_bytes Little sample_header, Broken),
      pf_gzip = \<lambda>bs. (bs, Clean)\<rparr>"

definition broken_reader :: Reader where
  "broken_reader = \<lparr>rd_file = \<lparr>fr_fileStream = Some (istream_make [0] Clean),
      fr_decodedStream = Some ((istream_make [] Broken)\<lparr>st_bad := True\<rparr>), fr_stream = To_decoded\<rparr>,
     rd_scale = Up, rd_timezone = 0, rd_buffer = Pointer (Some 0) 0, rd_buffer_size = 16\<rparr>"

lemma broken_open:
  "Reader_open Little broken_platform empty_heap ''x.xz''
     = Some (Inr (broken_reader
         \<lparr>rd_file := (rd_file broken_reader)\<lparr>fr_decodedStream := Some ((istream_make [] Broken)\<lparr>st_gcount := 24\<rparr>)\<rparr>\<rparr>,
         nested_heap))"
proof -
  let ?f = "\<lparr>fr_fileStream = Some (istream_make [0] Clean),
      fr_decodedStream = Some (istream_make (FileHeader_bytes Little sample_header) Broken),
      fr_stream = To_decoded\<rparr>"
  have f: "FileReader_open broken_platform ''x.xz'' = Inr ?f"
    by (simp add: FileReader_open_def broken_platform_def Let_def endsWith_def ifstream_open_def
        istream_bool_def istream_make_def)
  have "FileReader_read 24 ?f = Some (FileHeader_bytes Little sample_header, 24,
      ?f\<lparr>fr_decodedStream := Some ((istream_make [] Broken)\<lparr>st_gcount := 24\<rparr>)\<rparr>)"
    by (simp add: FileReader_read_def FileReader_deref_def istream_read_def istream_good_def
        istream_make_def FileReader_put_def)
  then show ?thesis
    by (simp add: Reader_open_eq f Reader_readFileHeader_eq FileReader_readStruct_def
        FileHeader_of_bytes_bytes Reader_magic_def Let_def nested_heap_def broken_reader_def
        sample_header_def MaxSnapLen_def vector_alloc_def empty_heap_def)
qed


end
