(* ===== verification/Nb_Simulation.thy ===== *)
theory Nb_Simulation
  imports Nb_PacketSource Nb_PcapReader
begin

text \<open>
  The reader, the packet source and the programs that use them are defined over any
  operations of a file. Here: two such operations of which the second does what the first
  does, on files and heaps that correspond, make the readers, the sources and the programs
  correspond too. \<open>Nb_Chain\<close> uses it to go from the decoded whole of a file to decoding on
  demand, \<open>Nb_Diagnostics\<close> to add the messages.
\<close>

section \<open>Corresponding results\<close>

text \<open>Where the first is defined, so is the second, and the results are related.\<close>

definition option_sim :: "('a \<Rightarrow> 'b \<Rightarrow> bool) \<Rightarrow> 'a option \<Rightarrow> 'b option \<Rightarrow> bool" where
  "option_sim R x y \<longleftrightarrow> (\<forall>a. x = Some a \<longrightarrow> (\<exists>b. y = Some b \<and> R a b))"

lemma option_sim_Some: "R a b \<Longrightarrow> option_sim R (Some a) (Some b)"
  by (simp add: option_sim_def)

lemma option_sim_None [simp]: "option_sim R None y"
  by (simp add: option_sim_def)

lemma option_sim_bind:
  assumes "option_sim R x y" and "\<And>a b. R a b \<Longrightarrow> option_sim S (f a) (g b)"
  shows "option_sim S (x \<bind> f) (y \<bind> g)"
  using assms by (auto simp: option_sim_def bind_Some_iff)

lemma option_sim_map:
  "option_sim R x y \<Longrightarrow> (\<And>a b. R a b \<Longrightarrow> S (f a) (g b)) \<Longrightarrow> option_sim S (map_option f x) (map_option g y)"
  by (auto simp: option_sim_def)

lemma option_sim_same: "option_sim (=) x x"
  by (simp add: option_sim_def)

lemma option_simD: "option_sim R x y \<Longrightarrow> x = Some a \<Longrightarrow> \<exists>b. y = Some b \<and> R a b"
  by (simp add: option_sim_def)

lemma option_simI: "(\<And>a. x = Some a \<Longrightarrow> \<exists>b. y = Some b \<and> R a b) \<Longrightarrow> option_sim R x y"
  by (simp add: option_sim_def)

section \<open>Corresponding readers and sources\<close>

definition reader_sim :: "('f \<Rightarrow> 'g \<Rightarrow> bool) \<Rightarrow> 'f capture_reader \<Rightarrow> 'g capture_reader \<Rightarrow> bool" where
  "reader_sim F r s \<longleftrightarrow> F (rd_file r) (rd_file s) \<and> rd_scale s = rd_scale r \<and> rd_timezone s = rd_timezone r
     \<and> rd_buffer s = rd_buffer r \<and> rd_buffer_size s = rd_buffer_size r"

definition source_sim :: "('f \<Rightarrow> 'g \<Rightarrow> bool) \<Rightarrow> 'f packet_source \<Rightarrow> 'g packet_source \<Rightarrow> bool" where
  "source_sim F s t \<longleftrightarrow> list_all2 (reader_sim F) (ps_storage s) (ps_storage t) \<and> ps_queue t = ps_queue s
     \<and> ps_current t = ps_current s \<and> ps_doneCallback t = ps_doneCallback s \<and> ps_done_calls t = ps_done_calls s"

text \<open>An operation that may throw, with the heap after it.\<close>

abbreviation opened_sim :: "('f \<Rightarrow> 'g \<Rightarrow> bool) \<Rightarrow> ('h \<Rightarrow> 'k \<Rightarrow> bool) \<Rightarrow> exn + 'f \<times> 'h \<Rightarrow> exn + 'g \<times> 'k \<Rightarrow> bool" where
  "opened_sim F H \<equiv> rel_sum (=) (rel_prod F H)"

section \<open>The interface\<close>

locale file_simulation =
  fixes F :: "'f \<Rightarrow> 'g \<Rightarrow> bool" and H :: "'x heap_scheme \<Rightarrow> 'y heap_scheme \<Rightarrow> bool"
    and fo :: "('f, 'x heap_scheme) file_ops" and go :: "('g, 'y heap_scheme) file_ops"
  assumes sim_heap: "H h k \<Longrightarrow> hp_next k = hp_next h \<and> hp_mem k = hp_mem h"
    and sim_next: "H h k \<Longrightarrow> H (h\<lparr>hp_next := n\<rparr>) (k\<lparr>hp_next := n\<rparr>)"
    and sim_store: "H h k \<Longrightarrow> H (h\<lparr>hp_mem := m\<rparr>) (k\<lparr>hp_mem := m\<rparr>)"
    and sim_reset: "F f g \<Longrightarrow> F (fo_reset fo f) (fo_reset go g)"
    and sim_bool: "F f g \<Longrightarrow> option_sim (=) (fo_bool fo f) (fo_bool go g)"
    and sim_good: "F f g \<Longrightarrow> option_sim (=) (fo_good fo f) (fo_good go g)"
    and sim_eof: "F f g \<Longrightarrow> option_sim (=) (fo_eof fo f) (fo_eof go g)"
    and sim_read: "F f g \<Longrightarrow> option_sim (rel_prod (=) (rel_prod (=) F)) (fo_read fo n f) (fo_read go n g)"
    and sim_debug: "H h k \<Longrightarrow> option_sim H (fo_debug fo msg h) (fo_debug go msg k)"
begin

lemma sim_alloc: "H h k \<Longrightarrow> rel_prod (=) H (vector_alloc h n) (vector_alloc k n)"
  using sim_heap [of h k] by (simp add: vector_alloc_def sim_next sim_store)

lemma sim_view: "H h k \<Longrightarrow> packet_view k p = packet_view h p"
  using sim_heap [of h k] by (simp add: packet_view_def)

lemma reject_sim:
  assumes "H h k" and "reader_sim F r s"
  shows "option_sim (rel_prod (reader_sim F) H) (Reader_reject fo m r h) (Reader_reject go m s k)"
  unfolding Reader_reject_def using assms
  by (intro option_sim_bind [OF sim_debug] option_sim_Some) (auto simp: reader_sim_def sim_reset)

lemma readFileHeader_sim:
  assumes "H h k" and "reader_sim F r s"
  shows "option_sim (rel_prod (reader_sim F) H) (readFileHeader_on fo e h r) (readFileHeader_on go e k s)"
  unfolding readFileHeader_on_def readStruct_on_def
proof (rule option_sim_bind [OF sim_read], goal_cases)
  case 1
  show ?case using assms by (simp add: reader_sim_def)
next
  case (2 x y)
  obtain bs count f g where x: "x = (bs, count, f)" "y = (bs, count, g)" "F f g"
    using 2 by (cases x; cases y) auto
  have r: "reader_sim F (r\<lparr>rd_file := f\<rparr>) (s\<lparr>rd_file := g\<rparr>)"
    "reader_sim F (r\<lparr>rd_file := f, rd_scale := sc\<rparr>) (s\<lparr>rd_file := g, rd_scale := sc\<rparr>)" for sc
    using assms(2) x(3) by (simp_all add: reader_sim_def)
  show ?case
    using sim_alloc [OF assms(1), of "unat (fh_snaplen (FileHeader_of_bytes e bs))"] r
    unfolding x Let_def prod.case
    by (auto intro!: reject_sim assms option_sim_Some simp: reader_sim_def rel_prod_sel
        split: option.split prod.splits)
qed

lemma construct_sim:
  assumes "option_sim (opened_sim F H) x y"
  shows "option_sim (opened_sim (reader_sim F) H) (Reader_construct fo e x) (Reader_construct go e y)"
  unfolding Reader_construct_def
proof (rule option_sim_bind [OF assms])
  fix a b assume "opened_sim F H a b"
  then show "option_sim (opened_sim (reader_sim F) H)
     (case a of Inl exc \<Rightarrow> Some (Inl exc) | Inr (file, h) \<Rightarrow> map_option Inr (readFileHeader_on fo e h
        \<lparr>rd_file = file, rd_scale = PassThrough, rd_timezone = 0, rd_buffer = nullptr, rd_buffer_size = 0\<rparr>))
     (case b of Inl exc \<Rightarrow> Some (Inl exc) | Inr (file, h) \<Rightarrow> map_option Inr (readFileHeader_on go e h
        \<lparr>rd_file = file, rd_scale = PassThrough, rd_timezone = 0, rd_buffer = nullptr, rd_buffer_size = 0\<rparr>))"
    by (cases a; cases b)
      (auto intro!: option_sim_Some option_sim_map [OF readFileHeader_sim] simp: reader_sim_def)
qed

lemma readPacket_sim:
  assumes "H h k" and "reader_sim F r s"
  shows "option_sim (rel_prod (=) (rel_prod (reader_sim F) H)) (readPacket_on fo e h r) (readPacket_on go e k s)"
  unfolding readPacket_on_def readStruct_on_def
proof (rule option_sim_bind [OF sim_read], goal_cases)
  case 1
  show ?case using assms by (simp add: reader_sim_def)
next
  case (2 x y)
  obtain bs count f g where x: "x = (bs, count, f)" "y = (bs, count, g)" "F f g"
    using 2 by (cases x; cases y) auto
  have r: "reader_sim F (r\<lparr>rd_file := f\<rparr>) (s\<lparr>rd_file := g\<rparr>)"
    using assms(2) x(3) by (simp add: reader_sim_def)
  have same: "rd_scale s = rd_scale r" "rd_buffer s = rd_buffer r" "rd_buffer_size s = rd_buffer_size r"
    "hp_mem k = hp_mem h"
    using assms sim_heap [of h k] by (simp_all add: reader_sim_def)
  let ?header = "Reader_scale_header (rd_scale r) (PacketHeader_of_bytes e bs)"
  have said: "option_sim (rel_prod (=) (rel_prod (reader_sim F) H))
      (fo_debug fo m h' \<bind> (\<lambda>h. Some (Packet_default, r', h)))
      (fo_debug go m k' \<bind> (\<lambda>h. Some (Packet_default, s', h)))"
    if "H h' k'" "reader_sim F r' s'" for m h' k' r' s'
    using that by (intro option_sim_bind [OF sim_debug] option_sim_Some) auto
  have data: "option_sim (rel_prod (=) (rel_prod (=) F)) (fo_read fo n f) (fo_read go n g)" for n
    by (rule sim_read [OF x(3)])
  show ?case
    unfolding x Let_def prod.case
    using said r assms(1)
    by (auto simp: same reader_sim_def intro!: option_sim_Some option_sim_bind [OF data]
        option_sim_bind [OF option_sim_same] sim_store said)
qed

lemma Reader_next_sim:
  assumes "rel_prod H (reader_sim F) x y"
  shows "option_sim (rel_prod (=) (rel_prod H (reader_sim F))) (Reader_next_on fo e x) (Reader_next_on go e y)"
proof -
  have xy: "H (fst x) (fst y)" "reader_sim F (snd x) (snd y)" using assms by (auto simp: rel_prod_sel)
  show ?thesis
    unfolding Reader_next_on_def
  proof (rule option_sim_bind [OF readPacket_sim [OF xy]], goal_cases)
    case (1 a b)
    then show ?case
      by (cases a; cases b) (auto simp: sim_view intro!: option_sim_Some option_sim_bind [OF option_sim_same])
  qed
qed

lemma read_all_files_sim:
  assumes "rel_prod H (reader_sim F) x y"
  shows "option_sim (rel_prod (=) (rel_prod H (reader_sim F)))
    (read_all (Reader_next_on fo e) x) (read_all (Reader_next_on go e) y)"
proof (rule option_simI)
  fix z assume z: "read_all (Reader_next_on fo e) x = Some z"
  have "\<exists>y'. read_all (Reader_next_on go e) y = Some (fst z, y') \<and> rel_prod H (reader_sim F) (snd z) y'"
  proof (rule read_all_sim [where R = "rel_prod H (reader_sim F)", OF _ assms z])
    fix x y v x'
    assume "rel_prod H (reader_sim F) x y" and "Reader_next_on fo e x = Some (v, x')"
    from option_simD [OF Reader_next_sim [OF this(1)] this(2)]
    show "\<exists>y'. Reader_next_on go e y = Some (v, y') \<and> rel_prod H (reader_sim F) x' y'" by auto
  qed
  then show "\<exists>w. read_all (Reader_next_on go e) y = Some w \<and> rel_prod (=) (rel_prod H (reader_sim F)) z w"
    by (cases z) auto
qed

lemma reader_program_sim:
  assumes "option_sim (opened_sim F H) (opener name h) (opener' name k)"
  shows "option_sim (rel_sum (=) (rel_prod (=) (rel_prod H (reader_sim F))))
    (reader_program_on fo opener e h name) (reader_program_on go opener' e k name)"
  unfolding reader_program_on_def
proof (rule option_sim_bind [OF construct_sim [OF assms]], goal_cases)
  case (1 a b)
  then show ?case
    by (cases a; cases b) (auto intro!: option_sim_Some option_sim_map [OF read_all_files_sim])
qed

lemma returnToQueue_sim:
  assumes "H h k" and "source_sim F s t"
  shows "option_sim (rel_prod (source_sim F) H) (returnToQueue_on fo e h s i) (returnToQueue_on go e k t i)"
proof (cases "length (ps_storage s) \<le> i")
  case False
  have len: "length (ps_storage t) = length (ps_storage s)"
    and r: "reader_sim F (ps_storage s ! i) (ps_storage t ! i)"
    using assms(2) False by (auto simp: source_sim_def list_all2_conv_all_nth)
  show ?thesis
    unfolding returnToQueue_on_def len if_not_P [OF False]
  proof (rule option_sim_bind [OF readPacket_sim [OF assms(1) r]], goal_cases)
    case (1 a b)
    then show ?case
      using assms(2)
      by (cases a; cases b) (auto simp: source_sim_def Let_def intro!: option_sim_Some list_all2_update_cong)
  qed
qed (simp add: returnToQueue_on_def)

lemma addFile_sim:
  assumes "option_sim (opened_sim F H) (opener name h) (opener' name k)" and "source_sim F s t"
  shows "option_sim (opened_sim (source_sim F) H) (addFile_on fo opener e h s name) (addFile_on go opener' e k t name)"
  unfolding addFile_on_def
proof (rule option_sim_bind [OF construct_sim [OF assms(1)]], goal_cases)
  case (1 a b)
  show ?case
  proof (cases a)
    case (Inr x)
    with 1 obtain r h r' k where x: "x = (r, h)" "b = Inr (r', k)" "reader_sim F r r'" "H h k"
      by (cases x; cases b) auto
    have bool: "option_sim (=) (fo_bool fo (rd_file r)) (fo_bool go (rd_file r'))"
      using x(3) by (intro sim_bool) (simp add: reader_sim_def)
    have "source_sim F (s\<lparr>ps_storage := ps_storage s @ [r]\<rparr>) (t\<lparr>ps_storage := ps_storage t @ [r']\<rparr>)"
      and "length (ps_storage t) = length (ps_storage s)"
      using assms(2) x(3) by (auto simp: source_sim_def list_all2_appendI dest: list_all2_lengthD)
    with assms(2) x Inr show ?thesis
      by (auto simp: Let_def intro!: option_sim_bind [OF bool] option_sim_map [OF sim_debug]
          option_sim_map [OF returnToQueue_sim])
  next
    case (Inl x)
    with 1 show ?thesis by (cases b) (auto intro!: option_sim_Some)
  qed
qed

lemma readNextPacket_sim:
  assumes "H h k" and "source_sim F s t"
  shows "option_sim (rel_prod (=) (rel_prod (source_sim F) H)) (readNextPacket_on fo e h s) (readNextPacket_on go e k t)"
  unfolding readNextPacket_on_def
proof (rule option_sim_bind [of "rel_prod (source_sim F) H"], goal_cases)
  case 1
  show ?case
    using assms by (auto simp: source_sim_def intro!: option_sim_Some returnToQueue_sim split: option.split)
next
  case (2 a b)
  then show ?case
    by (cases a; cases b) (auto simp: source_sim_def Let_def intro!: option_sim_Some split: list.split)
qed

lemma Source_next_sim:
  assumes "rel_prod H (source_sim F) x y"
  shows "option_sim (rel_prod (=) (rel_prod H (source_sim F))) (Source_next_on fo e x) (Source_next_on go e y)"
proof -
  have xy: "H (fst x) (fst y)" "source_sim F (snd x) (snd y)" using assms by (auto simp: rel_prod_sel)
  show ?thesis
    unfolding Source_next_on_def
  proof (rule option_sim_bind [OF readNextPacket_sim [OF xy]], goal_cases)
    case (1 a b)
    then show ?case
      by (cases a; cases b) (auto simp: sim_view intro!: option_sim_Some option_sim_bind [OF option_sim_same])
  qed
qed

lemma add_files_sim:
  assumes open_sim: "\<And>name h k. name \<in> set names \<Longrightarrow> H h k \<Longrightarrow> option_sim (opened_sim F H) (opener name h) (opener' name k)"
    and "H h k" and "source_sim F s t"
  shows "option_sim (opened_sim (source_sim F) H) (add_files_on fo opener e h s names) (add_files_on go opener' e k t names)"
  using assms
proof (induction names arbitrary: h k s t)
  case (Cons name names)
  have "option_sim (opened_sim F H) (opener name h) (opener' name k)" using Cons.prems by simp
  note add = addFile_sim [of opener name h opener' k, OF this Cons.prems(3)]
  show ?case
    unfolding add_files_on.simps
  proof (rule option_sim_bind [OF add], goal_cases)
    case (1 a b)
    then show ?case using Cons.IH Cons.prems(1) by (cases a; cases b) (auto intro!: option_sim_Some)
  qed
qed (auto intro!: option_sim_Some)

lemma read_until_files_sim:
  assumes "rel_prod H (source_sim F) x y"
  shows "option_sim (rel_prod (=) (rel_prod H (source_sim F)))
    (read_until (\<lambda>x. PcapPacketSource_isDone (snd x)) (Source_next_on fo e) x)
    (read_until (\<lambda>x. PcapPacketSource_isDone (snd x)) (Source_next_on go e) y)"
proof (rule option_simI)
  let ?d = "\<lambda>x. PcapPacketSource_isDone (snd x)"
  fix z assume z: "read_until (\<lambda>x. PcapPacketSource_isDone (snd x)) (Source_next_on fo e) x = Some z"
  have "\<exists>y'. read_until (\<lambda>x. PcapPacketSource_isDone (snd x)) (Source_next_on go e) y = Some (fst z, y')
    \<and> rel_prod H (source_sim F) (snd z) y'"
  proof (rule read_until_sim [where R = "rel_prod H (source_sim F)", OF _ _ assms z])
    fix x y v x'
    assume "rel_prod H (source_sim F) x y" and "Source_next_on fo e x = Some (v, x')"
    from option_simD [OF Source_next_sim [OF this(1)] this(2)]
    show "\<exists>y'. Source_next_on go e y = Some (v, y') \<and> rel_prod H (source_sim F) x' y'" by auto
  qed (auto simp: source_sim_def PcapPacketSource_isDone_def)
  then show "\<exists>w. read_until (\<lambda>x. PcapPacketSource_isDone (snd x)) (Source_next_on go e) y = Some w
    \<and> rel_prod (=) (rel_prod H (source_sim F)) z w"
    by (cases z) auto
qed

lemma source_program_sim:
  assumes "\<And>name h k. name \<in> set names \<Longrightarrow> H h k \<Longrightarrow> option_sim (opened_sim F H) (opener name h) (opener' name k)"
    and "H h k"
  shows "option_sim (rel_sum (=) (rel_prod (=) (rel_prod H (source_sim F))))
    (source_program_on fo opener e h callback names) (source_program_on go opener' e k callback names)"
  unfolding source_program_on_def
proof (rule option_sim_bind [where R = "opened_sim (source_sim F) H"], goal_cases)
  case 1
  show ?case
    by (rule add_files_sim [where opener = opener and opener' = opener'])
      (use assms in \<open>auto simp: source_sim_def PcapPacketSource_setDoneCallback_def PcapPacketSource_default_def\<close>)
next
  case (2 a b)
  then show ?case
    by (cases a; cases b) (auto intro!: option_sim_Some option_sim_map [OF read_until_files_sim])
qed

lemma eof_loop_sim:
  fixes body :: "'x heap_scheme \<Rightarrow> Packet \<Rightarrow> 'c list option"
  assumes body: "\<And>h k p. H h k \<Longrightarrow> option_sim (=) (body h p) (body' k p)"
    and "H h k" and "reader_sim F r s" and "eof_loop_on fo e body h r = Some y"
  shows "\<exists>y'. eof_loop_on go e body' k s = Some (fst y, y') \<and> rel_prod H (reader_sim F) (snd y) y'"
proof -
  have "f = fo \<longrightarrow> b = body \<longrightarrow> (\<forall>k s. H h k \<longrightarrow> reader_sim F r s \<longrightarrow>
      (\<exists>y'. eof_loop_on go e body' k s = Some (fst y, y') \<and> rel_prod H (reader_sim F) (snd y) y'))"
    if "eof_loop_on f e b h r = Some y" for f e and b :: "'x heap_scheme \<Rightarrow> Packet \<Rightarrow> 'c list option" and h r y
  proof (rule eof_loop_on.raw_induct [OF _ that], intro impI allI)
    fix loop :: "('f, 'x heap_scheme) file_ops \<Rightarrow> endian \<Rightarrow> ('x heap_scheme \<Rightarrow> Packet \<Rightarrow> 'c list option)
        \<Rightarrow> 'x heap_scheme \<Rightarrow> 'f capture_reader \<Rightarrow> ('c list \<times> 'x heap_scheme \<times> 'f capture_reader) option"
      and f e b h r y k s
    assume IH: "\<And>f e b h r y. loop f e b h r = Some y \<Longrightarrow> f = fo \<longrightarrow> b = body \<longrightarrow>
        (\<forall>k s. H h k \<longrightarrow> reader_sim F r s \<longrightarrow>
          (\<exists>y'. eof_loop_on go e body' k s = Some (fst y, y') \<and> rel_prod H (reader_sim F) (snd y) y'))"
      and run: "(do { eof \<leftarrow> fo_eof f (rd_file r);
          if eof then Some ([], h, r)
          else do {
            x \<leftarrow> readPacket_on f e h r;
            out \<leftarrow> (if Packet_bool (fst x) then b (snd (snd x)) (fst x) else Some []);
            y \<leftarrow> loop f e b (snd (snd x)) (fst (snd x));
            Some (out @ fst y, snd y) } }) = Some y"
      and fb: "f = fo" "b = body" and hk: "H h k" and rs: "reader_sim F r s"
    from run fb obtain eof where eof: "fo_eof fo (rd_file r) = Some eof" by (auto simp: bind_Some_iff)
    with sim_eof [of "rd_file r" "rd_file s"] rs have eof': "fo_eof go (rd_file s) = Some eof"
      by (auto simp: reader_sim_def option_sim_def)
    show "\<exists>y'. eof_loop_on go e body' k s = Some (fst y, y') \<and> rel_prod H (reader_sim F) (snd y) y'"
    proof (cases eof)
      case True
      with run fb eof eof' hk rs show ?thesis by (subst eof_loop_on.simps) auto
    next
      case False
      with run fb eof obtain p r1 h1 out z where x: "readPacket_on fo e h r = Some (p, r1, h1)"
        and out: "(if Packet_bool p then body h1 p else Some []) = Some out"
        and z: "loop fo e body h1 r1 = Some z" "y = (out @ fst z, snd z)"
        by (auto simp: bind_Some_iff cong: if_cong)
      from option_simD [OF readPacket_sim [OF hk rs] x] obtain s1 k1 where
        x': "readPacket_on go e k s = Some (p, s1, k1)" "reader_sim F r1 s1" "H h1 k1" by auto
      with out body [of h1 k1 p] have out': "(if Packet_bool p then body' k1 p else Some []) = Some out"
        by (auto simp: option_sim_def split: if_splits)
      from IH [OF z(1)] x' obtain z' where
        "eof_loop_on go e body' k1 s1 = Some (fst z, z')" "rel_prod H (reader_sim F) (snd z) z'" by blast
      with z(2) x' out' eof' False show ?thesis
        by (cases z'; subst eof_loop_on.simps) (simp split: if_splits)
    qed
  qed
  with assms show ?thesis by blast
qed

lemma pcap_reader_main_sim:
  assumes "option_sim (opened_sim F H) (opener name h) (opener' name k)"
  shows "option_sim (=) (pcap_reader_main_on fo opener e h name) (pcap_reader_main_on go opener' e k name)"
  unfolding pcap_reader_main_on_def
proof (rule option_sim_bind [OF construct_sim [OF assms]], goal_cases)
  case (1 a b)
  show ?case
  proof (cases a)
    case (Inr x)
    with 1 obtain r h s k where x: "x = (r, h)" "b = Inr (s, k)" "reader_sim F r s" "H h k"
      by (cases x; cases b) auto
    have bool: "option_sim (=) (fo_bool fo (rd_file r)) (fo_bool go (rd_file s))"
      using x(3) by (intro sim_bool) (simp add: reader_sim_def)
    let ?body = "\<lambda>h :: 'x heap_scheme. \<lambda>p. print_packet e (hp_mem h) (Packet_data p) (Packet_captureLength p)"
      and ?body' = "\<lambda>h :: 'y heap_scheme. \<lambda>p. print_packet e (hp_mem h) (Packet_data p) (Packet_captureLength p)"
    have loop: "option_sim (\<lambda>y y'. fst y' = fst y) (eof_loop_on fo e ?body h r) (eof_loop_on go e ?body' k s)"
    proof (rule option_simI)
      fix y assume "eof_loop_on fo e ?body h r = Some y"
      from eof_loop_sim [of ?body ?body', OF _ x(4,3) this]
      show "\<exists>y'. eof_loop_on go e ?body' k s = Some y' \<and> fst y' = fst y"
        by (auto simp: sim_heap option_sim_same)
    qed
    show ?thesis
      unfolding Inr x sum.case prod.case
      by (rule option_sim_bind [OF bool]) (auto intro!: option_sim_Some option_sim_map [OF loop] simp del: Packet_accessors)
  next
    case (Inl x)
    with 1 show ?thesis by (cases b) (auto intro!: option_sim_Some)
  qed
qed

end

end
