(* ===== verification/Nb_StreamBuffer.thy ===== *)
theory Nb_StreamBuffer
  imports Nb_FileReader
begin

text \<open>
  Reading through a stream buffer on demand, as \<open>std::istream\<close> does: \<open>read\<close> takes what the
  get area holds and calls the virtual \<open>underflow\<close> of the buffer for more. A buffer class is
  given by its operations; the interface says what they have to satisfy for reading on
  demand to be the same as reading from the list of all the bytes the buffer will deliver.
\<close>

section \<open>Stream buffers\<close>

text \<open>
  The operations of a buffer class on its objects: the bytes between \<open>gptr()\<close> and \<open>egptr()\<close>,
  \<open>gbump\<close>, and \<open>underflow\<close>, which may throw, report the end, or give the next byte.
\<close>

record 's streambuf =
  vt_area :: "'s \<Rightarrow> u8 list"
  vt_bump :: "nat \<Rightarrow> 's \<Rightarrow> 's"
  vt_underflow :: "'s \<Rightarrow> (exn + u8 option \<times> 's) option"

text \<open>
  \<open>sgetn\<close>: the bytes it stores, whether \<open>underflow\<close> threw, and the buffer. After an
  exception the buffer is not used again.
\<close>

partial_function (option) sgetn :: "'s streambuf \<Rightarrow> nat \<Rightarrow> 's \<Rightarrow> (u8 list \<times> bool \<times> 's) option" where
  "sgetn vt n s =
     (let k = min n (length (vt_area vt s));
          bs = take k (vt_area vt s);
          s = vt_bump vt k s
      in if n - k = 0 then Some (bs, False, s)
         else do {
           r \<leftarrow> vt_underflow vt s;
           case r of
             Inl x \<Rightarrow> Some (bs, True, s)
           | Inr (None, s) \<Rightarrow> Some (bs, False, s)
           | Inr (Some b, s) \<Rightarrow>
               do { y \<leftarrow> sgetn vt (n - k - 1) (vt_bump vt 1 s);
                    Some (bs @ b # fst y, snd y) } })"

text \<open>An input stream over a buffer object: the state bits and \<open>gcount()\<close>.\<close>

record 's demand =
  dm_buf :: 's
  dm_eof :: bool
  dm_fail :: bool
  dm_bad :: bool
  dm_gcount :: nat

definition demand_make :: "'s \<Rightarrow> 's demand" where
  "demand_make s = \<lparr>dm_buf = s, dm_eof = False, dm_fail = False, dm_bad = False, dm_gcount = 0\<rparr>"

definition demand_good :: "'s demand \<Rightarrow> bool" where
  "demand_good d \<longleftrightarrow> \<not> dm_eof d \<and> \<not> dm_fail d \<and> \<not> dm_bad d"

definition demand_bool :: "'s demand \<Rightarrow> bool" where
  "demand_bool d \<longleftrightarrow> \<not> dm_fail d \<and> \<not> dm_bad d"

definition demand_read :: "'s streambuf \<Rightarrow> nat \<Rightarrow> 's demand \<Rightarrow> (u8 list \<times> 's demand) option" where
  "demand_read vt n d =
     (if demand_good d then
        do { (bs, thrown, s) \<leftarrow> sgetn vt n (dm_buf d);
             let d = d\<lparr>dm_buf := s\<rparr>;
             if thrown then Some (bs, d\<lparr>dm_bad := True, dm_gcount := 0\<rparr>)
             else if length bs = n then Some (bs, d\<lparr>dm_gcount := n\<rparr>)
             else Some (bs, d\<lparr>dm_eof := True, dm_fail := True, dm_gcount := length bs\<rparr>) }
      else Some ([], d\<lparr>dm_fail := True, dm_gcount := 0\<rparr>))"

text \<open>All that calls of \<open>underflow\<close> deliver from a buffer with an empty get area.\<close>

partial_function (option) drain :: "'s streambuf \<Rightarrow> 's \<Rightarrow> (u8 list \<times> stream_end) option" where
  "drain vt s =
     do { r \<leftarrow> vt_underflow vt s;
          case r of
            Inl x \<Rightarrow> Some ([], Broken)
          | Inr (None, s) \<Rightarrow> Some ([], Clean)
          | Inr (Some b, s) \<Rightarrow>
              do { y \<leftarrow> drain vt (vt_bump vt (length (vt_area vt s)) s);
                   Some (vt_area vt s @ fst y, snd y) } }"

section \<open>The interface of a buffer class\<close>

locale stream_buffer =
  fixes vt :: "'s streambuf"
    and ok :: "'s \<Rightarrow> bool"
  assumes bump_0: "vt_bump vt 0 s = s"
    and bump_bump: "vt_bump vt j (vt_bump vt k s) = vt_bump vt (k + j) s"
    and area_bump: "vt_area vt (vt_bump vt k s) = drop k (vt_area vt s)"
    and ok_bump: "ok s \<Longrightarrow> k \<le> length (vt_area vt s) \<Longrightarrow> ok (vt_bump vt k s)"
    and ok_underflow: "ok s \<Longrightarrow> vt_underflow vt s = Some (Inr (x, t)) \<Longrightarrow> ok t"
    and underflow_byte: "ok s \<Longrightarrow> vt_area vt s = [] \<Longrightarrow> vt_underflow vt s = Some (Inr (Some b, t)) \<Longrightarrow>
        \<exists>bs. vt_area vt t = b # bs"
begin

text \<open>What a buffer still delivers: its get area and then what calls of \<open>underflow\<close> give.\<close>

definition delivers :: "'s \<Rightarrow> u8 list \<Rightarrow> stream_end \<Rightarrow> bool" where
  "delivers s bs e \<longleftrightarrow> ok s \<and> (\<exists>cs. bs = vt_area vt s @ cs
     \<and> drain vt (vt_bump vt (length (vt_area vt s)) s) = Some (cs, e))"

lemma delivers_start: "ok s \<Longrightarrow> vt_area vt s = [] \<Longrightarrow> drain vt s = Some (bs, e) \<Longrightarrow> delivers s bs e"
  by (simp add: delivers_def bump_0)

lemma delivers_bump:
  assumes "delivers s bs e" and "k \<le> length (vt_area vt s)"
  shows "delivers (vt_bump vt k s) (drop k bs) e"
  using assms by (auto simp: delivers_def area_bump bump_bump ok_bump)

lemma delivers_underflow:
  assumes "delivers s bs e" and empty: "vt_area vt s = []"
  shows "vt_underflow vt s = Some r \<Longrightarrow>
      (case r of
         Inl x \<Rightarrow> bs = [] \<and> e = Broken
       | Inr (None, t) \<Rightarrow> bs = [] \<and> e = Clean
       | Inr (Some b, t) \<Rightarrow> \<exists>cs. bs = b # cs \<and> delivers (vt_bump vt 1 t) cs e)"
    and "\<exists>r. vt_underflow vt s = Some r"
proof -
  have d: "ok s" "drain vt s = Some (bs, e)" using assms by (auto simp: delivers_def bump_0)
  then show "\<exists>r. vt_underflow vt s = Some r" by (subst (asm) drain.simps) (auto simp: bind_Some_iff)
  assume r: "vt_underflow vt s = Some r"
  show "case r of
         Inl x \<Rightarrow> bs = [] \<and> e = Broken
       | Inr (None, t) \<Rightarrow> bs = [] \<and> e = Clean
       | Inr (Some b, t) \<Rightarrow> \<exists>cs. bs = b # cs \<and> delivers (vt_bump vt 1 t) cs e"
  proof (cases "\<exists>b t. r = Inr (Some b, t)")
    case False
    with d(2) r show ?thesis
      by (subst (asm) drain.simps) (auto split: sum.splits option.splits prod.splits)
  next
    case True
    then obtain b t where rt: "r = Inr (Some b, t)" by blast
    with r d(1) empty obtain a where a: "vt_area vt t = b # a" "ok t"
      using underflow_byte ok_underflow by blast
    with d(2) r rt obtain cs where cs: "drain vt (vt_bump vt (length (b # a)) t) = Some (cs, e)"
      "bs = (b # a) @ cs"
      by (subst (asm) drain.simps) (auto simp: bind_Some_iff)
    with a have "delivers (vt_bump vt 1 t) (a @ cs) e"
      by (auto simp: delivers_def area_bump bump_bump ok_bump)
    with rt cs(2) show ?thesis by simp
  qed
qed

lemma sgetn_delivers:
  "delivers s bs e \<Longrightarrow>
     \<exists>t. sgetn vt n s = Some (take n bs, length bs < n \<and> e = Broken, t)
       \<and> (n \<le> length bs \<longrightarrow> delivers t (drop n bs) e)"
proof (induction n arbitrary: s bs rule: less_induct)
  case (less n)
  let ?area = "vt_area vt s" and ?k = "min n (length (vt_area vt s))"
  let ?s = "vt_bump vt ?k s"
  obtain cs where bs: "bs = ?area @ cs" using less.prems by (auto simp: delivers_def)
  have rest: "delivers ?s (drop ?k bs) e" using delivers_bump [OF less.prems, of ?k] by simp
  show ?case
  proof (cases "n \<le> length ?area")
    case True
    then have "sgetn vt n s = Some (take n bs, False, ?s)"
      by (subst sgetn.simps) (simp add: Let_def bs min_def)
    with True rest bs show ?thesis by (auto simp: min_def)
  next
    case False
    then have k: "?k = length ?area" "vt_area vt ?s = []" "drop ?k bs = cs"
      by (simp_all add: area_bump bs)
    note under = delivers_underflow [OF rest [unfolded k(3)] k(2)]
    then obtain r where r: "vt_underflow vt ?s = Some r" by blast
    show ?thesis
    proof (cases "\<exists>b t. r = Inr (Some b, t)")
      case True
      then obtain b t where rt: "r = Inr (Some b, t)" by blast
      with under(1) [OF r] obtain ds where ds: "cs = b # ds" "delivers (vt_bump vt 1 t) ds e" by auto
      have "n - ?k - 1 < n" using False by simp
      from less.IH [OF this ds(2)] obtain u where u:
        "sgetn vt (n - ?k - 1) (vt_bump vt 1 t)
          = Some (take (n - ?k - 1) ds, length ds < n - ?k - 1 \<and> e = Broken, u)"
        "n - ?k - 1 \<le> length ds \<longrightarrow> delivers u (drop (n - ?k - 1) ds) e" by blast
      have "sgetn vt n s = Some (?area @ b # take (n - ?k - 1) ds, length ds < n - ?k - 1 \<and> e = Broken, u)"
        using False r rt u(1) by (subst sgetn.simps) (simp add: Let_def k(1))
      moreover have "?area @ b # take (n - ?k - 1) ds = take n bs"
        using False by (simp add: bs ds(1) k(1) take_Cons')
      moreover have "drop (n - ?k - 1) ds = drop n bs" "n - ?k - 1 \<le> length ds \<longleftrightarrow> n \<le> length bs"
        using False by (auto simp: bs ds(1) k(1) drop_Cons')
      ultimately show ?thesis using u(2) by auto
    next
      case end': False
      have "cs = [] \<and> ((\<exists>x. r = Inl x) \<and> e = Broken \<or> (\<exists>t. r = Inr (None, t)) \<and> e = Clean)"
        using end' under(1) [OF r] by (auto split: sum.splits option.splits)
      with False r show ?thesis
        by (subst sgetn.simps) (auto simp: Let_def k(1) bs)
    qed
  qed
qed

text \<open>
  A stream over a buffer and a stream over the list of its bytes: as long as the stream is
  good, the buffer delivers the list; the state bits and the count are the same.
\<close>

definition on_demand :: "'s demand \<Rightarrow> istream \<Rightarrow> bool" where
  "on_demand d s \<longleftrightarrow>
     dm_eof d = st_eof s \<and> dm_fail d = st_fail s \<and> dm_bad d = st_bad s \<and> dm_gcount d = st_gcount s
     \<and> (istream_good s \<longrightarrow> delivers (dm_buf d) (st_rest s) (st_end s))"

lemma on_demand_state:
  "on_demand d s \<Longrightarrow> demand_good d = istream_good s \<and> demand_bool d = istream_bool s"
  by (auto simp: on_demand_def demand_good_def istream_good_def demand_bool_def istream_bool_def)

lemma on_demand_make: "delivers s bs e \<Longrightarrow> on_demand (demand_make s) (istream_make bs e)"
  by (simp add: on_demand_def demand_make_def istream_make_def)

lemma demand_read_sim:
  assumes "on_demand d s"
  shows "\<exists>d'. demand_read vt n d = Some (fst (istream_read n s), d') \<and> on_demand d' (snd (istream_read n s))"
proof (cases "istream_good s")
  case True
  then have d: "delivers (dm_buf d) (st_rest s) (st_end s)" "demand_good d"
    using assms on_demand_state [OF assms] by (auto simp: on_demand_def)
  obtain t where t: "sgetn vt n (dm_buf d)
      = Some (take n (st_rest s), length (st_rest s) < n \<and> st_end s = Broken, t)"
    "n \<le> length (st_rest s) \<longrightarrow> delivers t (drop n (st_rest s)) (st_end s)"
    using sgetn_delivers [OF d(1)] by blast
  show ?thesis
  proof (cases "n \<le> length (st_rest s)")
    case fits: True
    with t d(2) True assms show ?thesis
      by (auto simp: demand_read_def istream_read_def on_demand_def istream_good_def)
  next
    case False
    with t(1) d(2) True assms show ?thesis
      by (cases "st_end s") (auto simp: demand_read_def istream_read_def on_demand_def istream_good_def)
  qed
next
  case False
  with assms on_demand_state [OF assms] show ?thesis
    by (auto simp: demand_read_def istream_read_def on_demand_def istream_good_def)
qed

end

end
