(* ===== verification/Nb_Gzip.thy ===== *)
theory Nb_Gzip
  imports Nb_FileReader
begin

text \<open>
  \<open>netbox/utils/GZipDecompressStream.h\<close>: the stream buffer that decompresses a gzip file in
  pieces of 4092 bytes. The decoder of zlib is an argument: \<open>inflate z inp n\<close> gets its
  state, the bytes of input available and the room for output, and gives its new state,
  the number of bytes consumed, the bytes produced and the return code.
\<close>

section \<open>The stream buffer\<close>

type_synonym 'z inflate = "'z \<Rightarrow> u8 list \<Rightarrow> nat \<Rightarrow> 'z \<times> nat \<times> u8 list \<times> int"

definition Z_OK :: int where "Z_OK = 0"
definition Z_STREAM_END :: int where "Z_STREAM_END = 1"

text \<open>
  \<open>gz_avail\<close> are the \<open>avail_in\<close> bytes at \<open>next_in\<close>, \<open>gz_buf\<close> is \<open>outputBuffer_\<close>; the get area
  is given by its three offsets into it.
\<close>

record 'z gz =
  gz_input :: istream
  gz_avail :: "u8 list"
  gz_z :: 'z
  gz_error :: int
  gz_buf :: "u8 list"
  gz_eback :: nat
  gz_gptr :: nat
  gz_egptr :: nat

definition GZ_BufferSize :: nat where "GZ_BufferSize = 4096"

definition gz_make :: "istream \<Rightarrow> 'z \<Rightarrow> int \<Rightarrow> 'z gz" where
  "gz_make input z0 init_error =
     \<lparr>gz_input = input, gz_avail = [], gz_z = z0, gz_error = init_error,
      gz_buf = replicate GZ_BufferSize 0, gz_eback = 4, gz_gptr = 4, gz_egptr = 4\<rparr>"

definition gz_fillInputBuffer :: "'z gz \<Rightarrow> nat \<times> 'z gz" where
  "gz_fillInputBuffer s =
     (case istream_read GZ_BufferSize (gz_input s) of (bs, input) \<Rightarrow>
        let avail = take (st_gcount input) bs in
        (length avail, s\<lparr>gz_input := input, gz_avail := avail\<rparr>))"

text \<open>One pass of the loop body: refill, inflate; the output and the room that is left.\<close>

definition gz_pass :: "'z inflate \<Rightarrow> 'z gz \<Rightarrow> nat \<Rightarrow> nat \<Rightarrow> 'z gz \<times> u8 list \<times> nat \<times> nat" where
  "gz_pass inflate s n count =
     (let (count, s) = (if gz_avail s = [] then gz_fillInputBuffer s else (count, s)) in
      if gz_avail s \<noteq> [] then
        (case inflate (gz_z s) (gz_avail s) n of (z, c, out, ret) \<Rightarrow>
           (s\<lparr>gz_z := z, gz_avail := drop c (gz_avail s), gz_error := ret\<rparr>, out, n - length out, count))
      else (s, [], n, count))"

partial_function (option) gz_loop ::
  "'z inflate \<Rightarrow> 'z gz \<Rightarrow> nat \<Rightarrow> nat \<Rightarrow> ('z gz \<times> u8 list) option" where
  "gz_loop inflate s n count =
     (case gz_pass inflate s n count of (s, out, n, count) \<Rightarrow>
        if gz_error s = Z_OK \<and> n \<noteq> 0 \<and> count \<noteq> 0 then
          do { x \<leftarrow> gz_loop inflate s n count; Some (fst x, out @ snd x) }
        else Some (s, out))"

text \<open>
  After the loop: at the end of the compressed data the input that was read too far is
  given back, with \<open>clear\<close> and \<open>seekg\<close>.
\<close>

definition istream_give_back :: "u8 list \<Rightarrow> istream \<Rightarrow> istream" where
  "istream_give_back bs s = s\<lparr>st_rest := bs @ st_rest s, st_eof := False, st_fail := False, st_bad := False\<rparr>"

definition gz_unzipFromStream :: "'z inflate \<Rightarrow> 'z gz \<Rightarrow> nat \<Rightarrow> ('z gz \<times> u8 list) option" where
  "gz_unzipFromStream inflate s n =
     do { (s, out) \<leftarrow> gz_loop inflate s n (length (gz_avail s));
          if gz_error s = Z_STREAM_END \<and> gz_avail s \<noteq> [] then
            Some (s\<lparr>gz_input := istream_give_back (gz_avail s) (gz_input s), gz_avail := []\<rparr>, out)
          else Some (s, out) }"

text \<open>\<open>std::memcpy\<close> inside one array: undefined out of bounds and for overlapping ranges.\<close>

definition memcpy_within :: "u8 list \<Rightarrow> nat \<Rightarrow> nat \<Rightarrow> nat \<Rightarrow> u8 list option" where
  "memcpy_within bs dst src n =
     (if n = 0 then Some bs
      else if length bs < src + n \<or> length bs < dst + n then None
      else if dst < src + n \<and> src < dst + n then None
      else Some (take dst bs @ take n (drop src bs) @ drop (dst + n) bs))"

definition gz_underflow :: "'z inflate \<Rightarrow> 'z gz \<Rightarrow> (u8 option \<times> 'z gz) option" where
  "gz_underflow inflate s =
     (if gz_gptr s < gz_egptr s then Some (Some (gz_buf s ! gz_gptr s), s)
      else
        let count = gz_gptr s - gz_eback s;
            count = (if count > 4 then 4 else count) in
        do { buf \<leftarrow> memcpy_within (gz_buf s) (4 - count) (gz_gptr s - count) count;
             (s, out) \<leftarrow> gz_unzipFromStream inflate (s\<lparr>gz_buf := buf\<rparr>) (GZ_BufferSize - 4);
             let s = s\<lparr>gz_buf := take 4 buf @ out @ drop (4 + length out) buf\<rparr>;
                 sz = length out in
             if sz = 0 then Some (None, s)
             else
               let s = s\<lparr>gz_eback := 4 - count, gz_gptr := 4, gz_egptr := 4 + sz\<rparr> in
               Some (Some (gz_buf s ! gz_gptr s), s) })"

text \<open>
  Reading the stream to its end, as \<open>std::istream\<close> does: take the get area, then ask for
  more.
\<close>

partial_function (option) gz_drain :: "'z inflate \<Rightarrow> 'z gz \<Rightarrow> (u8 list \<times> 'z gz) option" where
  "gz_drain inflate s =
     do { x \<leftarrow> gz_underflow inflate s;
          case fst x of
            None \<Rightarrow> Some ([], snd x)
          | Some b \<Rightarrow>
              let s = snd x;
                  chunk = take (gz_egptr s - gz_gptr s) (drop (gz_gptr s) (gz_buf s)) in
              do { y \<leftarrow> gz_drain inflate (s\<lparr>gz_gptr := gz_egptr s\<rparr>); Some (chunk @ fst y, snd y) } }"

section \<open>What zlib documents of inflate\<close>

text \<open>
  \<open>future z inp\<close> are the bytes that decoding \<open>inp\<close> from state \<open>z\<close> gives, \<open>complete z inp\<close>
  says that \<open>inp\<close> holds the rest of a valid stream, \<open>ended z\<close> that the end of the stream has
  been reached. With input and room, \<open>inflate\<close> stays within both, makes progress, and its
  output is the next part of what is decoded; after the end it only reports the end again.
\<close>

definition inflate_documented ::
  "'z inflate \<Rightarrow> ('z \<Rightarrow> u8 list \<Rightarrow> u8 list) \<Rightarrow> ('z \<Rightarrow> u8 list \<Rightarrow> bool) \<Rightarrow> ('z \<Rightarrow> bool) \<Rightarrow> bool" where
  "inflate_documented inflate future complete ended \<longleftrightarrow>
     (\<forall>z. \<not> complete z [])
     \<and> (\<forall>z inp n z' c out ret. inp \<noteq> [] \<longrightarrow> 0 < n \<longrightarrow> inflate z inp n = (z', c, out, ret) \<longrightarrow>
          c \<le> length inp \<and> length out \<le> n
          \<and> (ended z \<longrightarrow> ret = Z_STREAM_END \<and> ended z' \<and> out = [])
          \<and> (\<forall>ys. complete z (inp @ ys) \<longrightarrow>
               future z (inp @ ys) = out @ (if ret = Z_OK then future z' (drop c inp @ ys) else [])
               \<and> (ret = Z_OK \<longrightarrow> 0 < c + length out \<and> complete z' (drop c inp @ ys))
               \<and> (ret \<noteq> Z_OK \<longrightarrow> ret = Z_STREAM_END \<and> ended z')))"

lemma inflate_step:
  assumes law: "inflate_documented inflate future complete ended"
    and step: "inp \<noteq> []" "0 < n" "inflate z inp n = (z', c, out, ret)" and "complete z (inp @ ys)"
  shows "c \<le> length inp" and "length out \<le> n"
    and "future z (inp @ ys) = out @ (if ret = Z_OK then future z' (drop c inp @ ys) else [])"
    and "ret = Z_OK \<Longrightarrow> 0 < c + length out \<and> complete z' (drop c inp @ ys)"
    and "ret \<noteq> Z_OK \<Longrightarrow> ret = Z_STREAM_END \<and> ended z'"
proof -
  note l = law [unfolded inflate_documented_def, THEN conjunct2, rule_format, OF step]
  show "c \<le> length inp" "length out \<le> n" using l by blast+
  show "future z (inp @ ys) = out @ (if ret = Z_OK then future z' (drop c inp @ ys) else [])"
    using l assms(5) by blast
  show "ret = Z_OK \<Longrightarrow> 0 < c + length out \<and> complete z' (drop c inp @ ys)"
    "ret \<noteq> Z_OK \<Longrightarrow> ret = Z_STREAM_END \<and> ended z'"
    using l assms(5) by blast+
qed

section \<open>The loop delivers the next bytes of the decoded data\<close>

text \<open>All the input that is left.\<close>

definition gz_in :: "'z gz \<Rightarrow> u8 list" where
  "gz_in s = gz_avail s @ istream_bytes (gz_input s)"

lemma gz_fill:
  assumes "istream_clean (gz_input s)"
  obtains input where "gz_fillInputBuffer s
      = (length (take GZ_BufferSize (istream_bytes (gz_input s))),
         s\<lparr>gz_input := input, gz_avail := take GZ_BufferSize (istream_bytes (gz_input s))\<rparr>)"
    and "istream_clean input"
    and "istream_bytes input = drop GZ_BufferSize (istream_bytes (gz_input s))"
proof -
  obtain bs input where r: "istream_read GZ_BufferSize (gz_input s) = (bs, input)" by fastforce
  note split = istream_read_split [OF assms r]
  have "take (st_gcount input) bs = bs" using split(3) by simp
  then have "gz_fillInputBuffer s = (length bs, s\<lparr>gz_input := input, gz_avail := bs\<rparr>)"
    by (simp add: gz_fillInputBuffer_def r Let_def)
  from that [OF this [unfolded split(1)] split(4,2)] show thesis .
qed

text \<open>The state of the decoding: before the end, with decoded bytes to come, or after it.\<close>

definition gz_running :: "('z \<Rightarrow> u8 list \<Rightarrow> bool) \<Rightarrow> 'z gz \<Rightarrow> bool" where
  "gz_running complete s \<longleftrightarrow>
     istream_clean (gz_input s) \<and> gz_error s = Z_OK \<and> complete (gz_z s) (gz_in s)"

definition gz_ended :: "('z \<Rightarrow> bool) \<Rightarrow> 'z gz \<Rightarrow> bool" where
  "gz_ended ended s \<longleftrightarrow>
     istream_clean (gz_input s) \<and> gz_error s = Z_STREAM_END \<and> ended (gz_z s)"

definition gz_work :: "'z gz \<Rightarrow> nat \<Rightarrow> nat" where
  "gz_work s n = length (gz_in s) + n"

definition same_area :: "'z gz \<Rightarrow> 'z gz \<Rightarrow> bool" where
  "same_area s s' \<longleftrightarrow> gz_buf s' = gz_buf s \<and> gz_eback s' = gz_eback s \<and> gz_gptr s' = gz_gptr s
     \<and> gz_egptr s' = gz_egptr s"

text \<open>
  One pass before the end: the bytes it produces are the next ones, and it leaves the room
  full, or the input buffer empty, or the stream at its end.
\<close>

lemma gz_refill:
  assumes "istream_clean (gz_input s)" and "gz_in s \<noteq> []" and "gz_avail s \<noteq> [] \<Longrightarrow> 0 < count0"
  obtains s1 count where
    "(if gz_avail s = [] then gz_fillInputBuffer s else (count0, s)) = (count, s1)"
    and "0 < count" and "gz_avail s1 \<noteq> []" and "gz_in s1 = gz_in s" and "gz_z s1 = gz_z s"
    and "gz_error s1 = gz_error s" and "istream_clean (gz_input s1)" and "same_area s s1"
proof (cases "gz_avail s = []")
  case True
  obtain input where f: "gz_fillInputBuffer s
      = (length (take GZ_BufferSize (istream_bytes (gz_input s))),
         s\<lparr>gz_input := input, gz_avail := take GZ_BufferSize (istream_bytes (gz_input s))\<rparr>)"
    "istream_clean input" "istream_bytes input = drop GZ_BufferSize (istream_bytes (gz_input s))"
    using gz_fill [OF assms(1)] by metis
  from True assms(2) have "istream_bytes (gz_input s) \<noteq> []" by (simp add: gz_in_def)
  with f True show thesis
    by (intro that [of "length (take GZ_BufferSize (istream_bytes (gz_input s)))"
          "s\<lparr>gz_input := input, gz_avail := take GZ_BufferSize (istream_bytes (gz_input s))\<rparr>"])
      (simp_all add: gz_in_def GZ_BufferSize_def same_area_def)
next
  case False
  with assms show thesis by (intro that [of count0 s]) (simp_all add: same_area_def)
qed

lemma gz_pass_running:
  assumes law: "inflate_documented inflate future complete ended"
    and run: "gz_running complete s" and n: "0 < n" and count0: "gz_avail s \<noteq> [] \<Longrightarrow> 0 < count0"
  obtains s' out count where "gz_pass inflate s n count0 = (s', out, n - length out, count)"
    and "length out \<le> n" and "same_area s s'" and "0 < count"
    and "gz_running complete s' \<and> future (gz_z s) (gz_in s) = out @ future (gz_z s') (gz_in s')
          \<and> gz_work s' (n - length out) < gz_work s n
        \<or> gz_ended ended s' \<and> future (gz_z s) (gz_in s) = out"
proof -
  have c: "complete (gz_z s) (gz_in s)" "istream_clean (gz_input s)" "gz_error s = Z_OK"
    using run by (auto simp: gz_running_def)
  have "gz_in s \<noteq> []" using law c(1) by (auto simp: inflate_documented_def)
  from gz_refill [OF c(2) this count0] obtain s1 count where
    s1: "(if gz_avail s = [] then gz_fillInputBuffer s else (count0, s)) = (count, s1)" "0 < count"
      "gz_avail s1 \<noteq> []" "gz_in s1 = gz_in s" "gz_z s1 = gz_z s" "istream_clean (gz_input s1)"
      "same_area s s1"
    by metis
  obtain z' k out ret where r: "inflate (gz_z s) (gz_avail s1) n = (z', k, out, ret)"
    by (metis prod_cases4)
  let ?ys = "istream_bytes (gz_input s1)"
  have inp: "gz_avail s1 @ ?ys = gz_in s" using s1(4) by (simp add: gz_in_def)
  note step = inflate_step [OF law s1(3) n r c(1) [folded inp]]
  note now = step(3-5) [unfolded inp]
  let ?s = "s1\<lparr>gz_z := z', gz_avail := drop k (gz_avail s1), gz_error := ret\<rparr>"
  have "gz_pass inflate s n count0 = (?s, out, n - length out, count)"
    using s1(1,3,5) r by (simp add: gz_pass_def)
  moreover have "same_area s ?s" using s1(7) by (simp add: same_area_def)
  moreover have "gz_work ?s (n - length out) < gz_work s n" if "ret = Z_OK"
  proof -
    have "0 < k + length out" using now(2) that by blast
    then show ?thesis using step(1,2) by (simp add: gz_work_def gz_in_def inp [unfolded gz_in_def, symmetric] del: add_gr_0)
  qed
  moreover have "gz_running complete ?s \<and> future (gz_z s) (gz_in s) = out @ future (gz_z ?s) (gz_in ?s)" if "ret = Z_OK"
    using that now s1(6) by (simp add: gz_running_def gz_in_def)
  moreover have "gz_ended ended ?s \<and> future (gz_z s) (gz_in s) = out" if "ret \<noteq> Z_OK"
    using that now s1(6) by (simp add: gz_ended_def)
  ultimately show thesis using that [of ?s out count] s1(2) step(2) by blast
qed

lemma gz_loop_running:
  assumes law: "inflate_documented inflate future complete ended"
    and "gz_running complete s" and "0 < n" and "gz_avail s \<noteq> [] \<Longrightarrow> 0 < count0"
  shows "\<exists>s' out. gz_loop inflate s n count0 = Some (s', out) \<and> length out \<le> n \<and> same_area s s'
    \<and> (gz_running complete s' \<and> length out = n
          \<and> future (gz_z s) (gz_in s) = out @ future (gz_z s') (gz_in s')
       \<or> gz_ended ended s' \<and> future (gz_z s) (gz_in s) = out)"
  using assms(2-)
proof (induction "gz_work s n" arbitrary: s n count0 rule: less_induct)
  case less
  obtain s1 out count where p: "gz_pass inflate s n count0 = (s1, out, n - length out, count)"
    "length out \<le> n" "same_area s s1" "0 < count"
    and cases: "gz_running complete s1 \<and> future (gz_z s) (gz_in s) = out @ future (gz_z s1) (gz_in s1)
          \<and> gz_work s1 (n - length out) < gz_work s n
        \<or> gz_ended ended s1 \<and> future (gz_z s) (gz_in s) = out"
    using gz_pass_running [OF law less.prems] by metis
  note loop = gz_loop.simps [of inflate s n count0]
  show ?case
  proof (cases "gz_running complete s1 \<and> n - length out \<noteq> 0")
    case True
    then have run: "gz_running complete s1" "0 < n - length out" "gz_error s1 = Z_OK"
      and fut: "future (gz_z s) (gz_in s) = out @ future (gz_z s1) (gz_in s1)"
      and work: "gz_work s1 (n - length out) < gz_work s n"
      using cases by (auto simp: gz_running_def gz_ended_def Z_OK_def Z_STREAM_END_def)
    from less.hyps [OF work run(1,2) p(4)] obtain s' out' where
      "gz_loop inflate s1 (n - length out) count = Some (s', out')" "length out' \<le> n - length out"
      "same_area s1 s'"
      "gz_running complete s' \<and> length out' = n - length out
          \<and> future (gz_z s1) (gz_in s1) = out' @ future (gz_z s') (gz_in s')
       \<or> gz_ended ended s' \<and> future (gz_z s1) (gz_in s1) = out'"
      by metis
    with p run fut show ?thesis by (auto simp: loop same_area_def)
  next
    case False
    with p cases have "gz_loop inflate s n count0 = Some (s1, out)"
      by (auto simp: loop gz_ended_def gz_running_def Z_OK_def Z_STREAM_END_def)
    with p(2,3) cases False show ?thesis by auto
  qed
qed

lemma gz_loop_ended:
  assumes law: "inflate_documented inflate future complete ended"
    and e: "gz_ended ended s" and "gz_avail s = []" and n: "0 < n"
  shows "\<exists>s'. gz_loop inflate s n count0 = Some (s', []) \<and> same_area s s' \<and> gz_ended ended s'"
proof -
  have s: "istream_clean (gz_input s)" "gz_error s = Z_STREAM_END" "ended (gz_z s)"
    using e by (auto simp: gz_ended_def)
  obtain input where f: "gz_fillInputBuffer s
      = (length (take GZ_BufferSize (istream_bytes (gz_input s))),
         s\<lparr>gz_input := input, gz_avail := take GZ_BufferSize (istream_bytes (gz_input s))\<rparr>)"
    "istream_clean input"
    using gz_fill [OF s(1)] by metis
  let ?inp = "take GZ_BufferSize (istream_bytes (gz_input s))"
  show ?thesis
  proof (cases "?inp = []")
    case True
    with f assms(3) s n show ?thesis
      by (subst gz_loop.simps)
        (simp add: gz_pass_def gz_ended_def same_area_def Z_OK_def Z_STREAM_END_def)
  next
    case False
    obtain z' k out ret where r: "inflate (gz_z s) ?inp n = (z', k, out, ret)" by (metis prod_cases4)
    have "ret = Z_STREAM_END" "ended z'" "out = []"
      using law [unfolded inflate_documented_def, THEN conjunct2, rule_format, OF False n r] s(3) by auto
    with f assms(3) r False s show ?thesis
      by (subst gz_loop.simps)
        (simp add: gz_pass_def gz_ended_def same_area_def Z_OK_def Z_STREAM_END_def)
  qed
qed

section \<open>Refilling the get area\<close>

definition gz_state :: "('z \<Rightarrow> u8 list \<Rightarrow> bool) \<Rightarrow> ('z \<Rightarrow> bool) \<Rightarrow> 'z gz \<Rightarrow> bool" where
  "gz_state complete ended s \<longleftrightarrow> gz_running complete s \<or> gz_ended ended s \<and> gz_avail s = []"

text \<open>The bytes that have not been decoded yet.\<close>

definition gz_future :: "('z \<Rightarrow> u8 list \<Rightarrow> u8 list) \<Rightarrow> 'z gz \<Rightarrow> u8 list" where
  "gz_future future s = (if gz_error s = Z_OK then future (gz_z s) (gz_in s) else [])"

lemma istream_clean_give_back: "istream_clean s \<Longrightarrow> istream_clean (istream_give_back bs s)"
  by (simp add: istream_clean_def istream_give_back_def)

lemma gz_unzip:
  assumes law: "inflate_documented inflate future complete ended"
    and s: "gz_state complete ended s" and n: "0 < n"
  obtains s' where "gz_unzipFromStream inflate s n = Some (s', take n (gz_future future s))"
    and "gz_state complete ended s'" and "gz_future future s' = drop n (gz_future future s)"
    and "same_area s s'"
proof (cases "gz_running complete s")
  case True
  then have ok: "gz_error s = Z_OK" by (simp add: gz_running_def)
  have "gz_avail s \<noteq> [] \<Longrightarrow> 0 < length (gz_avail s)" by simp
  from gz_loop_running [OF law True n this] obtain s1 out where
    l: "gz_loop inflate s n (length (gz_avail s)) = Some (s1, out)" "length out \<le> n" "same_area s s1"
    "gz_running complete s1 \<and> length out = n
          \<and> future (gz_z s) (gz_in s) = out @ future (gz_z s1) (gz_in s1)
       \<or> gz_ended ended s1 \<and> future (gz_z s) (gz_in s) = out"
    by metis
  from l(4) show thesis
  proof
    assume a: "gz_running complete s1 \<and> length out = n
        \<and> future (gz_z s) (gz_in s) = out @ future (gz_z s1) (gz_in s1)"
    with l ok show thesis
      by (intro that [of s1])
        (auto simp: gz_unzipFromStream_def gz_state_def gz_future_def gz_running_def Z_OK_def
          Z_STREAM_END_def)
  next
    assume a: "gz_ended ended s1 \<and> future (gz_z s) (gz_in s) = out"
    let ?s = "if gz_avail s1 = [] then s1
      else s1\<lparr>gz_input := istream_give_back (gz_avail s1) (gz_input s1), gz_avail := []\<rparr>"
    have "gz_unzipFromStream inflate s n = Some (?s, out)"
      using l(1) a by (auto simp: gz_unzipFromStream_def gz_ended_def)
    moreover have "gz_ended ended ?s \<and> gz_avail ?s = []"
      using a by (auto simp: gz_ended_def istream_clean_give_back)
    moreover have "same_area s ?s" using l(3) by (simp add: same_area_def)
    ultimately show thesis
      using a l(2) ok
      by (intro that [of ?s])
        (auto simp: gz_state_def gz_future_def gz_ended_def Z_OK_def Z_STREAM_END_def)
  qed
next
  case False
  with s have e: "gz_ended ended s" "gz_avail s = []" by (auto simp: gz_state_def)
  from gz_loop_ended [OF law e n, of "length (gz_avail s)"] obtain s1 where
    l: "gz_loop inflate s n (length (gz_avail s)) = Some (s1, [])" "same_area s s1" "gz_ended ended s1"
    by metis
  let ?s = "if gz_avail s1 = [] then s1
    else s1\<lparr>gz_input := istream_give_back (gz_avail s1) (gz_input s1), gz_avail := []\<rparr>"
  have "gz_unzipFromStream inflate s n = Some (?s, [])"
    using l by (auto simp: gz_unzipFromStream_def gz_ended_def)
  moreover have "gz_ended ended ?s \<and> gz_avail ?s = []"
    using l(3) by (auto simp: gz_ended_def istream_clean_give_back)
  moreover have "same_area s ?s" using l(2) by (simp add: same_area_def)
  ultimately show thesis
    using e(1) by (intro that [of ?s])
      (auto simp: gz_state_def gz_future_def gz_ended_def Z_OK_def Z_STREAM_END_def)
qed

text \<open>
  A get area that has been read to its end: \<open>c\<close> bytes kept for putback and a chunk of
  \<open>len\<close> bytes. The next call keeps \<open>min 4 (c + len)\<close> bytes, and copies them by \<open>len\<close>
  positions.
\<close>

definition gz_read_out :: "'z gz \<Rightarrow> nat \<Rightarrow> nat \<Rightarrow> bool" where
  "gz_read_out s c len \<longleftrightarrow> length (gz_buf s) = 4096 \<and> c \<le> 4 \<and> len \<le> 4092
     \<and> gz_eback s = 4 - c \<and> gz_gptr s = 4 + len \<and> gz_egptr s = 4 + len"

lemma memcpy_within_length: "memcpy_within bs dst src n = Some bs' \<Longrightarrow> length bs' = length bs"
  by (auto simp: memcpy_within_def split: if_splits)

lemma gz_state_same:
  "gz_input t = gz_input s \<Longrightarrow> gz_avail t = gz_avail s \<Longrightarrow> gz_z t = gz_z s \<Longrightarrow> gz_error t = gz_error s \<Longrightarrow>
     gz_state complete ended t = gz_state complete ended s \<and> gz_future future t = gz_future future s"
  by (simp add: gz_state_def gz_running_def gz_ended_def gz_future_def gz_in_def)

lemma gz_underflow_overlap:
  assumes "gz_read_out s c len" and "len < min 4 (c + len)"
  shows "gz_underflow inflate s = None"
proof -
  have "gz_gptr s - gz_eback s = c + len" using assms(1) by (auto simp: gz_read_out_def)
  with assms show ?thesis
    by (auto simp: gz_underflow_def gz_read_out_def memcpy_within_def Let_def)
qed

lemma gz_underflow_next:
  assumes law: "inflate_documented inflate future complete ended"
    and s: "gz_state complete ended s" and area: "gz_read_out s c len" and "min 4 (c + len) \<le> len"
    and fut: "gz_future future s = fut"
  obtains s' where "gz_underflow inflate s = Some (if fut = [] then None else Some (fut ! 0), s')"
    and "gz_state complete ended s'" and "gz_future future s' = drop 4092 fut"
    and "fut \<noteq> [] \<Longrightarrow> gz_gptr s' = 4"
    and "fut \<noteq> [] \<Longrightarrow> take (gz_egptr s' - gz_gptr s') (drop (gz_gptr s') (gz_buf s')) = take 4092 fut"
    and "fut \<noteq> [] \<Longrightarrow>
      gz_read_out (s'\<lparr>gz_gptr := gz_egptr s'\<rparr>) (min 4 (c + len)) (min 4092 (length fut))"
proof -
  let ?k = "min 4 (c + len)"
  have "gz_gptr s - gz_eback s = c + len" using area by (auto simp: gz_read_out_def)
  then have k: "(if gz_gptr s - gz_eback s > 4 then 4 else gz_gptr s - gz_eback s) = ?k" by simp
  have "\<exists>b. memcpy_within (gz_buf s) (4 - ?k) (gz_gptr s - ?k) ?k = Some b"
    using area assms(4) by (auto simp: gz_read_out_def memcpy_within_def)
  then obtain buf where buf: "memcpy_within (gz_buf s) (4 - ?k) (gz_gptr s - ?k) ?k = Some buf" ..
  then have len: "length buf = 4096"
    using area memcpy_within_length by (metis gz_read_out_def)
  let ?t = "s\<lparr>gz_buf := buf\<rparr>"
  have "gz_state complete ended ?t" "gz_future future ?t = fut"
    using s fut gz_state_same [of ?t s complete ended future] by auto
  with gz_unzip [OF law this(1), of 4092] obtain u where
    u: "gz_unzipFromStream inflate ?t 4092 = Some (u, take 4092 fut)" "gz_state complete ended u"
      "gz_future future u = drop 4092 fut" "same_area ?t u"
    by (metis zero_less_numeral)
  have ub: "gz_buf u = buf" using u(4) by (simp add: same_area_def)
  let ?v = "u\<lparr>gz_buf := take 4 buf @ take 4092 fut @ drop (4 + length (take 4092 fut)) buf\<rparr>"
  let ?w = "?v\<lparr>gz_eback := 4 - ?k, gz_gptr := 4, gz_egptr := 4 + length (take 4092 fut)\<rparr>"
  have same: "gz_state complete ended ?v" "gz_future future ?v = drop 4092 fut"
    "gz_state complete ended ?w" "gz_future future ?w = drop 4092 fut"
    using u(2,3) gz_state_same [of ?v u complete ended future]
      gz_state_same [of ?w u complete ended future] by auto
  have "\<not> gz_gptr s < gz_egptr s" using area by (simp add: gz_read_out_def)
  then have unf: "gz_underflow inflate s = (if take 4092 fut = [] then Some (None, ?v)
      else Some (Some (gz_buf ?w ! gz_gptr ?w), ?w))"
    using buf u(1) ub by (simp add: gz_underflow_def k Let_def GZ_BufferSize_def)
  show thesis
  proof (cases "fut = []")
    case True
    with unf same show ?thesis by (intro that [of ?v]) simp_all
  next
    case False
    then have "gz_buf ?w ! gz_gptr ?w = fut ! 0"
      using len by (simp add: nth_append)
    moreover have "take (min (length fut) 4092) fut = take 4092 fut" by (simp add: min_def)
    ultimately show ?thesis
      using unf same False len by (intro that [of ?w]) (simp_all add: gz_read_out_def)
  qed
qed

section \<open>Reading the decoded stream to its end\<close>

lemma gz_drain_end:
  assumes "inflate_documented inflate future complete ended" and "gz_state complete ended s"
    and "gz_read_out s c len" and "min 4 (c + len) \<le> len" and "gz_future future s = []"
  shows "map_option fst (gz_drain inflate s) = Some []"
proof -
  obtain s' where "gz_underflow inflate s = Some (None, s')"
    using gz_underflow_next [OF assms] by metis
  then show ?thesis by (subst gz_drain.simps) simp
qed

lemma gz_drain_next:
  assumes law: "inflate_documented inflate future complete ended" and "gz_state complete ended s"
    and "gz_read_out s c len" and "min 4 (c + len) \<le> len" and "gz_future future s = fut" and "fut \<noteq> []"
  obtains t where "gz_drain inflate s = map_option (\<lambda>y. (take 4092 fut @ fst y, snd y)) (gz_drain inflate t)"
    and "gz_state complete ended t" and "gz_future future t = drop 4092 fut"
    and "gz_read_out t (min 4 (c + len)) (min 4092 (length fut))"
proof -
  obtain s' where s': "gz_underflow inflate s = Some (Some (fut ! 0), s')"
    "gz_state complete ended s'" "gz_future future s' = drop 4092 fut"
    "take (gz_egptr s' - gz_gptr s') (drop (gz_gptr s') (gz_buf s')) = take 4092 fut"
    "gz_read_out (s'\<lparr>gz_gptr := gz_egptr s'\<rparr>) (min 4 (c + len)) (min 4092 (length fut))"
    by (rule gz_underflow_next [OF assms(1-5)]) (simp add: assms(6))
  let ?t = "s'\<lparr>gz_gptr := gz_egptr s'\<rparr>"
  have "gz_state complete ended ?t" "gz_future future ?t = drop 4092 fut"
    using s' gz_state_same [of ?t s' complete ended future] by auto
  moreover have "gz_drain inflate s = map_option (\<lambda>y. (take 4092 fut @ fst y, snd y)) (gz_drain inflate ?t)"
    by (subst gz_drain.simps) (simp add: s'(1,4) Let_def map_option_case split: option.splits)
  ultimately show thesis using that s'(5) by blast
qed

lemma gz_drain_full_chunk:
  assumes law: "inflate_documented inflate future complete ended" and "gz_state complete ended s"
    and "gz_read_out s c 4092" and "gz_future future s = fut"
  shows "map_option fst (gz_drain inflate s) = (if length fut mod 4092 \<in> {1, 2, 3} then None else Some fut)"
  using assms(2-)
proof (induction "length fut" arbitrary: s c fut rule: less_induct)
  case less
  have k: "min 4 (c + 4092) = (4 :: nat)" by simp
  show ?case
  proof (cases "fut = []")
    case True
    with gz_drain_end [OF law less.prems(1,2)] less.prems(3) k show ?thesis by simp
  next
    case False
    from gz_drain_next [OF law less.prems(1,2) _ less.prems(3) False] k obtain t where
      t: "gz_drain inflate s = map_option (\<lambda>y. (take 4092 fut @ fst y, snd y)) (gz_drain inflate t)"
      "gz_state complete ended t" "gz_future future t = drop 4092 fut"
      "gz_read_out t 4 (min 4092 (length fut))"
      by (metis (no_types, lifting) numeral_le_iff semiring_norm(71,68) le_refl min.cobounded1)
    then have map: "map_option fst (gz_drain inflate s)
        = map_option ((@) (take 4092 fut)) (map_option fst (gz_drain inflate t))"
      by (simp add: option.map_comp comp_def)
    show ?thesis
    proof (cases "4092 \<le> length fut")
      case True
      with t(4) have "gz_read_out t 4 4092" by (simp add: min_def)
      from less.hyps [OF _ t(2) this t(3)] True False
      have "map_option fst (gz_drain inflate t)
          = (if (length fut - 4092) mod 4092 \<in> {1, 2, 3} then None else Some (drop 4092 fut))"
        by simp
      with map True show ?thesis by (simp add: le_mod_geq)
    next
      case short: False
      with t have t': "gz_read_out t 4 (length fut)" "gz_future future t = []" by (simp_all add: min_def)
      show ?thesis
      proof (cases "length fut < 4")
        case True
        from False have "0 < length fut" by simp
        with True have "length fut = 1 \<or> length fut = 2 \<or> length fut = 3" by arith
        then have "length fut mod 4092 \<in> {1, 2, 3}" by auto
        moreover have "gz_drain inflate t = None"
          using gz_underflow_overlap [OF t'(1)] True by (subst gz_drain.simps) simp
        ultimately show ?thesis using map by simp
      next
        case long: False
        with gz_drain_end [OF law t(2) t'(1) _ t'(2)]
        have "map_option fst (gz_drain inflate t) = Some []" by simp
        with map short long show ?thesis by auto
      qed
    qed
  qed
qed

section \<open>What a gzip file reads as\<close>

lemma gz_make_start:
  assumes "istream_clean input" and "complete z0 (istream_bytes input)"
  shows "gz_state complete ended (gz_make input z0 Z_OK)" and "gz_read_out (gz_make input z0 Z_OK) 0 0"
    and "gz_future future (gz_make input z0 Z_OK) = future z0 (istream_bytes input)"
  using assms
  by (simp_all add: gz_make_def gz_state_def gz_running_def gz_read_out_def gz_future_def gz_in_def
      GZ_BufferSize_def)

lemma gz_drain_from_start:
  assumes law: "inflate_documented inflate future complete ended" and "gz_state complete ended s"
    and "gz_read_out s 0 0" and "gz_future future s = fut"
  shows "map_option fst (gz_drain inflate s)
    = (if 4092 < length fut \<and> length fut mod 4092 \<in> {1, 2, 3} then None else Some fut)"
proof (cases "fut = []")
  case True
  with gz_drain_end [OF assms(1-3)] assms(4) show ?thesis by simp
next
  case False
  have le: "min 4 (0 + 0) \<le> (0 :: nat)" by simp
  obtain t where
    t: "gz_drain inflate s = map_option (\<lambda>y. (take 4092 fut @ fst y, snd y)) (gz_drain inflate t)"
    "gz_state complete ended t" "gz_future future t = drop 4092 fut"
    "gz_read_out t 0 (min 4092 (length fut))"
    by (rule gz_drain_next [OF assms(1-3) le assms(4) False]) simp
  then have map: "map_option fst (gz_drain inflate s)
      = map_option ((@) (take 4092 fut)) (map_option fst (gz_drain inflate t))"
    by (simp add: option.map_comp comp_def)
  show ?thesis
  proof (cases "4092 \<le> length fut")
    case True
    with t(4) have "gz_read_out t 0 4092" by (simp add: min_def)
    with gz_drain_full_chunk [OF law t(2) this t(3)] True
    have "map_option fst (gz_drain inflate t)
        = (if (length fut - 4092) mod 4092 \<in> {1, 2, 3} then None else Some (drop 4092 fut))"
      by simp
    moreover have "length fut mod 4092 \<noteq> 0" if "length fut mod 4092 \<in> {1, 2, 3}" using that by auto
    then have "4092 < length fut" if "length fut mod 4092 \<in> {1, 2, 3}"
      using that True by (cases "length fut = 4092") auto
    ultimately show ?thesis using map True by (auto simp: le_mod_geq)
  next
    case short: False
    with t have "gz_read_out t 0 (length fut)" "gz_future future t = []" by (simp_all add: min_def)
    with gz_drain_end [OF law t(2)] have "map_option fst (gz_drain inflate t) = Some []" by simp
    with map short show ?thesis by auto
  qed
qed

text \<open>
  C17. Reading a gzip file to its end. If the file holds a complete stream, the decoder
  behaves as zlib documents, and the decoded data have \<open>T\<close> bytes, then reading delivers
  exactly the decoded data, whatever the way the decoder cuts them into pieces; except that
  with more than one buffer of data and \<open>T mod 4092\<close> in 1..3 the last call copies the putback
  bytes with \<open>memcpy\<close> between overlapping ranges, which is undefined.
\<close>

lemma gzip_stream_delivers_decoded:
  assumes "inflate_documented inflate future complete ended"
    and "istream_clean input" and "complete z0 (istream_bytes input)"
  shows "map_option fst (gz_drain inflate (gz_make input z0 Z_OK))
    = (let fut = future z0 (istream_bytes input) in
       if 4092 < length fut \<and> length fut mod 4092 \<in> {1, 2, 3} then None else Some fut)"
  using gz_drain_from_start [OF assms(1) gz_make_start(1) gz_make_start(2) gz_make_start(3)] assms
  by (simp add: Let_def)

text \<open>A decoder for the witness: it copies its input, a byte at a time, up to a zero byte.\<close>

definition inflate_copy :: "bool inflate" where
  "inflate_copy z inp n =
     (if z then (True, 0, [], Z_STREAM_END)
      else case inp of
        [] \<Rightarrow> (False, 0, [], Z_OK)
      | b # bs \<Rightarrow> if b = 0 then (True, 1, [], Z_STREAM_END) else (False, 1, [b], Z_OK))"

lemma inflate_copy_documented:
  "inflate_documented inflate_copy (\<lambda>z inp. if z then [] else takeWhile (\<lambda>b. b \<noteq> 0) inp)
     (\<lambda>z inp. \<not> z \<and> 0 \<in> set inp) (\<lambda>z. z)"
  by (auto simp: inflate_documented_def inflate_copy_def Z_OK_def Z_STREAM_END_def neq_Nil_conv
      split: if_splits)

lemma gzip_stream_delivers_decoded_witness:
  "map_option fst (gz_drain inflate_copy (gz_make (istream_make [7, 9, 0] Clean) False Z_OK)) = Some [7, 9]
   \<and> map_option fst (gz_drain inflate_copy
       (gz_make (istream_make (replicate 4093 7 @ [0]) Clean) False Z_OK)) = None"
proof
  have c: "istream_clean (istream_make bs Clean)" and b: "istream_bytes (istream_make bs Clean) = bs" for bs
    by (simp_all add: istream_clean_def istream_make_def istream_bytes_def istream_good_def)
  show "map_option fst (gz_drain inflate_copy (gz_make (istream_make [7, 9, 0] Clean) False Z_OK)) = Some [7, 9]"
    using gzip_stream_delivers_decoded [OF inflate_copy_documented c, of False "[7, 9, 0]"] by (simp add: b)
  have "takeWhile (\<lambda>b. b \<noteq> 0) (replicate n 7 @ [0]) = (replicate n 7 :: u8 list)" for n
    by (induction n) auto
  then show "map_option fst (gz_drain inflate_copy
     (gz_make (istream_make (replicate 4093 7 @ [0]) Clean) False Z_OK)) = None"
    using gzip_stream_delivers_decoded [OF inflate_copy_documented c, of False "replicate 4093 7 @ [0]"]
    by (simp add: b Let_def)
qed

text \<open>
  C21. A failure of the decoder is silent. If the file is not what zlib can decode, so that
  the first call of \<open>inflate\<close> returns an error without output, then the stream is simply
  empty: the reader sees the end of the file, and the error code is only stored.
\<close>

lemma gzip_decoder_error_is_silent:
  assumes "istream_clean input" and "istream_bytes input \<noteq> []"
    and "inflate z0 (take 4096 (istream_bytes input)) 4092 = (z', c, [], ret)"
    and "ret \<noteq> Z_OK" and "ret \<noteq> Z_STREAM_END"
  shows "map_option (\<lambda>(bs, s). (bs, gz_error s)) (gz_drain inflate (gz_make input z0 Z_OK)) = Some ([], ret)"
proof -
  let ?s = "gz_make input z0 Z_OK"
  have s: "gz_input ?s = input" "gz_avail ?s = []" "gz_z ?s = z0" "length (gz_buf ?s) = 4096"
    "gz_gptr ?s = 4" "gz_egptr ?s = 4" "gz_eback ?s = 4"
    by (simp_all add: gz_make_def GZ_BufferSize_def)
  obtain i where f: "gz_fillInputBuffer ?s
      = (length (take GZ_BufferSize (istream_bytes input)),
         ?s\<lparr>gz_input := i, gz_avail := take GZ_BufferSize (istream_bytes input)\<rparr>)"
    using gz_fill [of ?s] assms(1) s(1) by metis
  have "gz_pass inflate ?s 4092 0 = (?s\<lparr>gz_input := i, gz_z := z',
      gz_avail := drop c (take GZ_BufferSize (istream_bytes input)), gz_error := ret\<rparr>, [], 4092,
      length (take GZ_BufferSize (istream_bytes input)))"
    using assms(2,3) s f by (simp add: gz_pass_def GZ_BufferSize_def)
  then have "\<exists>u. gz_unzipFromStream inflate ?s 4092 = Some (u, []) \<and> gz_error u = ret"
    using assms(4,5) s by (simp add: gz_unzipFromStream_def gz_loop.simps)
  then obtain u where u: "gz_unzipFromStream inflate ?s 4092 = Some (u, [])" "gz_error u = ret" by blast
  have "?s\<lparr>gz_buf := gz_buf ?s\<rparr> = ?s" by simp
  then have "\<exists>v. gz_underflow inflate ?s = Some (None, v) \<and> gz_error v = ret"
    using u s by (simp add: gz_underflow_def memcpy_within_def GZ_BufferSize_def)
  then show ?thesis by (subst gz_drain.simps) auto
qed

lemma gzip_decoder_error_is_silent_witness:
  "map_option (\<lambda>(bs, s). (bs, gz_error s))
     (gz_drain (\<lambda>z inp n. (z, 0, [], -3)) (gz_make (istream_make [1, 2] Clean) () Z_OK)) = Some ([], -3)"
  by (rule gzip_decoder_error_is_silent [of _ _ _ "()" 0])
    (simp_all add: istream_clean_def istream_make_def istream_bytes_def istream_good_def Z_OK_def Z_STREAM_END_def)

end
