(* ===== verification/Nb_Lzma.thy ===== *)
theory Nb_Lzma
  imports Nb_FileReader
begin

text \<open>
  \<open>netbox/utils/LZMADecompressStream.h\<close>: the stream buffer that decompresses an xz file. The
  decoder of liblzma is an argument: \<open>code z inp finish n\<close> gets its state, the bytes of input
  available, whether the action is \<open>LZMA_FINISH\<close>, and the room for output, and gives its new
  state, the number of bytes consumed, the bytes produced and the return code.
\<close>

section \<open>The stream buffer\<close>

type_synonym 'z lzma_code = "'z \<Rightarrow> u8 list \<Rightarrow> bool \<Rightarrow> nat \<Rightarrow> 'z \<times> nat \<times> u8 list \<times> int"

definition LZMA_OK :: int where "LZMA_OK = 0"
definition LZMA_STREAM_END :: int where "LZMA_STREAM_END = 1"
definition LZMA_DATA_ERROR :: int where "LZMA_DATA_ERROR = 9"
definition LZMA_BUF_ERROR :: int where "LZMA_BUF_ERROR = 10"

definition XZ_BufferSize :: nat where "XZ_BufferSize = 4096"

text \<open>
  \<open>xz_avail\<close> are the \<open>avail_in\<close> bytes at \<open>next_in\<close>; \<open>inputLength_\<close> is their number. The get area
  starts at \<open>outputBuffer_\<close>.
\<close>

record 'z xz =
  xz_input :: istream
  xz_avail :: "u8 list"
  xz_buf :: "u8 list"
  xz_outputLength :: nat
  xz_inputDone :: bool
  xz_outputDone :: bool
  xz_result :: int
  xz_z :: 'z
  xz_gptr :: nat
  xz_egptr :: nat

definition xz_make :: "istream \<Rightarrow> 'z \<Rightarrow> int \<Rightarrow> exn + 'z xz" where
  "xz_make input z0 init_result =
     (if init_result \<noteq> LZMA_OK then throwEx runtime_error ''LZMA decoder error''
      else Inr \<lparr>xz_input = input, xz_avail = [], xz_buf = replicate XZ_BufferSize 0,
                xz_outputLength = 0, xz_inputDone = False, xz_outputDone = False,
                xz_result = init_result, xz_z = z0, xz_gptr = 0, xz_egptr = 0\<rparr>)"

definition xz_fetch :: "'z xz \<Rightarrow> 'z xz" where
  "xz_fetch s =
     (if xz_avail s = [] \<and> \<not> xz_inputDone s then
        case istream_read XZ_BufferSize (xz_input s) of (bs, input) \<Rightarrow>
          s\<lparr>xz_input := input, xz_avail := take (st_gcount input) bs, xz_inputDone := st_eof input\<rparr>
      else s)"

definition xz_pass :: "'z lzma_code \<Rightarrow> 'z xz \<Rightarrow> exn + 'z xz" where
  "xz_pass code s =
     (let s = xz_fetch s in
      case code (xz_z s) (xz_avail s) (xz_inputDone s) XZ_BufferSize of (z, c, out, result) \<Rightarrow>
        if result \<noteq> LZMA_OK \<and> result \<noteq> LZMA_STREAM_END then
          throwEx runtime_error ''LZMA decoder couldn't decompress data''
        else
          Inr (s\<lparr>xz_z := z, xz_avail := drop c (xz_avail s), xz_result := result,
                 xz_buf := out @ drop (length out) (xz_buf s), xz_outputLength := length out,
                 xz_gptr := 0, xz_egptr := length out,
                 xz_outputDone := xz_outputDone s \<or> result = LZMA_STREAM_END\<rparr>))"

partial_function (option) xz_loop :: "'z lzma_code \<Rightarrow> 'z xz \<Rightarrow> (exn + 'z xz) option" where
  "xz_loop code s =
     (if \<not> xz_outputDone s \<and> xz_outputLength s = 0 then
        (case xz_pass code s of Inl x \<Rightarrow> Some (Inl x) | Inr s \<Rightarrow> xz_loop code s)
      else Some (Inr s))"

definition xz_underflow :: "'z lzma_code \<Rightarrow> 'z xz \<Rightarrow> (exn + u8 option \<times> 'z xz) option" where
  "xz_underflow code s =
     (if xz_outputDone s then Some (Inr (None, s))
      else do { r \<leftarrow> xz_loop code (s\<lparr>xz_outputLength := 0\<rparr>);
                Some (case r of
                        Inl x \<Rightarrow> Inl x
                      | Inr s \<Rightarrow>
                          if xz_outputLength s > 0 then Inr (Some (xz_buf s ! 0), s)
                          else Inr (None, s)) })"

text \<open>
  Reading the stream to its end, as \<open>std::istream\<close> does: take the get area, then ask for
  more. An exception ends the stream as \<open>Broken\<close>.
\<close>

partial_function (option) xz_drain :: "'z lzma_code \<Rightarrow> 'z xz \<Rightarrow> (u8 list \<times> stream_end) option" where
  "xz_drain code s =
     do { r \<leftarrow> xz_underflow code s;
          case r of
            Inl x \<Rightarrow> Some ([], Broken)
          | Inr (None, s) \<Rightarrow> Some ([], Clean)
          | Inr (Some b, s) \<Rightarrow>
              let chunk = take (xz_egptr s - xz_gptr s) (drop (xz_gptr s) (xz_buf s)) in
              do { y \<leftarrow> xz_drain code (s\<lparr>xz_gptr := xz_egptr s\<rparr>); Some (chunk @ fst y, snd y) } }"

section \<open>What liblzma documents of its decoder\<close>

text \<open>
  The decoder stays within the input and the room. If a call makes no progress, the first
  such call may return \<open>LZMA_OK\<close>, the next one returns an error: \<open>stalled z\<close> says that the
  last call made none.
\<close>

definition lzma_progress :: "'z lzma_code \<Rightarrow> ('z \<Rightarrow> bool) \<Rightarrow> bool" where
  "lzma_progress code stalled \<longleftrightarrow>
     (\<forall>z inp fin n z' c out ret. 0 < n \<longrightarrow> code z inp fin n = (z', c, out, ret) \<longrightarrow>
        c \<le> length inp \<and> length out \<le> n
        \<and> (ret = LZMA_OK \<longrightarrow> 0 < c + length out \<or> \<not> stalled z \<and> stalled z'))"

text \<open>
  Decoding valid data: \<open>future z inp\<close> are the bytes that decoding \<open>inp\<close>, the whole of what is
  left, from state \<open>z\<close> gives, and \<open>complete z inp\<close> says that \<open>inp\<close> is the rest of a valid
  file. With \<open>LZMA_CONCATENATED\<close> the end is reported only when the action is \<open>LZMA_FINISH\<close>.
\<close>

definition lzma_decodes ::
  "'z lzma_code \<Rightarrow> ('z \<Rightarrow> u8 list \<Rightarrow> u8 list) \<Rightarrow> ('z \<Rightarrow> u8 list \<Rightarrow> bool) \<Rightarrow> bool" where
  "lzma_decodes code future complete \<longleftrightarrow>
     (\<forall>z inp fin n z' c out ret ys. 0 < n \<longrightarrow> code z inp fin n = (z', c, out, ret) \<longrightarrow>
        complete z (inp @ ys) \<longrightarrow> (fin \<longrightarrow> ys = []) \<longrightarrow> (inp = [] \<longrightarrow> fin) \<longrightarrow>
          future z (inp @ ys) = out @ (if ret = LZMA_OK then future z' (drop c inp @ ys) else [])
          \<and> (ret = LZMA_OK \<and> complete z' (drop c inp @ ys) \<or> ret = LZMA_STREAM_END \<and> fin))"

section \<open>Every call returns\<close>

definition xz_in :: "'z xz \<Rightarrow> u8 list" where
  "xz_in s = xz_avail s @ istream_bytes (xz_input s)"

lemma xz_fetch_in:
  "length (xz_in (xz_fetch s)) \<le> length (xz_in s)" "xz_z (xz_fetch s) = xz_z s"
  "xz_outputDone (xz_fetch s) = xz_outputDone s" "xz_buf (xz_fetch s) = xz_buf s"
  by (auto simp: xz_fetch_def xz_in_def istream_read_def istream_bytes_def istream_good_def
      split: stream_end.splits prod.splits if_splits)

text \<open>A pass that lets the loop go on has consumed input, or is the first without progress.\<close>

lemma xz_pass_progress:
  assumes "lzma_progress code stalled" and "xz_pass code s = Inr s'"
    and "\<not> xz_outputDone s'" and "xz_outputLength s' = 0"
  shows "length (xz_in s') < length (xz_in s)
    \<or> length (xz_in s') \<le> length (xz_in s) \<and> \<not> stalled (xz_z s) \<and> stalled (xz_z s')"
proof -
  let ?s = "xz_fetch s"
  obtain z c out ret where r: "code (xz_z ?s) (xz_avail ?s) (xz_inputDone ?s) XZ_BufferSize = (z, c, out, ret)"
    by (metis prod_cases4)
  have "ret = LZMA_OK \<or> ret = LZMA_STREAM_END" using assms(2) r
    by (auto simp: xz_pass_def throwEx_def Let_def split: if_splits)
  then have s': "s' = ?s\<lparr>xz_z := z, xz_avail := drop c (xz_avail ?s), xz_result := ret,
      xz_buf := out @ drop (length out) (xz_buf ?s), xz_outputLength := length out,
      xz_gptr := 0, xz_egptr := length out, xz_outputDone := xz_outputDone ?s \<or> ret = LZMA_STREAM_END\<rparr>"
    and ret: "ret = LZMA_OK \<or> ret = LZMA_STREAM_END"
    using assms(2) r by (auto simp: xz_pass_def Let_def)
  have "ret = LZMA_OK" "out = []" using s' assms(3,4) ret by auto
  with assms(1) [unfolded lzma_progress_def, rule_format, OF _ r]
  have "c \<le> length (xz_avail ?s)" "0 < c \<or> \<not> stalled (xz_z s) \<and> stalled z"
    by (auto simp: XZ_BufferSize_def xz_fetch_in)
  with xz_fetch_in(1) [of s] show ?thesis by (auto simp: s' xz_in_def)
qed

lemma xz_loop_returns:
  assumes law: "lzma_progress code stalled"
  shows "\<exists>r. xz_loop code s = Some r"
proof (induction s rule: wf_induct [OF wf_measures,
      of "[\<lambda>s. length (xz_in s), \<lambda>s. if stalled (xz_z s) then 0 else 1]"])
  case (1 s)
  then have IH: "\<exists>r. xz_loop code t = Some r"
    if "length (xz_in t) < length (xz_in s)
      \<or> length (xz_in t) \<le> length (xz_in s) \<and> \<not> stalled (xz_z s) \<and> stalled (xz_z t)" for t
    using that by (auto simp: le_less)
  show ?case
  proof (cases "xz_pass code s")
    case (Inr t)
    have stop: "\<exists>r. xz_loop code t = Some r" if "xz_outputDone t \<or> xz_outputLength t \<noteq> 0"
      using that by (subst xz_loop.simps) auto
    have "\<exists>r. xz_loop code t = Some r"
      using stop IH xz_pass_progress [OF law Inr] by blast
    with Inr show ?thesis by (subst xz_loop.simps) auto
  qed (subst xz_loop.simps, auto)
qed

text \<open>
  C19. Every call of \<open>underflow\<close> returns, with a byte, with the end of the file or with an
  exception: whatever the state of the input stream and whatever bytes the file holds, the
  loop ends, as liblzma does not report success for ever without making progress.
\<close>

lemma lzma_underflow_returns:
  assumes "lzma_progress code stalled"
  shows "\<exists>r. xz_underflow code s = Some r"
  using xz_loop_returns [OF assms, of "s\<lparr>xz_outputLength := 0\<rparr>"] by (auto simp: xz_underflow_def)

lemma lzma_underflow_returns_witness:
  "\<exists>r. xz_underflow (\<lambda>z inp fin n. (True, 0, [], if z then LZMA_BUF_ERROR else LZMA_OK))
     \<lparr>xz_input = istream_make [1, 2] Clean, xz_avail = [], xz_buf = replicate 4096 0,
      xz_outputLength = 0, xz_inputDone = False, xz_outputDone = False, xz_result = LZMA_OK,
      xz_z = False, xz_gptr = 0, xz_egptr = 0\<rparr> = Some r"
  by (rule lzma_underflow_returns [where stalled = "\<lambda>z. z"])
    (auto simp: lzma_progress_def LZMA_BUF_ERROR_def LZMA_OK_def)

section \<open>Valid files are delivered\<close>

definition xz_running :: "('z \<Rightarrow> u8 list \<Rightarrow> bool) \<Rightarrow> 'z xz \<Rightarrow> bool" where
  "xz_running complete s \<longleftrightarrow>
     \<not> xz_outputDone s \<and> complete (xz_z s) (xz_in s) \<and> istream_clean (xz_input s)
     \<and> (if xz_inputDone s then istream_bytes (xz_input s) = [] else istream_good (xz_input s))"

lemma xz_fetch_running:
  assumes "xz_running complete s"
  shows "xz_in (xz_fetch s) = xz_in s" and "xz_running complete (xz_fetch s)"
    and "xz_avail (xz_fetch s) = [] \<Longrightarrow> xz_inputDone (xz_fetch s)"
proof -
  have "xz_in (xz_fetch s) = xz_in s \<and> xz_running complete (xz_fetch s)
    \<and> (xz_avail (xz_fetch s) = [] \<longrightarrow> xz_inputDone (xz_fetch s))"
  proof (cases "xz_avail s = [] \<and> \<not> xz_inputDone s")
    case True
    with assms have good: "istream_good (xz_input s)" and clean: "istream_clean (xz_input s)"
      by (auto simp: xz_running_def)
    obtain bs i where r: "istream_read XZ_BufferSize (xz_input s) = (bs, i)" by fastforce
    note split = istream_read_split [OF clean r]
    have "st_eof i \<longrightarrow> istream_bytes i = []" "\<not> st_eof i \<longrightarrow> istream_good i \<and> bs \<noteq> []"
      using r good clean
      by (auto simp: istream_read_def istream_good_def istream_bytes_def istream_clean_def
          XZ_BufferSize_def split: if_splits)
    moreover have "take (st_gcount i) bs = bs" using split(3) by simp
    moreover have "bs @ istream_bytes i = istream_bytes (xz_input s)" using split(1,2) by simp
    ultimately show ?thesis
      using True assms r split(4) by (simp add: xz_fetch_def xz_running_def xz_in_def)
  qed (use assms in \<open>auto simp: xz_fetch_def xz_running_def\<close>)
  then show "xz_in (xz_fetch s) = xz_in s" and "xz_running complete (xz_fetch s)"
    and "xz_avail (xz_fetch s) = [] \<Longrightarrow> xz_inputDone (xz_fetch s)" by blast+
qed

text \<open>The bytes of the get area.\<close>

definition xz_area :: "'z xz \<Rightarrow> u8 list" where
  "xz_area s = take (xz_egptr s - xz_gptr s) (drop (xz_gptr s) (xz_buf s))"

lemma xz_pass_running:
  assumes law: "lzma_decodes code future complete" and run: "xz_running complete s"
  obtains s' where "xz_pass code s = Inr s'" and "xz_gptr s' = 0" and "xz_outputLength s' = length (xz_area s')"
    and "xz_running complete s' \<and> future (xz_z s) (xz_in s) = xz_area s' @ future (xz_z s') (xz_in s')
      \<or> xz_outputDone s' \<and> future (xz_z s) (xz_in s) = xz_area s'"
proof -
  let ?s = "xz_fetch s"
  obtain z c out ret where r: "code (xz_z ?s) (xz_avail ?s) (xz_inputDone ?s) XZ_BufferSize = (z, c, out, ret)"
    by (metis prod_cases4)
  note fetch = xz_fetch_running [OF run] and keep = xz_fetch_in [of s]
  have all: "xz_avail ?s @ istream_bytes (xz_input ?s) = xz_in s" using fetch(1) by (simp add: xz_in_def)
  have now: "future (xz_z s) (xz_in s)
        = out @ (if ret = LZMA_OK then future z (drop c (xz_avail ?s) @ istream_bytes (xz_input ?s)) else [])"
    "ret = LZMA_OK \<and> complete z (drop c (xz_avail ?s) @ istream_bytes (xz_input ?s))
      \<or> ret = LZMA_STREAM_END \<and> xz_inputDone ?s"
    using law [unfolded lzma_decodes_def, rule_format, OF _ r, of "istream_bytes (xz_input ?s)", unfolded all]
      run fetch(2,3) keep(2)
    by (auto simp: xz_running_def XZ_BufferSize_def split: if_splits)
  let ?t = "?s\<lparr>xz_z := z, xz_avail := drop c (xz_avail ?s), xz_result := ret,
      xz_buf := out @ drop (length out) (xz_buf ?s), xz_outputLength := length out,
      xz_gptr := 0, xz_egptr := length out, xz_outputDone := xz_outputDone ?s \<or> ret = LZMA_STREAM_END\<rparr>"
  have "xz_pass code s = Inr ?t" using r now(2) by (auto simp: xz_pass_def Let_def)
  moreover have area: "xz_area ?t = out" by (simp add: xz_area_def)
  moreover have "xz_running complete ?t \<and> future (xz_z s) (xz_in s) = out @ future (xz_z ?t) (xz_in ?t)"
    if "ret = LZMA_OK"
    using that now fetch(2) by (auto simp: xz_running_def xz_in_def LZMA_OK_def LZMA_STREAM_END_def)
  moreover have "xz_outputDone ?t \<and> future (xz_z s) (xz_in s) = out" if "ret \<noteq> LZMA_OK"
    using that now by auto
  moreover have "xz_gptr ?t = 0" "xz_outputLength ?t = length out" by simp_all
  ultimately show thesis using that [of ?t] by metis
qed

lemma xz_loop_running:
  assumes progress: "lzma_progress code stalled" and law: "lzma_decodes code future complete"
    and "xz_running complete s" and "xz_outputLength s = 0"
  shows "\<exists>s'. xz_loop code s = Some (Inr s') \<and> xz_gptr s' = 0 \<and> xz_outputLength s' = length (xz_area s')
    \<and> (xz_running complete s' \<and> xz_area s' \<noteq> []
          \<and> future (xz_z s) (xz_in s) = xz_area s' @ future (xz_z s') (xz_in s')
       \<or> xz_outputDone s' \<and> future (xz_z s) (xz_in s) = xz_area s')"
  using assms(3,4)
proof (induction s rule: wf_induct [OF wf_measures,
      of "[\<lambda>s. length (xz_in s), \<lambda>s. if stalled (xz_z s) then 0 else 1]"])
  case (1 s)
  obtain t where t: "xz_pass code s = Inr t" "xz_gptr t = 0" "xz_outputLength t = length (xz_area t)"
    "xz_running complete t \<and> future (xz_z s) (xz_in s) = xz_area t @ future (xz_z t) (xz_in t)
      \<or> xz_outputDone t \<and> future (xz_z s) (xz_in s) = xz_area t"
    using xz_pass_running [OF law 1(2)] by metis
  have loop: "xz_loop code s = xz_loop code t"
    using 1(2,3) t(1) by (subst xz_loop.simps) (simp add: xz_running_def)
  show ?case
  proof (cases "xz_outputDone t \<or> xz_area t \<noteq> []")
    case True
    with t(3) have "xz_loop code t = Some (Inr t)" by (subst xz_loop.simps) auto
    with loop t True show ?thesis by (auto simp: xz_running_def)
  next
    case False
    with t have run: "xz_running complete t" "xz_outputLength t = 0"
      and fut: "future (xz_z s) (xz_in s) = future (xz_z t) (xz_in t)" by auto
    have "(t, s) \<in> measures [\<lambda>s. length (xz_in s), \<lambda>s. if stalled (xz_z s) then 0 else 1]"
      using xz_pass_progress [OF progress t(1)] False run(2) by (auto simp: le_less)
    with 1(1) run have "\<exists>s'. xz_loop code t = Some (Inr s') \<and> xz_gptr s' = 0
        \<and> xz_outputLength s' = length (xz_area s')
        \<and> (xz_running complete s' \<and> xz_area s' \<noteq> []
            \<and> future (xz_z t) (xz_in t) = xz_area s' @ future (xz_z s') (xz_in s')
         \<or> xz_outputDone s' \<and> future (xz_z t) (xz_in t) = xz_area s')"
      by blast
    with loop fut show ?thesis by simp
  qed
qed

lemma xz_drain_done: "xz_outputDone s \<Longrightarrow> xz_drain code s = Some ([], Clean)"
  by (subst xz_drain.simps) (simp add: xz_underflow_def)

lemma xz_drain_step:
  assumes "\<not> xz_outputDone s" and "xz_loop code (s\<lparr>xz_outputLength := 0\<rparr>) = Some (Inr t)"
    and "xz_outputLength t = length (xz_area t)"
  shows "xz_drain code s =
    (if xz_area t = [] then Some ([], Clean)
     else map_option (\<lambda>y. (xz_area t @ fst y, snd y)) (xz_drain code (t\<lparr>xz_gptr := xz_egptr t\<rparr>)))"
proof -
  have "xz_underflow code s =
      Some (if xz_area t = [] then Inr (None, t) else Inr (Some (xz_buf t ! 0), t))"
    using assms by (simp add: xz_underflow_def)
  then show ?thesis
    by (subst xz_drain.simps)
      (auto simp: Let_def xz_area_def map_option_case split: option.splits)
qed

lemma xz_drain_running:
  assumes progress: "lzma_progress code stalled" and law: "lzma_decodes code future complete"
    and "xz_running complete s"
  shows "xz_drain code s = Some (future (xz_z s) (xz_in s), Clean)"
  using assms(3)
proof (induction "length (future (xz_z s) (xz_in s))" arbitrary: s rule: less_induct)
  case less
  let ?s = "s\<lparr>xz_outputLength := 0\<rparr>"
  have same: "xz_running complete ?s" "xz_in ?s = xz_in s" "xz_z ?s = xz_z s"
    using less.prems by (simp_all add: xz_running_def xz_in_def)
  then obtain t where t: "xz_loop code ?s = Some (Inr t)" "xz_gptr t = 0"
    "xz_outputLength t = length (xz_area t)"
    and cases: "xz_running complete t \<and> xz_area t \<noteq> []
        \<and> future (xz_z s) (xz_in s) = xz_area t @ future (xz_z t) (xz_in t)
      \<or> xz_outputDone t \<and> future (xz_z s) (xz_in s) = xz_area t"
    using xz_loop_running [OF progress law same(1)] by auto
  have "\<not> xz_outputDone s" using less.prems by (simp add: xz_running_def)
  note step = xz_drain_step [OF this t(1,3)]
  let ?t = "t\<lparr>xz_gptr := xz_egptr t\<rparr>"
  from cases show ?case
  proof
    assume a: "xz_running complete t \<and> xz_area t \<noteq> []
        \<and> future (xz_z s) (xz_in s) = xz_area t @ future (xz_z t) (xz_in t)"
    then have "xz_running complete ?t" "xz_in ?t = xz_in t" "xz_z ?t = xz_z t"
      by (simp_all add: xz_running_def xz_in_def)
    with less.hyps [of ?t] a have "xz_drain code ?t = Some (future (xz_z t) (xz_in t), Clean)" by simp
    with step a show ?thesis by simp
  next
    assume a: "xz_outputDone t \<and> future (xz_z s) (xz_in s) = xz_area t"
    then have "xz_drain code ?t = Some ([], Clean)" by (intro xz_drain_done) simp
    with step a show ?thesis by simp
  qed
qed

text \<open>
  C18. Reading an xz file to its end. If the file holds valid compressed data and the decoder
  behaves as liblzma documents, then reading returns, and delivers exactly the decoded
  data, without an exception, whatever the way the decoder cuts them into pieces.
\<close>

lemma lzma_stream_delivers_decoded:
  assumes "lzma_progress code stalled" and "lzma_decodes code future complete"
    and "istream_good input" and "istream_clean input" and "complete z0 (istream_bytes input)"
    and "xz_make input z0 LZMA_OK = Inr s"
  shows "xz_drain code s = Some (future z0 (istream_bytes input), Clean)"
proof -
  have "xz_running complete s" "xz_z s = z0" "xz_in s = istream_bytes input"
    using assms(3-6) by (auto simp: xz_make_def xz_running_def xz_in_def)
  with xz_drain_running [OF assms(1,2)] show ?thesis by simp
qed

text \<open>A decoder for the witnesses: it copies its input, a byte at a time, and refuses zeros.\<close>

definition lzma_copy :: "unit lzma_code" where
  "lzma_copy z inp fin n =
     (case inp of
        [] \<Rightarrow> ((), 0, [], if fin then LZMA_STREAM_END else LZMA_BUF_ERROR)
      | b # bs \<Rightarrow> if b = 0 then ((), 0, [], LZMA_DATA_ERROR) else ((), 1, [b], LZMA_OK))"

lemma lzma_copy_progress: "lzma_progress lzma_copy (\<lambda>z. True)"
  by (auto simp: lzma_progress_def lzma_copy_def LZMA_OK_def LZMA_STREAM_END_def
      LZMA_BUF_ERROR_def LZMA_DATA_ERROR_def split: list.splits if_splits)

lemma lzma_copy_decodes: "lzma_decodes lzma_copy (\<lambda>z inp. inp) (\<lambda>z inp. 0 \<notin> set inp)"
  by (auto simp: lzma_decodes_def lzma_copy_def LZMA_OK_def LZMA_STREAM_END_def
      LZMA_BUF_ERROR_def LZMA_DATA_ERROR_def split: list.splits if_splits)

lemma lzma_stream_delivers_decoded_witness:
  "\<exists>s. xz_make (istream_make [7, 9] Clean) () LZMA_OK = Inr s \<and> xz_drain lzma_copy s = Some ([7, 9], Clean)"
proof -
  let ?i = "istream_make [7, 9] Clean"
  obtain s where s: "xz_make ?i () LZMA_OK = Inr s" by (simp add: xz_make_def)
  have i: "istream_good ?i" "istream_clean ?i" "istream_bytes ?i = [7, 9]"
    by (simp_all add: istream_clean_def istream_make_def istream_bytes_def istream_good_def)
  from lzma_stream_delivers_decoded [OF lzma_copy_progress lzma_copy_decodes i(1,2) _ s] i(3)
  have "xz_drain lzma_copy s = Some ([7, 9], Clean)" by simp
  with s show ?thesis by blast
qed

text \<open>
  C20. An error of the decoder is reported. If the loop reaches a state where the decoder
  refuses the data, the call ends in a \<open>std::runtime_error\<close>, and the stream, which turns it
  into its bad bit, ends there as broken, after the bytes that were delivered before.
\<close>

lemma lzma_decoder_error_is_reported:
  assumes "\<not> xz_outputDone s"
    and "code (xz_z s) (xz_avail (xz_fetch s)) (xz_inputDone (xz_fetch s)) XZ_BufferSize = (z', c, out, ret)"
    and "ret \<noteq> LZMA_OK" and "ret \<noteq> LZMA_STREAM_END"
  shows "xz_underflow code s = Some (Inl (runtime_error ''LZMA decoder couldn't decompress data''))
    \<and> xz_drain code s = Some ([], Broken)"
proof -
  let ?s = "s\<lparr>xz_outputLength := 0\<rparr>" and ?x = "runtime_error ''LZMA decoder couldn't decompress data''"
  have f: "xz_fetch ?s = (xz_fetch s)\<lparr>xz_outputLength := 0\<rparr>"
    by (simp add: xz_fetch_def split: prod.splits)
  have "xz_pass code ?s = Inl ?x"
    using assms(2-4) by (simp add: xz_pass_def f xz_fetch_in throwEx_def)
  then have "xz_loop code ?s = Some (Inl ?x)"
    using assms(1) by (subst xz_loop.simps) simp
  then have u: "xz_underflow code s = Some (Inl ?x)"
    using assms(1) by (simp add: xz_underflow_def)
  then have "xz_drain code s = Some ([], Broken)"
    by (subst xz_drain.simps) simp
  with u show ?thesis by blast
qed

lemma lzma_decoder_error_is_reported_witness:
  "\<exists>s. xz_make (istream_make [0, 1] Clean) () LZMA_OK = Inr s \<and> xz_drain lzma_copy s = Some ([], Broken)"
proof -
  let ?i = "istream_make [0, 1] Clean"
  obtain s where s: "xz_make ?i () LZMA_OK = Inr s" by (simp add: xz_make_def)
  then have "\<not> xz_outputDone s" and "xz_avail (xz_fetch s) = [0, 1]"
    by (auto simp: xz_make_def xz_fetch_def istream_read_def istream_make_def istream_good_def XZ_BufferSize_def)
  then have "xz_drain lzma_copy s = Some ([], Broken)"
    using lzma_decoder_error_is_reported [of s lzma_copy "()" 0 "[]" LZMA_DATA_ERROR]
    by (simp add: lzma_copy_def LZMA_OK_def LZMA_DATA_ERROR_def LZMA_STREAM_END_def)
  with s show ?thesis by blast
qed

end
