(* ===== verification/Nb_Decoding.thy ===== *)
theory Nb_Decoding
  imports Nb_Capture Nb_Gzip Nb_Lzma
begin

text \<open>
  The decoders of \<open>netbox/utils\<close> behind \<open>FileReader\<close> and the capture reader: how a file is
  opened, and what a compressed capture reads as, from the library's answers to each block
  up to the packets a client gets.
\<close>

section \<open>The decoders as a platform\<close>

text \<open>
  \<open>FileReader\<close> sees a decoder as the bytes that reading it to its end delivers. A stream
  that does not deliver (None: a call that does not return or is undefined) has no such
  bytes; the properties below are about files where it does.
\<close>

definition xz_decode :: "'z lzma_code \<Rightarrow> 'z \<Rightarrow> int \<Rightarrow> u8 list \<Rightarrow> exn + u8 list \<times> stream_end" where
  "xz_decode code z0 init_result bs =
     (case xz_make (istream_make bs Clean) z0 init_result of
        Inl x \<Rightarrow> Inl x
      | Inr s \<Rightarrow> (case xz_drain code s of Some r \<Rightarrow> Inr r | None \<Rightarrow> Inr ([], Broken)))"

definition gz_decode :: "'g inflate \<Rightarrow> 'g \<Rightarrow> int \<Rightarrow> u8 list \<Rightarrow> u8 list \<times> stream_end" where
  "gz_decode inflate g0 init_error bs =
     (case gz_drain inflate (gz_make (istream_make bs Clean) g0 init_error) of
        Some (out, s) \<Rightarrow> (out, Clean)
      | None \<Rightarrow> ([], Broken))"

definition full_platform ::
  "(string \<Rightarrow> u8 list option) \<Rightarrow> 'z lzma_code \<Rightarrow> 'z \<Rightarrow> 'g inflate \<Rightarrow> 'g \<Rightarrow> platform" where
  "full_platform files code z0 inflate g0 =
     \<lparr>pf_files = files, pf_lzma_enabled = True, pf_gzip_enabled = True,
      pf_lzma = xz_decode code z0 LZMA_OK, pf_gzip = gz_decode inflate g0 Z_OK\<rparr>"

lemma istream_make_facts [simp]:
  "istream_good (istream_make bs t)" "istream_bytes (istream_make bs t) = bs"
  "st_rest (istream_make bs t) = bs" "istream_bool (istream_make bs t)"
  "istream_clean (istream_make bs Clean)"
  by (simp_all add: istream_good_def istream_bytes_def istream_make_def istream_bool_def
      istream_clean_def)

lemma ifstream_open_found: "files name = Some bs \<Longrightarrow> ifstream_open files name = istream_make bs Clean"
  by (simp add: ifstream_open_def)

lemma xz_decode_complete:
  assumes "lzma_progress code stalled" and "lzma_decodes code future complete" and "complete z0 bs"
  shows "xz_decode code z0 LZMA_OK bs = Inr (future z0 bs, Clean)"
proof -
  obtain s where s: "xz_make (istream_make bs Clean) z0 LZMA_OK = Inr s" by (simp add: xz_make_def)
  then have "xz_running complete s" "xz_z s = z0" "xz_in s = bs"
    using assms(3) by (auto simp: xz_make_def xz_running_def xz_in_def)
  with xz_drain_running [OF assms(1,2)] s show ?thesis by (simp add: xz_decode_def)
qed

lemma gz_decode_complete:
  assumes "inflate_documented inflate future complete ended" and "complete g0 bs"
    and "length (future g0 bs) \<le> 4092 \<or> length (future g0 bs) mod 4092 \<notin> {1, 2, 3}"
  shows "gz_decode inflate g0 Z_OK bs = (future g0 bs, Clean)"
proof -
  let ?s = "gz_make (istream_make bs Clean) g0 Z_OK"
  have "complete g0 (istream_bytes (istream_make bs Clean))" using assms(2) by simp
  note start = gz_make_start [of _ complete g0, OF istream_make_facts(5) this]
  from gz_drain_from_start [OF assms(1) start(1,2) start(3) [of future]] assms(3)
  have "map_option fst (gz_drain inflate ?s) = Some (future g0 bs)" by (auto split: if_splits)
  then show ?thesis by (auto simp: gz_decode_def)
qed

text \<open>The three ways of opening a file, by its name.\<close>

lemma FileReader_open_xz:
  assumes "endsWith name ''.xz''" and "pf_files pf name = Some bs" and "pf_lzma_enabled pf"
    and "pf_lzma pf bs = Inr (out, t)"
  obtains f where "FileReader_open pf name = Inr f" and "FileReader_bytes f = out"
    and "t = Clean \<longrightarrow> file_clean f"
  using assms
  by (intro that [of "\<lparr>fr_fileStream = Some (istream_make bs Clean),
        fr_decodedStream = Some (istream_make out t), fr_stream = To_decoded\<rparr>"])
    (simp_all add: FileReader_open_def ifstream_open_found FileReader_bytes_def FileReader_deref_def
        file_clean_def Let_def)

lemma gz_not_xz: "endsWith name ''.gz'' \<Longrightarrow> \<not> endsWith name ''.xz''"
proof
  assume "endsWith name ''.gz''" "endsWith name ''.xz''"
  then have "prefix (rev ''.gz'') (rev name)" "prefix (rev ''.xz'') (rev name)"
    by (auto simp: endsWith_def std_equal_prefix split: if_splits)
  then show False by (auto simp: prefix_def)
qed

lemma FileReader_open_gz:
  assumes "endsWith name ''.gz''" and "pf_files pf name = Some bs" and "pf_gzip_enabled pf"
    and "pf_gzip pf bs = (out, t)"
  obtains f where "FileReader_open pf name = Inr f" and "FileReader_bytes f = out"
    and "t = Clean \<longrightarrow> file_clean f"
  using assms gz_not_xz [OF assms(1)]
  by (intro that [of "\<lparr>fr_fileStream = Some (istream_make bs Clean),
        fr_decodedStream = Some (istream_make out t), fr_stream = To_decoded\<rparr>"])
    (simp_all add: FileReader_open_def ifstream_open_found FileReader_bytes_def FileReader_deref_def
        file_clean_def Let_def)

section \<open>The content of a file\<close>

text \<open>
  What a file stands for, by its name: \<open>fx\<close> and \<open>fg\<close> are what decoding the whole of an xz
  and of a gzip file from the initial decoder states gives.
\<close>

definition file_content ::
  "(string \<Rightarrow> u8 list option) \<Rightarrow> (u8 list \<Rightarrow> u8 list) \<Rightarrow> (u8 list \<Rightarrow> u8 list) \<Rightarrow> string \<Rightarrow> u8 list" where
  "file_content files fx fg name =
     (case files name of
        None \<Rightarrow> []
      | Some bs \<Rightarrow> if suffix ''.xz'' name then fx bs else if suffix ''.gz'' name then fg bs else bs)"

text \<open>The files that the decoders can decode, with the lengths where the gzip stream is safe.\<close>

definition file_decodable ::
  "(u8 list \<Rightarrow> bool) \<Rightarrow> (u8 list \<Rightarrow> bool) \<Rightarrow> (u8 list \<Rightarrow> u8 list) \<Rightarrow> string \<Rightarrow> u8 list \<Rightarrow> bool" where
  "file_decodable cx cg fg name bs \<longleftrightarrow>
     (if suffix ''.xz'' name then cx bs
      else if suffix ''.gz'' name then
        cg bs \<and> (length (fg bs) \<le> 4092 \<or> length (fg bs) mod 4092 \<notin> {1, 2, 3})
      else True)"

lemma full_platform_open:
  assumes lzma: "lzma_progress code stalled" "lzma_decodes code fx cx"
    and gzip: "inflate_documented inflate fg cg ended"
    and ok: "\<forall>bs. files name = Some bs \<longrightarrow> file_decodable (cx z) (cg g) (fg g) name bs"
  obtains f where "FileReader_open (full_platform files code z inflate g) name = Inr f"
    and "FileReader_bytes f = file_content files (fx z) (fg g) name"
    and "files name \<noteq> None \<longrightarrow> file_clean f"
proof (cases "files name")
  case None
  let ?f = "\<lparr>fr_fileStream = Some (ifstream_default\<lparr>st_fail := True\<rparr>), fr_decodedStream = None, fr_stream = To_file\<rparr>"
  have "FileReader_open (full_platform files code z inflate g) name = Inr ?f"
    using None
    by (simp add: FileReader_open_def full_platform_def ifstream_open_def istream_bool_def Let_def)
  moreover have "FileReader_bytes ?f = []"
    by (simp add: FileReader_bytes_def FileReader_deref_def istream_bytes_def istream_good_def)
  ultimately show thesis using None by (intro that [of ?f]) (simp_all add: file_content_def)
next
  case (Some bs)
  let ?pf = "full_platform files code z inflate g"
  have pf: "pf_files ?pf name = Some bs" "pf_lzma_enabled ?pf" "pf_gzip_enabled ?pf"
    "pf_files ?pf = files" "pf_lzma ?pf = xz_decode code z LZMA_OK" "pf_gzip ?pf = gz_decode inflate g Z_OK"
    using Some by (simp_all add: full_platform_def)
  consider (xz) "endsWith name ''.xz''" | (gz) "endsWith name ''.gz''"
    | (plain) "\<not> endsWith name ''.xz''" "\<not> endsWith name ''.gz''" by blast
  then show thesis
  proof cases
    case xz
    then have "cx z bs" using ok Some by (simp add: file_decodable_def endsWith_is_suffix)
    with pf xz_decode_complete [OF lzma] have "pf_lzma ?pf bs = Inr (fx z bs, Clean)" by simp
    from FileReader_open_xz [OF xz pf(1,2) this] obtain f where
      f: "FileReader_open ?pf name = Inr f" "FileReader_bytes f = fx z bs" "file_clean f" by blast
    from f xz Some show thesis
      by (intro that [of f]) (simp_all add: file_content_def endsWith_is_suffix)
  next
    case gz
    then have "\<not> suffix ''.xz'' name" using gz_not_xz by (simp add: endsWith_is_suffix)
    with gz ok Some have "cg g bs" "length (fg g bs) \<le> 4092 \<or> length (fg g bs) mod 4092 \<notin> {1, 2, 3}"
      by (auto simp: file_decodable_def endsWith_is_suffix)
    with pf gz_decode_complete [OF gzip] have "pf_gzip ?pf bs = (fg g bs, Clean)" by simp
    from FileReader_open_gz [OF gz pf(1,3) this] obtain f where
      f: "FileReader_open ?pf name = Inr f" "FileReader_bytes f = fg g bs" "file_clean f" by blast
    from f gz gz_not_xz [OF gz] Some show thesis
      by (intro that [of f]) (simp_all add: file_content_def endsWith_is_suffix)
  next
    case plain
    then have "plain_name name" by (simp add: plain_name_def)
    from FileReader_open_plain [OF this, of ?pf] obtain f where
      f: "FileReader_open ?pf name = Inr f"
      "FileReader_bytes f = (case pf_files ?pf name of None \<Rightarrow> [] | Some bs \<Rightarrow> bs)"
      "pf_files ?pf name \<noteq> None \<longrightarrow> file_clean f" .
    from f plain Some pf(1) show thesis
      by (intro that [of f]) (simp_all add: file_content_def endsWith_is_suffix)
  qed
qed

section \<open>Properties\<close>

text \<open>
  A capture in an xz file: if the file holds valid compressed data and liblzma behaves as
  it documents, the loop of a client delivers exactly the packets of the decoded file.
\<close>

theorem xz_capture_delivered:
  assumes "lzma_progress code stalled" and "lzma_decodes code future complete"
    and "heap_ok h" and "endsWith name ''.xz''" and "files name = Some bs" and "complete z bs"
  shows "\<exists>h' r'. reader_program e (full_platform files code z inflate g) h name
    = Some (Inr (pcap_file e (future z bs), h', r'))"
proof -
  let ?pf = "full_platform files code z inflate g"
  have "pf_lzma ?pf bs = Inr (future z bs, Clean)" "pf_files ?pf name = Some bs" "pf_lzma_enabled ?pf"
    using xz_decode_complete [OF assms(1,2,6)] assms(5) by (simp_all add: full_platform_def)
  with FileReader_open_xz [OF assms(4)] obtain f where
    "FileReader_open ?pf name = Inr f" "FileReader_bytes f = future z bs" by metis
  with reader_program_outcome [OF assms(3), of ?pf name f e] show ?thesis by auto
qed

theorem xz_capture_delivered_witness:
  "\<exists>h' r'. reader_program Little
     (full_platform [''a.xz'' \<mapsto> [1, 2, 3]] lzma_copy () inflate_copy False) empty_heap ''a.xz''
     = Some (Inr ([], h', r'))"
  using xz_capture_delivered [OF lzma_copy_progress lzma_copy_decodes empty_heap_ok,
      where name = "''a.xz''" and files = "[''a.xz'' \<mapsto> [1, 2, 3]]" and bs = "[1, 2, 3]" and e = Little
        and inflate = inflate_copy and g = False]
  by (simp add: endsWith_def pcap_file_def)

text \<open>
  A capture in a gzip file: if the file holds a complete stream and zlib behaves as it
  documents, the loop of a client delivers exactly the packets of the decoded file; the
  lengths for which the decoding stream copies overlapping memory are excluded.
\<close>

theorem gz_capture_delivered:
  assumes "inflate_documented inflate future complete ended"
    and "heap_ok h" and "endsWith name ''.gz''" and "files name = Some bs" and "complete g bs"
    and "length (future g bs) \<le> 4092 \<or> length (future g bs) mod 4092 \<notin> {1, 2, 3}"
  shows "\<exists>h' r'. reader_program e (full_platform files code z inflate g) h name
    = Some (Inr (pcap_file e (future g bs), h', r'))"
proof -
  let ?pf = "full_platform files code z inflate g"
  have "pf_gzip ?pf bs = (future g bs, Clean)" "pf_files ?pf name = Some bs" "pf_gzip_enabled ?pf"
    using gz_decode_complete [OF assms(1,5,6)] assms(4) by (simp_all add: full_platform_def)
  with FileReader_open_gz [OF assms(3)] obtain f where
    "FileReader_open ?pf name = Inr f" "FileReader_bytes f = future g bs" by metis
  with reader_program_outcome [OF assms(2), of ?pf name f e] show ?thesis by auto
qed

theorem gz_capture_delivered_witness:
  "\<exists>h' r'. reader_program Little
     (full_platform [''a.gz'' \<mapsto> [1, 2, 0]] lzma_copy () inflate_copy False) empty_heap ''a.gz''
     = Some (Inr ([], h', r'))"
  using gz_capture_delivered [OF inflate_copy_documented empty_heap_ok,
      where name = "''a.gz''" and files = "[''a.gz'' \<mapsto> [1, 2, 0]]" and bs = "[1, 2, 0]" and g = False and e = Little
        and code = lzma_copy and z = "()"]
  by (simp add: endsWith_def pcap_file_def)

text \<open>
  When opening throws: exactly when the file exists and its name ends in \<open>.xz\<close> or
  \<open>.gz\<close> in a build without that decoder, or the LZMA decoder cannot be set up. A file that
  does not exist never makes the constructor throw.
\<close>

theorem FileReader_open_throws_iff:
  "(\<exists>x. FileReader_open pf name = Inl x) \<longleftrightarrow>
     (\<exists>bs. pf_files pf name = Some bs
        \<and> (suffix ''.xz'' name \<and> (\<not> pf_lzma_enabled pf \<or> (\<exists>x. pf_lzma pf bs = Inl x))
           \<or> suffix ''.gz'' name \<and> \<not> pf_gzip_enabled pf))"
proof (cases "pf_files pf name")
  case None
  then show ?thesis
    by (simp add: FileReader_open_def ifstream_open_def istream_bool_def ifstream_default_def istream_make_def)
next
  case (Some bs)
  have suffix: "endsWith name x \<longleftrightarrow> suffix x name" for x by (simp add: endsWith_is_suffix)
  show ?thesis
    using Some gz_not_xz [of name]
    by (cases "pf_lzma pf bs")
      (auto simp: FileReader_open_def ifstream_open_found throwEx_def suffix Let_def split: prod.splits)
qed

text \<open>
  Moving a \<open>FileReader\<close>: the new object is the old one, with its streams and what its
  pointer refers to, and the one moved from has an indeterminate pointer, so that every
  operation on it is undefined.
\<close>

theorem FileReader_moved_from_unusable:
  "fst (FileReader_move r) = r \<and> FileReader_read n (snd (FileReader_move r)) = None
   \<and> FileReader_bool (snd (FileReader_move r)) = None \<and> FileReader_good (snd (FileReader_move r)) = None
   \<and> FileReader_eof (snd (FileReader_move r)) = None"
  by (simp add: FileReader_move_def FileReader_swap_def FileReader_read_def FileReader_bool_def
      FileReader_good_def FileReader_eof_def FileReader_deref_def)

end
