(* ===== verification/Nb_OnDemand.thy ===== *)
theory Nb_OnDemand
  imports Nb_StreamBuffer Nb_Decoding
begin

text \<open>
  The two decoding stream buffers of \<open>netbox/utils\<close> as instances of the interface of
  \<open>Nb_StreamBuffer\<close>, the streams built on them, and \<open>FileReader\<close> with every \<open>read\<close>
  decoding only what it needs. The rest of the development reads a compressed file from
  the list of its decoded bytes; here the two ways of reading are compared.
\<close>

section \<open>The gzip buffer\<close>

definition gz_area :: "'z gz \<Rightarrow> u8 list" where
  "gz_area s = take (gz_egptr s - gz_gptr s) (drop (gz_gptr s) (gz_buf s))"

text \<open>\<open>underflow\<close> of the gzip buffer throws nothing.\<close>

definition gz_vtable :: "'z inflate \<Rightarrow> 'z gz streambuf" where
  "gz_vtable inflate =
     \<lparr>vt_area = gz_area, vt_bump = (\<lambda>k s. s\<lparr>gz_gptr := gz_gptr s + k\<rparr>),
      vt_underflow = (\<lambda>s. map_option Inr (gz_underflow inflate s))\<rparr>"

definition gz_ok :: "'z gz \<Rightarrow> bool" where
  "gz_ok s \<longleftrightarrow> 4 \<le> length (gz_buf s) \<and> gz_gptr s \<le> gz_egptr s \<and> gz_egptr s \<le> length (gz_buf s)"

lemma gz_pass_area: "gz_pass inflate s n count = (t, out, n', count') \<Longrightarrow> same_area s t"
  by (auto simp: gz_pass_def gz_fillInputBuffer_def same_area_def Let_def split: if_splits prod.splits)

lemma gz_loop_area:
  assumes "gz_loop inflate s n count = Some r"
  shows "same_area s (fst r)"
proof (rule gz_loop.raw_induct [where P = "\<lambda>inflate s n count r. same_area s (fst r)", OF _ assms])
  fix loop :: "'a inflate \<Rightarrow> 'a gz \<Rightarrow> nat \<Rightarrow> nat \<Rightarrow> ('a gz \<times> u8 list) option" and inflate s n count r
  assume IH: "\<And>inflate s n count r. loop inflate s n count = Some r \<Longrightarrow> same_area s (fst r)"
    and r: "(case gz_pass inflate s n count of (s, out, n, count) \<Rightarrow>
        if gz_error s = Z_OK \<and> n \<noteq> 0 \<and> count \<noteq> 0 then
          do { x \<leftarrow> loop inflate s n count; Some (fst x, out @ snd x) }
        else Some (s, out)) = Some r"
  obtain t out m c where p: "gz_pass inflate s n count = (t, out, m, c)" by (metis prod_cases4)
  from r have "r = (t, out) \<or> (\<exists>x. loop inflate t m c = Some x \<and> fst r = fst x)"
    by (auto simp: p bind_Some_iff split: if_splits)
  with IH gz_pass_area [OF p] show "same_area s (fst r)" by (fastforce simp: same_area_def)
qed

lemma gz_unzip_area:
  assumes "gz_unzipFromStream inflate s n = Some (t, out)"
  shows "same_area s t"
proof -
  obtain u where u: "gz_loop inflate s n (length (gz_avail s)) = Some (u, out)" "same_area u t"
    using assms by (auto simp: gz_unzipFromStream_def same_area_def bind_Some_iff split: if_splits)
  from gz_loop_area [OF u(1)] u(2) show ?thesis by (simp add: same_area_def)
qed

lemma gz_underflow_ok:
  assumes "gz_ok s" and "gz_underflow inflate s = Some (x, t)"
  shows "gz_ok t" and "gz_area s = [] \<Longrightarrow> x = Some b \<Longrightarrow> \<exists>bs. gz_area t = b # bs"
proof -
  have "gz_ok t \<and> (gz_area s = [] \<and> x = Some b \<longrightarrow> (\<exists>bs. gz_area t = b # bs))"
  proof (cases "gz_gptr s < gz_egptr s")
    case True
    with assms show ?thesis by (auto simp: gz_underflow_def gz_ok_def gz_area_def)
  next
    case False
    define c where "c = min 4 (gz_gptr s - gz_eback s)"
    from False assms(2) obtain buf u out where
      buf: "memcpy_within (gz_buf s) (4 - c) (gz_gptr s - c) c = Some buf"
      and u: "gz_unzipFromStream inflate (s\<lparr>gz_buf := buf\<rparr>) (GZ_BufferSize - 4) = Some (u, out)"
      and t: "(x, t) = (let v = u\<lparr>gz_buf := take 4 buf @ out @ drop (4 + length out) buf\<rparr> in
        if out = [] then (None, v)
        else (Some (gz_buf v ! 4), v\<lparr>gz_eback := 4 - c, gz_gptr := 4, gz_egptr := 4 + length out\<rparr>))"
      by (auto simp: gz_underflow_def Let_def bind_Some_iff c_def min_def split: if_splits)
    note len = memcpy_within_length [OF buf] and area = gz_unzip_area [OF u]
    show ?thesis
    proof (cases out)
      case Nil
      with t area assms(1) len show ?thesis by (simp add: gz_ok_def same_area_def)
    next
      case (Cons b bs)
      with t assms(1) len show ?thesis by (simp add: gz_ok_def gz_area_def nth_append)
    qed
  qed
  then show "gz_ok t" and "gz_area s = [] \<Longrightarrow> x = Some b \<Longrightarrow> \<exists>bs. gz_area t = b # bs" by blast+
qed

interpretation gzb: stream_buffer "gz_vtable inflate" gz_ok for inflate
proof unfold_locales
  fix s t :: "'a gz" and x b
  show "gz_ok s \<Longrightarrow> vt_underflow (gz_vtable inflate) s = Some (Inr (x, t)) \<Longrightarrow> gz_ok t"
    by (auto simp: gz_vtable_def intro: gz_underflow_ok(1))
  show "gz_ok s \<Longrightarrow> vt_area (gz_vtable inflate) s = [] \<Longrightarrow>
      vt_underflow (gz_vtable inflate) s = Some (Inr (Some b, t)) \<Longrightarrow>
      \<exists>bs. vt_area (gz_vtable inflate) t = b # bs"
    by (auto simp: gz_vtable_def intro: gz_underflow_ok(2))
qed (auto simp: gz_vtable_def gz_area_def gz_ok_def drop_take add.commute add.assoc)

text \<open>Draining through the interface is \<open>gz_drain\<close>.\<close>

lemma gz_drain_delivers:
  assumes "gz_drain inflate s = Some r"
  shows "gz_ok s \<longrightarrow> drain (gz_vtable inflate) s = Some (fst r, Clean)"
proof (rule gz_drain.raw_induct [where P = "\<lambda>inflate s r. gz_ok s \<longrightarrow> drain (gz_vtable inflate) s = Some (fst r, Clean)",
      OF _ assms], rule impI)
  fix rest :: "'a inflate \<Rightarrow> 'a gz \<Rightarrow> (u8 list \<times> 'a gz) option" and inflate s r
  assume IH: "\<And>inflate s r. rest inflate s = Some r \<Longrightarrow> gz_ok s \<longrightarrow> drain (gz_vtable inflate) s = Some (fst r, Clean)"
    and r: "(do { x \<leftarrow> gz_underflow inflate s;
        case fst x of
          None \<Rightarrow> Some ([], snd x)
        | Some b \<Rightarrow>
            let s = snd x;
                chunk = take (gz_egptr s - gz_gptr s) (drop (gz_gptr s) (gz_buf s)) in
            do { y \<leftarrow> rest inflate (s\<lparr>gz_gptr := gz_egptr s\<rparr>); Some (chunk @ fst y, snd y) } }) = Some r"
    and ok: "gz_ok s"
  from r obtain x t where x: "gz_underflow inflate s = Some (x, t)" by (auto simp: bind_Some_iff)
  show "drain (gz_vtable inflate) s = Some (fst r, Clean)"
  proof (cases x)
    case None
    with r x show ?thesis by (subst drain.simps) (auto simp: gz_vtable_def)
  next
    case (Some b)
    let ?t = "t\<lparr>gz_gptr := gz_egptr t\<rparr>"
    have t: "gz_ok t" "gz_ok ?t" using gz_underflow_ok(1) [OF ok x] by (auto simp: gz_ok_def)
    from r x Some obtain y where y: "rest inflate ?t = Some y" "r = (gz_area t @ fst y, snd y)"
      by (auto simp: bind_Some_iff gz_area_def Let_def)
    from IH [OF y(1)] t(2) have "drain (gz_vtable inflate) ?t = Some (fst y, Clean)" by blast
    moreover have "gz_gptr t + length (gz_area t) = gz_egptr t"
      using t(1) by (auto simp: gz_ok_def gz_area_def min_def)
    ultimately show ?thesis
      using x Some y(2) by (subst drain.simps) (simp add: gz_vtable_def)
  qed
qed

section \<open>The LZMA buffer\<close>

definition xz_vtable :: "'z lzma_code \<Rightarrow> 'z xz streambuf" where
  "xz_vtable code =
     \<lparr>vt_area = xz_area, vt_bump = (\<lambda>k s. s\<lparr>xz_gptr := xz_gptr s + k\<rparr>), vt_underflow = xz_underflow code\<rparr>"

definition xz_ok :: "'z xz \<Rightarrow> bool" where
  "xz_ok s \<longleftrightarrow> xz_gptr s \<le> xz_egptr s \<and> xz_egptr s \<le> length (xz_buf s)"

text \<open>A pass of the loop sets the get area to the bytes it produced.\<close>

definition xz_fresh :: "'z xz \<Rightarrow> bool" where
  "xz_fresh s \<longleftrightarrow> xz_gptr s = 0 \<and> xz_egptr s = xz_outputLength s \<and> xz_outputLength s \<le> length (xz_buf s)"

lemma xz_pass_fresh: "xz_pass code s = Inr t \<Longrightarrow> xz_fresh t"
  by (auto simp: xz_pass_def xz_fresh_def throwEx_def Let_def split: prod.splits if_splits)

lemma xz_loop_fresh:
  assumes "xz_loop code s = Some r"
  shows "case r of Inl x \<Rightarrow> True | Inr t \<Rightarrow> t = s \<or> xz_fresh t"
proof (rule xz_loop.raw_induct [where P = "\<lambda>code s r. case r of Inl x \<Rightarrow> True | Inr t \<Rightarrow> t = s \<or> xz_fresh t",
      OF _ assms])
  fix loop :: "'a lzma_code \<Rightarrow> 'a xz \<Rightarrow> (exn + 'a xz) option" and code s r
  assume IH: "\<And>code s r. loop code s = Some r \<Longrightarrow> case r of Inl x \<Rightarrow> True | Inr t \<Rightarrow> t = s \<or> xz_fresh t"
    and r: "(if \<not> xz_outputDone s \<and> xz_outputLength s = 0 then
        (case xz_pass code s of Inl x \<Rightarrow> Some (Inl x) | Inr s \<Rightarrow> loop code s)
      else Some (Inr s)) = Some r"
  show "case r of Inl x \<Rightarrow> True | Inr t \<Rightarrow> t = s \<or> xz_fresh t"
  proof (cases "xz_pass code s")
    case (Inr t)
    with r IH [of code t r] xz_pass_fresh [OF Inr] show ?thesis
      by (auto split: if_splits sum.splits)
  next
    case (Inl x)
    with r show ?thesis by (cases "\<not> xz_outputDone s \<and> xz_outputLength s = 0") auto
  qed
qed

lemma xz_underflow_ok:
  assumes "xz_ok s" and "xz_underflow code s = Some (Inr (x, t))"
  shows "xz_ok t" and "x = Some b \<Longrightarrow> \<exists>bs. xz_area t = b # bs"
proof -
  have "xz_ok t \<and> (x = Some b \<longrightarrow> (\<exists>bs. xz_area t = b # bs))"
  proof (cases "xz_outputDone s")
    case True
    with assms show ?thesis by (auto simp: xz_underflow_def)
  next
    case False
    with assms(2) obtain r where l: "xz_loop code (s\<lparr>xz_outputLength := 0\<rparr>) = Some r"
      by (cases "xz_loop code (s\<lparr>xz_outputLength := 0\<rparr>)") (simp_all add: xz_underflow_def)
    with False assms(2) have rt: "r = Inr t"
      and x: "x = (if xz_outputLength t > 0 then Some (xz_buf t ! 0) else None)"
      by (cases r; simp add: xz_underflow_def split: if_splits)+
    from xz_loop_fresh [OF l] have "t = s\<lparr>xz_outputLength := 0\<rparr> \<or> xz_fresh t" by (simp add: rt)
    then show ?thesis
    proof
      assume "t = s\<lparr>xz_outputLength := 0\<rparr>"
      with assms(1) x show ?thesis by (simp add: xz_ok_def)
    next
      assume "xz_fresh t"
      then show ?thesis
        using x by (cases "xz_buf t"; cases "xz_outputLength t") (auto simp: xz_fresh_def xz_ok_def xz_area_def)
    qed
  qed
  then show "xz_ok t" and "x = Some b \<Longrightarrow> \<exists>bs. xz_area t = b # bs" by blast+
qed

interpretation xzb: stream_buffer "xz_vtable code" xz_ok for code
proof unfold_locales
  fix s t :: "'a xz" and x b
  show "xz_ok s \<Longrightarrow> vt_underflow (xz_vtable code) s = Some (Inr (x, t)) \<Longrightarrow> xz_ok t"
    by (auto simp: xz_vtable_def intro: xz_underflow_ok(1))
  show "xz_ok s \<Longrightarrow> vt_area (xz_vtable code) s = [] \<Longrightarrow>
      vt_underflow (xz_vtable code) s = Some (Inr (Some b, t)) \<Longrightarrow>
      \<exists>bs. vt_area (xz_vtable code) t = b # bs"
    by (auto simp: xz_vtable_def intro: xz_underflow_ok(2))
qed (auto simp: xz_vtable_def xz_area_def xz_ok_def drop_take add.commute add.assoc)

lemma xz_drain_delivers:
  assumes "xz_drain code s = Some r"
  shows "xz_ok s \<longrightarrow> drain (xz_vtable code) s = Some r"
proof (rule xz_drain.raw_induct [where P = "\<lambda>code s r. xz_ok s \<longrightarrow> drain (xz_vtable code) s = Some r",
      OF _ assms], rule impI)
  fix rest :: "'a lzma_code \<Rightarrow> 'a xz \<Rightarrow> (u8 list \<times> stream_end) option" and code s r
  assume IH: "\<And>code s r. rest code s = Some r \<Longrightarrow> xz_ok s \<longrightarrow> drain (xz_vtable code) s = Some r"
    and r: "(do { r \<leftarrow> xz_underflow code s;
        case r of
          Inl x \<Rightarrow> Some ([], Broken)
        | Inr (None, s) \<Rightarrow> Some ([], Clean)
        | Inr (Some b, s) \<Rightarrow>
            let chunk = take (xz_egptr s - xz_gptr s) (drop (xz_gptr s) (xz_buf s)) in
            do { y \<leftarrow> rest code (s\<lparr>xz_gptr := xz_egptr s\<rparr>); Some (chunk @ fst y, snd y) } }) = Some r"
    and ok: "xz_ok s"
  from r obtain x where x: "xz_underflow code s = Some x" by (auto simp: bind_Some_iff)
  show "drain (xz_vtable code) s = Some r"
  proof (cases "\<exists>b t. x = Inr (Some b, t)")
    case False
    with r x show ?thesis
      by (subst drain.simps) (auto simp: xz_vtable_def split: sum.splits prod.splits option.splits)
  next
    case True
    then obtain b t where bt: "x = Inr (Some b, t)" by blast
    let ?t = "t\<lparr>xz_gptr := xz_egptr t\<rparr>"
    have t: "xz_ok t" "xz_ok ?t" using xz_underflow_ok(1) [OF ok] x bt by (auto simp: xz_ok_def)
    from r x bt obtain y where y: "rest code ?t = Some y" "r = (xz_area t @ fst y, snd y)"
      by (auto simp: bind_Some_iff xz_area_def Let_def)
    from IH [OF y(1)] t(2) have "drain (xz_vtable code) ?t = Some y" by blast
    moreover have "xz_gptr t + length (xz_area t) = xz_egptr t"
      using t(1) by (auto simp: xz_ok_def xz_area_def min_def)
    ultimately show ?thesis
      using x bt y(2) by (subst drain.simps) (simp add: xz_vtable_def)
  qed
qed

section \<open>FileReader, decoding on demand\<close>

text \<open>
  The two decoders with their initial states and the results of setting them up, the files
  and the build options. \<open>eager_platform\<close> is the platform where \<open>FileReader\<close> gets the
  decoded bytes of a file at once.
\<close>

record ('z, 'g) decoders =
  dc_files :: "string \<Rightarrow> u8 list option"
  dc_lzma_enabled :: bool
  dc_gzip_enabled :: bool
  dc_code :: "'z lzma_code"
  dc_lzma_init :: "'z \<times> int"
  dc_inflate :: "'g inflate"
  dc_gzip_init :: "'g \<times> int"

definition eager_platform :: "('z, 'g) decoders \<Rightarrow> platform" where
  "eager_platform d =
     \<lparr>pf_files = dc_files d, pf_lzma_enabled = dc_lzma_enabled d, pf_gzip_enabled = dc_gzip_enabled d,
      pf_lzma = xz_decode (dc_code d) (fst (dc_lzma_init d)) (snd (dc_lzma_init d)),
      pf_gzip = gz_decode (dc_inflate d) (fst (dc_gzip_init d)) (snd (dc_gzip_init d))\<rparr>"

text \<open>The constructors of the two streams, over a file stream.\<close>

definition LZMADecompressStream :: "istream \<Rightarrow> 'z \<Rightarrow> int \<Rightarrow> exn + 'z xz demand" where
  "LZMADecompressStream input z0 init_result =
     (case xz_make input z0 init_result of Inl x \<Rightarrow> Inl x | Inr s \<Rightarrow> Inr (demand_make s))"

definition GZipDecompressStream :: "istream \<Rightarrow> 'g \<Rightarrow> int \<Rightarrow> 'g gz demand" where
  "GZipDecompressStream input g0 init_error = demand_make (gz_make input g0 init_error)"

text \<open>What \<open>stream_\<close> points to; a decoding stream holds the file stream it reads from.\<close>

datatype ('z, 'g) lazy_stream =
    Plain_stream istream
  | Xz_stream "'z xz demand"
  | Gz_stream "'g gz demand"

definition lazy_open :: "('z, 'g) decoders \<Rightarrow> string \<Rightarrow> exn + ('z, 'g) lazy_stream" where
  "lazy_open d filename =
     (let fileStream = ifstream_open (dc_files d) filename in
      if istream_bool fileStream then
        if endsWith filename ''.xz'' then
          if dc_lzma_enabled d then
            (case LZMADecompressStream fileStream (fst (dc_lzma_init d)) (snd (dc_lzma_init d)) of
               Inl x \<Rightarrow> Inl x
             | Inr s \<Rightarrow> Inr (Xz_stream s))
          else throwEx runtime_error ''LZMA not supported''
        else if endsWith filename ''.gz'' then
          if dc_gzip_enabled d then
            Inr (Gz_stream (GZipDecompressStream fileStream (fst (dc_gzip_init d)) (snd (dc_gzip_init d))))
          else throwEx runtime_error ''GZip not supported''
        else Inr (Plain_stream fileStream)
      else Inr (Plain_stream fileStream))"

text \<open>\<open>read\<close>: the bytes stored, the count returned and the stream after it.\<close>

fun lazy_read ::
  "('z, 'g) decoders \<Rightarrow> nat \<Rightarrow> ('z, 'g) lazy_stream \<Rightarrow> (u8 list \<times> nat \<times> ('z, 'g) lazy_stream) option" where
  "lazy_read d n (Plain_stream s) =
     (case istream_read n s of (bs, s) \<Rightarrow> Some (bs, st_gcount s, Plain_stream s))"
| "lazy_read d n (Xz_stream s) =
     do { (bs, s) \<leftarrow> demand_read (xz_vtable (dc_code d)) n s; Some (bs, dm_gcount s, Xz_stream s) }"
| "lazy_read d n (Gz_stream s) =
     do { (bs, s) \<leftarrow> demand_read (gz_vtable (dc_inflate d)) n s; Some (bs, dm_gcount s, Gz_stream s) }"

fun lazy_bool :: "('z, 'g) lazy_stream \<Rightarrow> bool" where
  "lazy_bool (Plain_stream s) = istream_bool s"
| "lazy_bool (Xz_stream s) = demand_bool s"
| "lazy_bool (Gz_stream s) = demand_bool s"

fun lazy_good :: "('z, 'g) lazy_stream \<Rightarrow> bool" where
  "lazy_good (Plain_stream s) = istream_good s"
| "lazy_good (Xz_stream s) = demand_good s"
| "lazy_good (Gz_stream s) = demand_good s"

fun lazy_eof :: "('z, 'g) lazy_stream \<Rightarrow> bool" where
  "lazy_eof (Plain_stream s) = st_eof s"
| "lazy_eof (Xz_stream s) = dm_eof s"
| "lazy_eof (Gz_stream s) = dm_eof s"

section \<open>The two ways of reading compared\<close>

text \<open>
  A client of an open file as a tree: it ends, or reads some number of bytes and goes on with
  what it sees, the bytes and the count, or asks for the state, \<open>operator bool\<close>, \<open>good\<close> and
  \<open>eof\<close>, and goes on with that.
\<close>

datatype 'a client =
    Finish 'a
  | Read nat "u8 list \<times> nat \<Rightarrow> 'a client"
  | Query "bool \<times> bool \<times> bool \<Rightarrow> 'a client"

primrec eager_run :: "'a client \<Rightarrow> FileReader \<Rightarrow> 'a option" where
  "eager_run (Finish a) r = Some a"
| "eager_run (Read n f) r = do { (bs, k, r) \<leftarrow> FileReader_read n r; eager_run (f (bs, k)) r }"
| "eager_run (Query f) r =
     do { b \<leftarrow> FileReader_bool r; g \<leftarrow> FileReader_good r; e \<leftarrow> FileReader_eof r;
          eager_run (f (b, g, e)) r }"

primrec lazy_run :: "('z, 'g) decoders \<Rightarrow> 'a client \<Rightarrow> ('z, 'g) lazy_stream \<Rightarrow> 'a option" where
  "lazy_run d (Finish a) s = Some a"
| "lazy_run d (Read n f) s = do { (bs, k, s) \<leftarrow> lazy_read d n s; lazy_run d (f (bs, k)) s }"
| "lazy_run d (Query f) s = lazy_run d (f (lazy_bool s, lazy_good s, lazy_eof s)) s"

text \<open>The client on the file of a name, or the exception of opening it.\<close>

definition eager_session :: "('z, 'g) decoders \<Rightarrow> string \<Rightarrow> 'a client \<Rightarrow> (exn + 'a) option" where
  "eager_session d name c =
     (case FileReader_open (eager_platform d) name of
        Inl x \<Rightarrow> Some (Inl x)
      | Inr r \<Rightarrow> map_option Inr (eager_run c r))"

definition lazy_session :: "('z, 'g) decoders \<Rightarrow> string \<Rightarrow> 'a client \<Rightarrow> (exn + 'a) option" where
  "lazy_session d name c =
     (case lazy_open d name of
        Inl x \<Rightarrow> Some (Inl x)
      | Inr s \<Rightarrow> map_option Inr (lazy_run d c s))"

text \<open>A compressed file that can be read to its end: no call is undefined or does not return.\<close>

definition drainable :: "('z, 'g) decoders \<Rightarrow> string \<Rightarrow> u8 list \<Rightarrow> bool" where
  "drainable d name bs \<longleftrightarrow>
     (if suffix ''.xz'' name then
        (case xz_make (istream_make bs Clean) (fst (dc_lzma_init d)) (snd (dc_lzma_init d)) of
           Inl x \<Rightarrow> True
         | Inr s \<Rightarrow> xz_drain (dc_code d) s \<noteq> None)
      else if suffix ''.gz'' name then
        gz_drain (dc_inflate d) (gz_make (istream_make bs Clean) (fst (dc_gzip_init d)) (snd (dc_gzip_init d))) \<noteq> None
      else True)"

fun reads_as :: "('z, 'g) decoders \<Rightarrow> ('z, 'g) lazy_stream \<Rightarrow> istream \<Rightarrow> bool" where
  "reads_as d (Plain_stream s) t \<longleftrightarrow> s = t"
| "reads_as d (Xz_stream s) t \<longleftrightarrow> xzb.on_demand (dc_code d) s t"
| "reads_as d (Gz_stream s) t \<longleftrightarrow> gzb.on_demand (dc_inflate d) s t"

lemma reads_as_state:
  "reads_as d s t \<Longrightarrow> lazy_bool s = istream_bool t \<and> lazy_good s = istream_good t \<and> lazy_eof s = st_eof t"
  by (cases s) (simp_all add: xzb.on_demand_state gzb.on_demand_state, simp_all add: xzb.on_demand_def gzb.on_demand_def)

lemma lazy_read_sim:
  assumes "reads_as d s t" and "istream_read n t = (bs, t')"
  shows "\<exists>s'. lazy_read d n s = Some (bs, st_gcount t', s') \<and> reads_as d s' t'"
proof (cases s)
  case (Plain_stream u)
  with assms show ?thesis by simp
next
  case (Xz_stream u)
  with assms xzb.demand_read_sim [of "dc_code d" u t n] obtain u' where
    "demand_read (xz_vtable (dc_code d)) n u = Some (bs, u')" "xzb.on_demand (dc_code d) u' t'" by auto
  with Xz_stream show ?thesis by (simp add: xzb.on_demand_def)
next
  case (Gz_stream u)
  with assms gzb.demand_read_sim [of "dc_inflate d" u t n] obtain u' where
    "demand_read (gz_vtable (dc_inflate d)) n u = Some (bs, u')" "gzb.on_demand (dc_inflate d) u' t'" by auto
  with Gz_stream show ?thesis by (simp add: gzb.on_demand_def)
qed

lemma lazy_run_sim:
  "FileReader_deref r = Some t \<Longrightarrow> reads_as d s t \<Longrightarrow> lazy_run d c s = eager_run c r \<and> eager_run c r \<noteq> None"
proof (induction c arbitrary: r s t)
  case (Read n f)
  obtain bs t' where t': "istream_read n t = (bs, t')" by fastforce
  then obtain s' where s': "lazy_read d n s = Some (bs, st_gcount t', s')" "reads_as d s' t'"
    using lazy_read_sim [OF Read.prems(2)] by blast
  let ?r = "FileReader_put r t'"
  have r: "FileReader_read n r = Some (bs, st_gcount t', ?r)" "FileReader_deref ?r = Some t'"
    using Read.prems(1) t' by (simp_all add: FileReader_read_def)
  from Read.IH [OF rangeI r(2) s'(2)] r(1) s'(1) show ?case by simp
next
  case (Query f)
  from Query.IH [OF rangeI Query.prems] Query.prems(1) reads_as_state [OF Query.prems(2)] show ?case
    by (simp add: FileReader_bool_def FileReader_good_def FileReader_eof_def)
qed simp

lemma xz_make_delivers:
  assumes "xz_make input z0 init_result = Inr s" and "xz_drain code s = Some (out, e)"
  shows "xzb.delivers code s out e"
proof (rule xzb.delivers_start)
  show ok: "xz_ok s" and "vt_area (xz_vtable code) s = []"
    using assms(1) by (auto simp: xz_make_def xz_ok_def xz_area_def xz_vtable_def throwEx_def split: if_splits)
  from xz_drain_delivers [OF assms(2)] ok show "drain (xz_vtable code) s = Some (out, e)" by blast
qed

lemma gz_make_delivers:
  assumes "gz_drain inflate (gz_make input g0 init_error) = Some (out, t)"
  shows "gzb.delivers inflate (gz_make input g0 init_error) out Clean"
proof (rule gzb.delivers_start)
  show ok: "gz_ok (gz_make input g0 init_error)"
    and "vt_area (gz_vtable inflate) (gz_make input g0 init_error) = []"
    by (simp_all add: gz_make_def gz_ok_def gz_area_def gz_vtable_def GZ_BufferSize_def)
  from gz_drain_delivers [OF assms] ok
  show "drain (gz_vtable inflate) (gz_make input g0 init_error) = Some (out, Clean)" by simp
qed

lemma lazy_open_sim:
  assumes "\<forall>bs. dc_files d name = Some bs \<longrightarrow> drainable d name bs"
  shows "case FileReader_open (eager_platform d) name of
      Inl x \<Rightarrow> lazy_open d name = Inl x
    | Inr r \<Rightarrow> \<exists>s t. lazy_open d name = Inr s \<and> FileReader_deref r = Some t \<and> reads_as d s t"
proof (cases "dc_files d name")
  case None
  then show ?thesis
    by (simp add: FileReader_open_def lazy_open_def eager_platform_def ifstream_open_def istream_bool_def
        FileReader_deref_def)
next
  case (Some bs)
  let ?pf = "eager_platform d"
  have pf: "pf_files ?pf name = Some bs" "pf_lzma_enabled ?pf = dc_lzma_enabled d"
    "pf_gzip_enabled ?pf = dc_gzip_enabled d" "pf_files ?pf = dc_files d"
    "pf_lzma ?pf = xz_decode (dc_code d) (fst (dc_lzma_init d)) (snd (dc_lzma_init d))"
    "pf_gzip ?pf = gz_decode (dc_inflate d) (fst (dc_gzip_init d)) (snd (dc_gzip_init d))"
    using Some by (simp_all add: eager_platform_def)
  have ok: "drainable d name bs" using assms Some by blast
  consider (xz) "endsWith name ''.xz''" | (gz) "endsWith name ''.gz''" "\<not> endsWith name ''.xz''"
    | (plain) "\<not> endsWith name ''.xz''" "\<not> endsWith name ''.gz''" by blast
  then show ?thesis
  proof cases
    case xz
    show ?thesis
    proof (cases "xz_make (istream_make bs Clean) (fst (dc_lzma_init d)) (snd (dc_lzma_init d))")
      case (Inl x)
      with xz pf Some show ?thesis
        by (simp add: FileReader_open_def lazy_open_def ifstream_open_found xz_decode_def
            LZMADecompressStream_def throwEx_def Let_def)
    next
      case (Inr s)
      with ok xz obtain out e where out: "xz_drain (dc_code d) s = Some (out, e)"
        by (auto simp: drainable_def endsWith_is_suffix)
      from xzb.on_demand_make [OF xz_make_delivers [OF Inr out]] Inr out xz pf Some show ?thesis
        by (simp add: FileReader_open_def lazy_open_def ifstream_open_found xz_decode_def
            LZMADecompressStream_def throwEx_def FileReader_deref_def Let_def)
    qed
  next
    case gz
    let ?s = "gz_make (istream_make bs Clean) (fst (dc_gzip_init d)) (snd (dc_gzip_init d))"
    from ok gz obtain out t where out: "gz_drain (dc_inflate d) ?s = Some (out, t)"
      by (auto simp: drainable_def endsWith_is_suffix)
    from gzb.on_demand_make [OF gz_make_delivers [OF out]] out gz pf Some show ?thesis
      by (simp add: FileReader_open_def lazy_open_def ifstream_open_found gz_decode_def
          GZipDecompressStream_def throwEx_def FileReader_deref_def Let_def)
  next
    case plain
    with pf Some show ?thesis
      by (simp add: FileReader_open_def lazy_open_def ifstream_open_found FileReader_deref_def Let_def)
  qed
qed

text \<open>
  C11. Decoding on demand. Whatever the file, as long as the decoder can read it to its end (a
  plain file always, a compressed one whether it ends well or in an error of the decoder),
  a client that opens it and goes on with what it sees, reading pieces of any sizes and
  asking for the state, cannot tell whether each read decodes only what it needs, through
  the get areas of the decoding buffers, or takes it from the decoded whole; and it is not
  led into undefined behaviour.
\<close>

theorem on_demand_reading:
  assumes "\<forall>bs. dc_files d name = Some bs \<longrightarrow> drainable d name bs"
  shows "lazy_session d name c = eager_session d name c \<and> lazy_session d name c \<noteq> None"
proof (cases "FileReader_open (eager_platform d) name")
  case (Inl x)
  with lazy_open_sim [OF assms] show ?thesis by (simp add: lazy_session_def eager_session_def)
next
  case (Inr r)
  with lazy_open_sim [OF assms] obtain s t where
    "lazy_open d name = Inr s" "FileReader_deref r = Some t" "reads_as d s t" by auto
  with lazy_run_sim [of r t d s c] Inr show ?thesis by (simp add: lazy_session_def eager_session_def)
qed

text \<open>The files that the decoders decode, by what liblzma and zlib document, are such files.\<close>

lemma file_decodable_drainable:
  assumes lzma: "lzma_progress (dc_code d) stalled" "lzma_decodes (dc_code d) fx cx"
    and gzip: "inflate_documented (dc_inflate d) fg cg ended"
    and init: "snd (dc_lzma_init d) = LZMA_OK" "snd (dc_gzip_init d) = Z_OK"
    and decodable: "file_decodable (cx (fst (dc_lzma_init d))) (cg (fst (dc_gzip_init d))) (fg (fst (dc_gzip_init d))) name bs"
  shows "drainable d name bs"
proof -
  let ?z = "fst (dc_lzma_init d)" and ?g = "fst (dc_gzip_init d)"
  have "xz_drain (dc_code d) s \<noteq> None" if "cx ?z bs" "xz_make (istream_make bs Clean) ?z LZMA_OK = Inr s" for s
  proof -
    have "xz_running cx s" using that by (auto simp: xz_make_def xz_running_def xz_in_def)
    from xz_drain_running [OF lzma this] show ?thesis by simp
  qed
  moreover have "gz_drain (dc_inflate d) (gz_make (istream_make bs Clean) ?g Z_OK) \<noteq> None"
    if "cg ?g bs" "length (fg ?g bs) \<le> 4092 \<or> length (fg ?g bs) mod 4092 \<notin> {1, 2, 3}"
  proof -
    have "cg ?g (istream_bytes (istream_make bs Clean))" using that by simp
    note start = gz_make_start [of _ cg ?g, OF istream_make_facts(5) this]
    from gz_drain_from_start [OF gzip start(1,2) start(3) [of fg]] that(2)
    show ?thesis by (auto split: if_splits)
  qed
  ultimately show ?thesis
    using decodable by (auto simp: drainable_def file_decodable_def init split: sum.splits if_splits)
qed

text \<open>For the witness: two compressed files, with the copying decoders.\<close>

definition copy_decoders :: "(unit, bool) decoders" where
  "copy_decoders =
     \<lparr>dc_files = [''a.gz'' \<mapsto> [1, 2, 0], ''b.xz'' \<mapsto> [7, 9]], dc_lzma_enabled = True, dc_gzip_enabled = True,
      dc_code = lzma_copy, dc_lzma_init = ((), LZMA_OK), dc_inflate = inflate_copy, dc_gzip_init = (False, Z_OK)\<rparr>"

text \<open>A client that reads a byte, then as many bytes as this says, and asks whether it is at the end.\<close>

definition length_prefixed :: "(u8 list \<times> bool) client" where
  "length_prefixed =
     Read 1 (\<lambda>(bs, k). Read (if k = 1 then unat (hd bs) else 0) (\<lambda>(cs, k). Query (\<lambda>(b, g, e). Finish (cs, e))))"

lemma on_demand_reading_witness:
  "lazy_session copy_decoders ''a.gz'' length_prefixed = eager_session copy_decoders ''a.gz'' length_prefixed
   \<and> lazy_session copy_decoders ''b.xz'' length_prefixed = eager_session copy_decoders ''b.xz'' length_prefixed"
proof -
  have "drainable copy_decoders name bs" if "dc_files copy_decoders name = Some bs" for name bs
  proof (rule file_decodable_drainable)
    show "lzma_progress (dc_code copy_decoders) (\<lambda>z. True)"
      "lzma_decodes (dc_code copy_decoders) (\<lambda>z inp. inp) (\<lambda>z inp. 0 \<notin> set inp)"
      "inflate_documented (dc_inflate copy_decoders) (\<lambda>z inp. if z then [] else takeWhile (\<lambda>b. b \<noteq> 0) inp)
         (\<lambda>z inp. \<not> z \<and> 0 \<in> set inp) (\<lambda>z. z)"
      by (simp_all add: copy_decoders_def lzma_copy_progress lzma_copy_decodes inflate_copy_documented)
  qed (use that in \<open>auto simp: copy_decoders_def file_decodable_def suffix_def split: if_splits\<close>)
  then show ?thesis
    using on_demand_reading [of copy_decoders "''a.gz''" length_prefixed]
      on_demand_reading [of copy_decoders "''b.xz''" length_prefixed] by blast
qed

end
