(* ===== verification/Nb_EndToEnd.thy ===== *)
theory Nb_EndToEnd
  imports Nb_Decoding Nb_PacketSource
begin

text \<open>
  The whole chain of a capture source: \<open>PcapPacketSource\<close> over \<open>pcap::Reader\<close> over
  \<open>FileReader\<close> over the decoding streams, on a mixture of plain, xz and gzip files.
\<close>

text \<open>
  On any mixture of plain, xz and gzip captures, missing files included: if the decoders
  behave as their libraries document and can decode the files, the packet source ends without
  undefined behaviour and has delivered the merge, by time, of the packets that the decoded
  contents hold.
\<close>

theorem capture_chain_correct:
  assumes "lzma_progress code stalled" and "lzma_decodes code fx cx"
    and "inflate_documented inflate fg cg ended" and "heap_ok h"
    and "\<forall>name\<in>set names. \<forall>bs. files name = Some bs \<longrightarrow> file_decodable (cx z) (cg g) (fg g) name bs"
  shows "\<exists>h' s'. source_program e (full_platform files code z inflate g) h callback names
      = Some (Inr (merge_lanes (map (\<lambda>name. pcap_file e (file_content files (fx z) (fg g) name)) names), h', s'))
    \<and> PcapPacketSource_isDone s'"
proof -
  let ?pf = "full_platform files code z inflate g"
  have each: "opens ?pf name \<and> file_packets e ?pf name = pcap_file e (file_content files (fx z) (fg g) name)"
    if "name \<in> set names" for name
  proof -
    have "\<forall>bs. files name = Some bs \<longrightarrow> file_decodable (cx z) (cg g) (fg g) name bs"
      using assms(5) that by blast
    from full_platform_open [where z = z and g = g and files = files and name = name and fx = fx
        and cx = cx and fg = fg and cg = cg, OF assms(1-3) this] obtain f where
      "FileReader_open ?pf name = Inr f" "FileReader_bytes f = file_content files (fx z) (fg g) name" .
    then show ?thesis by (simp add: opens_def file_packets_def)
  qed
  then have eq: "map (file_packets e ?pf) names
      = map (\<lambda>name. pcap_file e (file_content files (fx z) (fg g) name)) names"
    by simp
  have "\<forall>name\<in>set names. opens ?pf name" using each by blast
  then obtain h' s' where "source_program e ?pf h callback names
      = Some (Inr (merge_lanes (map (file_packets e ?pf) names), h', s'))" "PcapPacketSource_isDone s'"
    using source_program_outcome [OF assms(4), of names ?pf e callback] by blast
  then show ?thesis unfolding eq by blast
qed

text \<open>A mixture of files for which the hypotheses hold, with the copying decoders.\<close>

abbreviation sample_chain_files :: "string \<Rightarrow> u8 list option" where
  "sample_chain_files \<equiv> [''a.xz'' \<mapsto> [1, 2, 3], ''b.gz'' \<mapsto> [1, 0],
     ''c.pcap'' \<mapsto> capture_bytes Little sample_header sample_records]"

abbreviation sample_chain_names :: "string list" where
  "sample_chain_names \<equiv> [''a.xz'', ''b.gz'', ''c.pcap'', ''missing'']"

lemma sample_suffixes:
  "suffix ''.xz'' ''a.xz''" "\<not> suffix ''.xz'' ''b.gz''" "suffix ''.gz'' ''b.gz''"
  "\<not> suffix ''.xz'' ''c.pcap''" "\<not> suffix ''.gz'' ''c.pcap''"
  by (simp_all add: suffix_to_prefix)

lemma sample_chain_decodable:
  "\<forall>name\<in>set sample_chain_names. \<forall>bs. sample_chain_files name = Some bs \<longrightarrow>
     file_decodable (\<lambda>inp. 0 \<notin> set inp) (\<lambda>inp. \<not> False \<and> 0 \<in> set inp)
       (\<lambda>inp. if False then [] else takeWhile (\<lambda>b :: u8. b \<noteq> 0) inp) name bs"
  using sample_suffixes by (auto simp: file_decodable_def)

lemma sample_chain_packets:
  "map (\<lambda>name. pcap_file Little (file_content sample_chain_files (\<lambda>inp. inp)
       (\<lambda>inp. if False then [] else takeWhile (\<lambda>b :: u8. b \<noteq> 0) inp) name)) sample_chain_names
   = [[], [], map (record_captured 1000) sample_records, []]"
proof -
  have "pcap_file Little (capture_bytes Little sample_header sample_records)
      = map (record_captured 1000) sample_records"
    using pcap_file_capture [OF sample_ok, of Little] by (simp add: header_tick_def sample_header_def)
  then show ?thesis
    using sample_suffixes by (simp add: file_content_def) (simp add: pcap_file_def)
qed

end
