(* ===== verification/Nb_Frames.thy ===== *)
theory Nb_Frames
  imports Nb_PcapReader Nb_Decoding
begin

text \<open>
  Ethernet frames as values, a writer of their bytes, and the lines that
  \<open>examples/pcap_reader.cpp\<close> is meant to print for them: the specification of \<open>printPacket\<close>
  and of the whole program on a capture of such frames.
\<close>

section \<open>Frames\<close>

text \<open>
  An IPv4 datagram without options: \<open>dg_head\<close> are the bytes from the type of service to the
  fragment offset, which the program does not look at.
\<close>

datatype transport =
    Udp_segment (sg_source: u16) (sg_destination: u16) (sg_checksum: u16) (sg_data: "u8 list")
  | Other_segment (sg_protocol: u8) (sg_data: "u8 list")

record datagram =
  dg_head :: "u8 list"
  dg_ttl :: u8
  dg_checksum :: u16
  dg_source :: "u8 list"
  dg_destination :: "u8 list"
  dg_content :: transport

datatype network =
    Internet datagram
  | Vlan "u8 list" datagram
  | Other_network u16 "u8 list"

record frame =
  fm_destination :: "u8 list"
  fm_source :: "u8 list"
  fm_content :: network

text \<open>A 16 bit number in network byte order.\<close>

definition be16 :: "u16 \<Rightarrow> u8 list" where
  "be16 w = rev (bytes_of_le 2 w)"

fun transport_protocol :: "transport \<Rightarrow> u8" where
  "transport_protocol (Udp_segment s d c bs) = 17"
| "transport_protocol (Other_segment p bs) = p"

fun transport_bytes :: "transport \<Rightarrow> u8 list" where
  "transport_bytes (Udp_segment s d c bs) =
     be16 s @ be16 d @ be16 (of_nat (8 + length bs)) @ be16 c @ bs"
| "transport_bytes (Other_segment p bs) = bs"

definition datagram_bytes :: "datagram \<Rightarrow> u8 list" where
  "datagram_bytes dg =
     [0x45] @ dg_head dg @ [dg_ttl dg, transport_protocol (dg_content dg)] @ be16 (dg_checksum dg)
     @ dg_source dg @ dg_destination dg @ transport_bytes (dg_content dg)"

fun network_bytes :: "network \<Rightarrow> u8 list" where
  "network_bytes (Internet dg) = be16 0x0800 @ datagram_bytes dg"
| "network_bytes (Vlan tag dg) = be16 0x8100 @ tag @ be16 0x0800 @ datagram_bytes dg"
| "network_bytes (Other_network p bs) = be16 p @ bs"

definition frame_bytes :: "frame \<Rightarrow> u8 list" where
  "frame_bytes fm = fm_destination fm @ fm_source fm @ network_bytes (fm_content fm)"

text \<open>The fields have their sizes, and the other protocols are others.\<close>

definition datagram_ok :: "datagram \<Rightarrow> bool" where
  "datagram_ok dg \<longleftrightarrow> length (dg_head dg) = 7 \<and> length (dg_source dg) = 4
     \<and> length (dg_destination dg) = 4
     \<and> (case dg_content dg of Udp_segment s d c bs \<Rightarrow> True | Other_segment p bs \<Rightarrow> p \<noteq> 17)"

fun network_ok :: "network \<Rightarrow> bool" where
  "network_ok (Internet dg) = datagram_ok dg"
| "network_ok (Vlan tag dg) = (length tag = 2 \<and> datagram_ok dg)"
| "network_ok (Other_network p bs) = (p \<noteq> 0x0800 \<and> p \<noteq> 0x8100)"

definition frame_ok :: "frame \<Rightarrow> bool" where
  "frame_ok fm \<longleftrightarrow> length (fm_destination fm) = 6 \<and> length (fm_source fm) = 6
     \<and> network_ok (fm_content fm)"

section \<open>What is printed of a frame\<close>

fun transport_lines :: "transport \<Rightarrow> line list" where
  "transport_lines (Udp_segment s d c bs) =
     [Line_port_src s, Line_port_dst d, Line_len (of_nat (8 + length bs)), Line_checksum c,
      Line_payload_size (of_nat (length bs))]"
| "transport_lines (Other_segment p bs) = []"

definition datagram_lines :: "endian \<Rightarrow> datagram \<Rightarrow> line list" where
  "datagram_lines e dg =
     [Line_src (IPv4_Address_fromBytes e (dg_source dg)),
      Line_dst (IPv4_Address_fromBytes e (dg_destination dg)),
      Line_checksum (dg_checksum dg), Line_ttl (dg_ttl dg),
      Line_protocol (transport_protocol (dg_content dg))] @ transport_lines (dg_content dg)"

fun network_lines :: "endian \<Rightarrow> network \<Rightarrow> line list" where
  "network_lines e (Internet dg) = Line_internet # datagram_lines e dg"
| "network_lines e (Vlan tag dg) = Line_vlan # datagram_lines e dg"
| "network_lines e (Other_network p bs) = []"

definition frame_lines :: "endian \<Rightarrow> frame \<Rightarrow> line list" where
  "frame_lines e fm =
     [Line_packet, Line_mac_src (EthernetII_toString (fm_source fm)),
      Line_mac_dst (EthernetII_toString (fm_destination fm))] @ network_lines e (fm_content fm)"

section \<open>Printing a frame\<close>

lemma length_be16 [simp]: "length (be16 w) = 2"
  by (simp add: be16_def)

lemma ntoh_be16 [simp]: "networkToHost16 e (word_of_bytes e (be16 w)) = w"
  by (simp add: ntoh16_of_bytes) (simp add: be16_def word_of_le_bytes_of_le)

text \<open>A 16 bit field of a buffer that has the bytes of a number at its place.\<close>

lemma load_be16:
  assumes "load_bytes m p n = Some (xs @ be16 w @ ys)" and "length xs = k"
  shows "do { w \<leftarrow> load16 e m (ptr_add p k); Some (networkToHost16 e w) } = Some w"
proof -
  have "k + 2 \<le> n" using load_bytes_length [OF assms(1)] assms(2) by simp
  with assms show ?thesis by (simp add: load16_sub)
qed

lemma load_byte_at:
  assumes "load_bytes m p n = Some (xs @ b # ys)" and "length xs = k"
  shows "do { bs \<leftarrow> load_bytes m (ptr_add p k) 1; Some (hd bs) } = Some b"
proof -
  have "k < n" using load_bytes_length [OF assms(1)] assms(2) by simp
  from load8_sub [OF assms(1) this] assms(2) show ?thesis by auto
qed

lemma load_address_at:
  assumes "load_bytes m p n = Some (xs @ as @ ys)" and "length xs = k" and "length as = 4"
  shows "do { w \<leftarrow> load32 e m (ptr_add p k); Some (IPv4_Address_fromUint e (networkToHost32 e w)) }
    = Some (IPv4_Address_fromBytes e as)"
proof -
  have "k + 4 \<le> n" using load_bytes_length [OF assms(1)] assms(2,3) by simp
  with assms show ?thesis by (simp add: load32_address [OF assms(1)] del: IPv4_fromUint_ntoh)
qed

lemma print_udp_segment:
  assumes l: "load_bytes m (IPv4_pdu_payload i) (unat (IPv4_pdu_payloadSize i))
      = Some (transport_bytes (Udp_segment s d c bs))"
  shows "print_udp e m i = Some (transport_lines (Udp_segment s d c bs))"
proof -
  have n: "unat (IPv4_pdu_payloadSize i) = 8 + length bs" using load_bytes_length [OF l] by simp
  then obtain u where u: "UDP_make (IPv4_pdu_payload i) (IPv4_pdu_payloadSize i) = Inr u"
    using udp.make_ok [of "IPv4_pdu_payloadSize i"] by (auto simp: UDP_HeaderSize_def word_le_nat_alt)
  have h: "udp_header u = IPv4_pdu_payload i" using UDP_make_header [OF u] by simp
  have size: "unat (UDP_payloadSize u) = length bs"
    using udp.payload_size_unat [OF u] n by (simp add: UDP_HeaderSize_def)
  have "UDP_payloadSize u = of_nat (length bs)" using size [symmetric] by simp
  moreover have "UDP_source e m u = Some s" "UDP_destination e m u = Some d"
    "UDP_length e m u = Some (of_nat (8 + length bs))" "UDP_checksum e m u = Some c"
    using load_be16 [of m "IPv4_pdu_payload i" _ "[]" s _ 0 e] l
      load_be16 [of m "IPv4_pdu_payload i" _ "be16 s" d _ 2 e]
      load_be16 [of m "IPv4_pdu_payload i" _ "be16 s @ be16 d" "of_nat (8 + length bs)" _ 4 e]
      load_be16 [of m "IPv4_pdu_payload i" _ "be16 s @ be16 d @ be16 (of_nat (8 + length bs))" c _ 6 e]
    by (simp_all add: accessor_defs h)
  ultimately show ?thesis by (simp add: print_udp_def u)
qed

lemma length_transport_udp: "length (transport_bytes (Udp_segment s d c bs)) = 8 + length bs"
  by simp

lemma print_datagram:
  assumes l: "load_bytes m p (unat n) = Some (datagram_bytes dg)" and ok: "datagram_ok dg"
  shows "print_ipv4 e m p n = Some (datagram_lines e dg)"
proof -
  let ?content = "dg_content dg" and ?head = "0x45 # dg_head dg"
  let ?fixed = "?head @ [dg_ttl dg, transport_protocol ?content] @ be16 (dg_checksum dg)"
  have bytes: "datagram_bytes dg
      = ?fixed @ dg_source dg @ dg_destination dg @ transport_bytes ?content"
    by (simp add: datagram_bytes_def)
  have len: "length ?head = 8" "length ?fixed = 12" "length (dg_source dg) = 4"
    "length (dg_destination dg) = 4"
    using ok by (simp_all add: datagram_ok_def)
  have "20 \<le> unat n" using load_bytes_length [OF l] len by (simp add: bytes)
  then obtain i where i: "IPv4_pdu_make p n = Inr i"
    using ip.make_ok [of n] by (auto simp: IPv4_pdu_HeaderSize_def word_le_nat_alt)
  have h: "ip_header i = p" using IPv4_pdu_make_header [OF i] by simp
  have fields: "IPv4_pdu_version m i = Some 4" "IPv4_pdu_ttl m i = Some (dg_ttl dg)"
    "IPv4_pdu_protocol m i = Some (transport_protocol ?content)"
    "IPv4_pdu_checksum e m i = Some (dg_checksum dg)"
    "IPv4_pdu_source e m i = Some (IPv4_Address_fromBytes e (dg_source dg))"
    "IPv4_pdu_destination e m i = Some (IPv4_Address_fromBytes e (dg_destination dg))"
  proof -
    have "load_bytes m p 1 = Some [0x45]"
      using load_bytes_prefix [OF l, of 1] \<open>20 \<le> unat n\<close> by (simp add: bytes)
    then show "IPv4_pdu_version m i = Some 4" by (simp add: IPv4_pdu_version_def h)
    show "IPv4_pdu_ttl m i = Some (dg_ttl dg)"
      unfolding IPv4_pdu_ttl_def h using l len by (intro load_byte_at [of _ _ _ ?head]) (simp_all add: bytes)
    show "IPv4_pdu_protocol m i = Some (transport_protocol ?content)"
      unfolding IPv4_pdu_protocol_def h
      using l len by (intro load_byte_at [of _ _ _ "?head @ [dg_ttl dg]"]) (simp_all add: bytes)
    show "IPv4_pdu_checksum e m i = Some (dg_checksum dg)"
      unfolding IPv4_pdu_checksum_def h
      using l len by (intro load_be16 [of _ _ _ "?head @ [dg_ttl dg, transport_protocol ?content]"])
        (simp_all add: bytes)
    show "IPv4_pdu_source e m i = Some (IPv4_Address_fromBytes e (dg_source dg))"
      unfolding IPv4_pdu_source_def h
      using l len by (intro load_address_at [of _ _ _ ?fixed]) (simp_all add: bytes)
    show "IPv4_pdu_destination e m i = Some (IPv4_Address_fromBytes e (dg_destination dg))"
      unfolding IPv4_pdu_destination_def h
      using l len by (intro load_address_at [of _ _ _ "?fixed @ dg_source dg"]) (simp_all add: bytes)
  qed
  have "load_bytes m (IPv4_pdu_payload i) (unat (IPv4_pdu_payloadSize i))
      = Some (transport_bytes ?content)"
    using ip.payload_load [OF i l] len by (simp add: bytes IPv4_pdu_HeaderSize_def)
  then have "transport_protocol ?content = IPPROTO_UDP \<Longrightarrow> print_udp e m i = Some (transport_lines ?content)"
    and "transport_protocol ?content \<noteq> IPPROTO_UDP \<Longrightarrow> transport_lines ?content = []"
    using ok print_udp_segment [of m i] by (cases ?content; auto simp: datagram_ok_def IPPROTO_UDP_def)+
  then show ?thesis
    by (simp add: print_ipv4_def i fields datagram_lines_def)
qed


lemma frame_header:
  assumes l: "load_bytes m p (unat n) = Some (frame_bytes fm)" and ok: "frame_ok fm"
    and c: "network_bytes (fm_content fm) = be16 w @ rest"
  obtains x where "EthernetII_make p n = Inr x"
    and "EthernetII_source m x = Some (fm_source fm)"
    and "EthernetII_destination m x = Some (fm_destination fm)"
    and "EthernetII_protocol e m x = Some w"
    and "load_bytes m (EthernetII_payload x) (unat (EthernetII_payloadSize x)) = Some rest"
proof -
  have len: "length (fm_destination fm) = 6" "length (fm_source fm) = 6"
    using ok by (simp_all add: frame_ok_def)
  have n: "14 \<le> unat n" using load_bytes_length [OF l] len by (simp add: frame_bytes_def c)
  then obtain x where x: "EthernetII_make p n = Inr x"
    using eth.make_ok [of n] by (auto simp: EthernetII_HeaderSize_def word_le_nat_alt)
  have h: "eth_header x = p" using EthernetII_make_header [OF x] by simp
  have "EthernetII_protocol e m x = Some w"
    unfolding EthernetII_protocol_def h
    using l len by (intro load_be16 [of _ _ _ "fm_destination fm @ fm_source fm"])
      (simp_all add: frame_bytes_def c)
  moreover have "EthernetII_source m x = Some (fm_source fm)"
    "EthernetII_destination m x = Some (fm_destination fm)"
    using load_bytes_sub [OF l, of 6 6] load_bytes_prefix [OF l, of 6] n len
    by (simp_all add: accessor_defs h frame_bytes_def)
  moreover have "load_bytes m (EthernetII_payload x) (unat (EthernetII_payloadSize x)) = Some rest"
    using eth.payload_load [OF x l] len by (simp add: EthernetII_HeaderSize_def frame_bytes_def c)
  ultimately show thesis using x by (intro that)
qed

lemma print_frame:
  assumes l: "load_bytes m p (unat n) = Some (frame_bytes fm)" and ok: "frame_ok fm"
  shows "print_packet e m p n = Some (frame_lines e fm)"
proof (cases "fm_content fm")
  case (Internet dg)
  with ok have dg: "datagram_ok dg" by (simp add: frame_ok_def)
  obtain x where x: "EthernetII_make p n = Inr x"
    "EthernetII_source m x = Some (fm_source fm)"
    "EthernetII_destination m x = Some (fm_destination fm)" "EthernetII_protocol e m x = Some 0x0800"
    "load_bytes m (EthernetII_payload x) (unat (EthernetII_payloadSize x)) = Some (datagram_bytes dg)"
    using frame_header [OF l ok, of "0x0800" "datagram_bytes dg" e] Internet by auto
  from print_datagram [OF x(5) dg] x Internet show ?thesis
    by (simp add: print_packet_def frame_lines_def ETH_P_IP_def)
next
  case (Vlan tag dg)
  with ok have dg: "datagram_ok dg" "length tag = 2" by (simp_all add: frame_ok_def)
  obtain x where x: "EthernetII_make p n = Inr x"
    "EthernetII_source m x = Some (fm_source fm)"
    "EthernetII_destination m x = Some (fm_destination fm)" "EthernetII_protocol e m x = Some 0x8100"
    "load_bytes m (EthernetII_payload x) (unat (EthernetII_payloadSize x))
      = Some (tag @ be16 0x0800 @ datagram_bytes dg)"
    using frame_header [OF l ok, of "0x8100" "tag @ be16 0x0800 @ datagram_bytes dg" e] Vlan by auto
  have k: "4 \<le> unat (EthernetII_payloadSize x)" using load_bytes_length [OF x(5)] dg by simp
  then have "unat (EthernetII_payloadSize x - 4) = unat (EthernetII_payloadSize x) - 4"
    by (subst unat_sub) (auto simp: word_le_nat_alt)
  with load_bytes_suffix [OF x(5) k] dg(2)
  have "load_bytes m (ptr_add (EthernetII_payload x) 4) (unat (EthernetII_payloadSize x - 4))
      = Some (datagram_bytes dg)" by simp
  from print_datagram [OF this dg(1)] x Vlan show ?thesis
    by (simp add: print_packet_def frame_lines_def ETH_P_IP_def ETH_P_8021Q_def)
next
  case (Other_network w bs)
  with ok have w: "w \<noteq> 0x0800" "w \<noteq> 0x8100" by (simp_all add: frame_ok_def)
  obtain x where "EthernetII_make p n = Inr x"
    "EthernetII_source m x = Some (fm_source fm)"
    "EthernetII_destination m x = Some (fm_destination fm)" "EthernetII_protocol e m x = Some w"
    using frame_header [OF l ok, of w bs e] Other_network by auto
  with w Other_network show ?thesis
    by (simp add: print_packet_def frame_lines_def ETH_P_IP_def ETH_P_8021Q_def)
qed

section \<open>The program on a capture of frames\<close>

lemma good_not_eof: "FileReader_good (rd_file r) = Some True \<Longrightarrow> Reader_eof r = Some False"
  by (cases "FileReader_deref (rd_file r)")
    (auto simp: FileReader_good_def Reader_eof_def FileReader_eof_def istream_good_def)

text \<open>On the records of a capture the loop calls its body for each of them, and ends.\<close>

lemma eof_loop_records:
  assumes "Reader_ok h r" and "file_clean (rd_file r)" and "FileReader_good (rd_file r) = Some True"
    and "rd_buffer r \<noteq> nullptr" and "\<forall>x\<in>set xs. record_ok (rd_buffer_size r) (g x)"
    and "FileReader_bytes (rd_file r) = concat (map (record_bytes e \<circ> g) xs)"
    and body: "\<And>x h p. x \<in> set xs \<Longrightarrow>
      load_bytes (hp_mem h) (pk_data p) (unat (pk_captureLength p)) = Some (snd (g x)) \<Longrightarrow> body h p = Some (out x)"
  shows "\<exists>h' r'. eof_loop e body h r = Some (concat (map out xs), h', r')"
  using assms
proof (induction xs arbitrary: h r)
  case Nil
  note eof = good_not_eof [OF Nil.prems(3)]
  have "Reader_rest e r = []" using Nil.prems by (simp add: Reader_rest_def)
  then obtain p r' h' where out: "Reader_readPacket e h r = Some (p, r', h')" "\<not> Packet_bool p"
    using readPacket_outcome [OF Nil.prems(1), of e] by (auto simp: read_outcome_def)
  have "file_work (rd_file r') < 1"
    using readPacket_work [OF Nil.prems(2) _ out(1)] eof Nil.prems(6)
    by (auto simp: Reader_eof_def file_work_def)
  then have "Reader_eof r' = Some True" by (simp add: Reader_eof_def file_work_def split: if_splits)
  with eof out show ?case by (simp add: eof_loop_step [of e body h r] eof_loop_step [of e body h' r'])
next
  case (Cons x xs)
  note eof = good_not_eof [OF Cons.prems(3)]
  obtain p r' h' where out: "Reader_readPacket e h r = Some (p, r', h')" "Packet_bool p"
    "Reader_ok h' r'" "same_buffer r r'" "FileReader_bytes (rd_file r') = concat (map (record_bytes e \<circ> g) xs)"
    "FileReader_good (rd_file r') = Some True"
    "load_bytes (hp_mem h') (pk_data p) (unat (pk_captureLength p)) = Some (snd (g x))"
  proof (rule Reader_readPacket_record [OF Cons.prems(1,4), of "g x" e "concat (map (record_bytes e \<circ> g) xs)"])
    show "record_ok (rd_buffer_size r) (g x)" using Cons.prems(5) by simp
    show "FileReader_bytes (rd_file r) = record_bytes e (g x) @ concat (map (record_bytes e \<circ> g) xs)"
      using Cons.prems(6) by (simp add: comp_def)
  qed
  have "file_clean (rd_file r')"
    using readPacket_work [OF Cons.prems(2) _ out(1)] eof by (auto simp: Reader_eof_def)
  then obtain h'' r'' where "eof_loop e body h' r' = Some (concat (map out xs), h'', r'')"
    using Cons.IH [OF out(3) _ out(6) _ _ out(5)] Cons.prems(4,5,7) out(4)
    by (auto simp: same_buffer_def)
  with eof out Cons.prems(7) [of x h' p] show ?case by (simp add: eof_loop_step [of e body h r])
qed

text \<open>Opening a capture that the writer made.\<close>

lemma Reader_open_capture:
  assumes "heap_ok h" and "FileReader_open pf name = Inr f" and "file_clean f"
    and "FileReader_bytes f = capture_bytes e header xs" and "header_ok header"
  obtains r h' where "Reader_open e pf h name = Some (Inr (r, h'))" and "Reader_ok h' r"
    and "Reader_bool r = Some True" and "file_clean (rd_file r)"
    and "FileReader_good (rd_file r) = Some True" and "rd_buffer r \<noteq> nullptr"
    and "rd_buffer_size r = unat (fh_snaplen header)"
    and "FileReader_bytes (rd_file r) = concat (map (record_bytes e) xs)"
proof -
  have "FileReader_ok f" "24 \<le> length (FileReader_bytes f)" "24 \<noteq> (0 :: nat)"
    using FileReader_open_ok [OF assms(2)] by (simp_all add: assms(4) capture_bytes_def)
  then obtain f' where f': "FileReader_read 24 f = Some (FileHeader_bytes e header, 24, f')"
    "FileReader_ok f'" "FileReader_bytes f' = concat (map (record_bytes e) xs)"
    "FileReader_good f' = Some True"
    using FileReader_read_full [of f 24] by (auto simp: assms(4) capture_bytes_def)
  have clean: "file_clean f'" using FileReader_read_clean [OF assms(3), of 24] f'(1) by auto
  obtain sc where sc: "Reader_magic e (fh_magic header) = Some sc"
    using assms(5) by (auto simp: header_ok_def Reader_magic_def)
  obtain p h' where p: "vector_alloc h (unat (fh_snaplen header)) = (p, h')"
    by (cases "vector_alloc h (unat (fh_snaplen header))")
  have p0: "p \<noteq> nullptr"
    using p assms(5) by (auto simp: vector_alloc_def header_ok_def unat_eq_zero split: if_splits)
  have "buffer_ok h' p (unat (fh_snaplen header))" using vector_alloc_frame [OF assms(1) p] by simp
  with assms(2,5) f' clean sc p p0 show thesis
    by (intro that [of "\<lparr>rd_file = f', rd_scale = sc, rd_timezone = sint (fh_thiszone header),
          rd_buffer = p, rd_buffer_size = unat (fh_snaplen header)\<rparr>" h'])
      (auto simp: Reader_open_eq Reader_readFileHeader_eq FileReader_readStruct_def
        FileHeader_of_bytes_bytes header_ok_def Reader_ok_def Reader_bool_def FileReader_good_bool Let_def)
qed

section \<open>Property\<close>

text \<open>The records of a capture of frames.\<close>

definition frame_record :: "PacketHeader \<times> frame \<Rightarrow> PacketHeader \<times> u8 list" where
  "frame_record x = (fst x, frame_bytes (snd x))"

text \<open>
  \<open>examples/pcap_reader.cpp\<close> prints what its capture holds. On a plain, xz or gzip file
  that decodes to a capture of Ethernet frames, with or without VLAN tags, of UDP or other
  protocols, the program ends and has printed, for every frame in its order, exactly the
  lines of its fields.
\<close>

theorem pcap_reader_prints_capture:
  assumes "lzma_progress code stalled" and "lzma_decodes code fx cx"
    and "inflate_documented inflate fg cg ended" and "heap_ok h"
    and content: "files name = Some bs" "file_decodable (cx z) (cg g) (fg g) name bs"
      "file_content files (fx z) (fg g) name = capture_bytes e header (map frame_record xs)"
    and ok: "header_ok header" "\<forall>x\<in>set xs. frame_ok (snd x)
      \<and> record_ok (unat (fh_snaplen header)) (frame_record x)"
  shows "pcap_reader_main e (full_platform files code z inflate g) h name
    = Some (Inr (concat (map (\<lambda>x. frame_lines e (snd x)) xs)))"
proof -
  let ?pf = "full_platform files code z inflate g"
  let ?body = "\<lambda>h p. print_packet e (hp_mem h) (pk_data p) (pk_captureLength p)"
  have "\<forall>bs. files name = Some bs \<longrightarrow> file_decodable (cx z) (cg g) (fg g) name bs" using content by simp
  from full_platform_open [where z = z and g = g and files = files and name = name and fx = fx
      and cx = cx and fg = fg and cg = cg, OF assms(1-3) this] content
  obtain f where f: "FileReader_open ?pf name = Inr f" "file_clean f"
    "FileReader_bytes f = capture_bytes e header (map frame_record xs)" by auto
  obtain r h' where r: "Reader_open e ?pf h name = Some (Inr (r, h'))" "Reader_ok h' r"
    "Reader_bool r = Some True" "file_clean (rd_file r)" "FileReader_good (rd_file r) = Some True"
    "rd_buffer r \<noteq> nullptr" "rd_buffer_size r = unat (fh_snaplen header)"
    "FileReader_bytes (rd_file r) = concat (map (record_bytes e) (map frame_record xs))"
    by (rule Reader_open_capture [OF assms(4) f(1,2,3) ok(1)])
  have "\<exists>h'' r'. eof_loop e ?body h' r = Some (concat (map (\<lambda>x. frame_lines e (snd x)) xs), h'', r')"
  proof (rule eof_loop_records [where g = frame_record, OF r(2,4,5,6)])
    show "?body h p = Some (frame_lines e (snd x))" if "x \<in> set xs"
      and "load_bytes (hp_mem h) (pk_data p) (unat (pk_captureLength p)) = Some (snd (frame_record x))"
      for x h p
      using that ok(2) by (intro print_frame) (auto simp: frame_record_def)
  qed (use ok(2) r(7,8) in \<open>auto simp: comp_def\<close>)
  with r(1,3) show ?thesis by (auto simp: pcap_reader_main_eq)
qed

text \<open>A capture of a UDP datagram in a VLAN and of an ARP frame.\<close>

definition sample_frames :: "(PacketHeader \<times> frame) list" where
  "sample_frames =
     [(\<lparr>ph_ts_sec = 1, ph_ts_usec = 2, ph_caplen = 48, ph_len = 48\<rparr>,
       \<lparr>fm_destination = [1, 2, 3, 4, 5, 6], fm_source = [7, 8, 9, 10, 11, 12],
        fm_content = Vlan [0, 5] \<lparr>dg_head = replicate 7 0, dg_ttl = 64, dg_checksum = 3,
          dg_source = [10, 0, 0, 1], dg_destination = [10, 0, 0, 2],
          dg_content = Udp_segment 53 1024 9 [1, 2]\<rparr>\<rparr>),
      (\<lparr>ph_ts_sec = 1, ph_ts_usec = 3, ph_caplen = 15, ph_len = 15\<rparr>,
       \<lparr>fm_destination = [1, 2, 3, 4, 5, 6], fm_source = [7, 8, 9, 10, 11, 12],
        fm_content = Other_network 0x0806 [0]\<rparr>)]"

text \<open>A decoder that copies every input, and reports its end when it is told to finish.\<close>

definition lzma_id :: "unit lzma_code" where
  "lzma_id z inp fin n =
     (case inp of
        [] \<Rightarrow> ((), 0, [], if fin then LZMA_STREAM_END else LZMA_BUF_ERROR)
      | b # bs \<Rightarrow> ((), 1, [b], LZMA_OK))"

lemma lzma_id_progress: "lzma_progress lzma_id (\<lambda>z. True)"
  by (auto simp: lzma_progress_def lzma_id_def LZMA_OK_def LZMA_STREAM_END_def
      LZMA_BUF_ERROR_def split: list.splits if_splits)

lemma lzma_id_decodes: "lzma_decodes lzma_id (\<lambda>z inp. inp) (\<lambda>z inp. True)"
  by (auto simp: lzma_decodes_def lzma_id_def LZMA_OK_def LZMA_STREAM_END_def
      LZMA_BUF_ERROR_def split: list.splits if_splits)

text \<open>The file that holds this capture, and what is printed for it.\<close>

abbreviation sample_frame_header :: FileHeader where
  "sample_frame_header \<equiv> sample_header\<lparr>fh_snaplen := 64\<rparr>"

abbreviation sample_frame_file :: "u8 list" where
  "sample_frame_file \<equiv> capture_bytes Little sample_frame_header (map frame_record sample_frames)"

definition sample_frame_lines :: "line list" where
  "sample_frame_lines =
     [Line_packet, Line_mac_src ''07:08:09:0a:0b:0c'', Line_mac_dst ''01:02:03:04:05:06'',
      Line_vlan, Line_src (IPv4_Address_fromBytes Little [10, 0, 0, 1]),
      Line_dst (IPv4_Address_fromBytes Little [10, 0, 0, 2]), Line_checksum 3, Line_ttl 64,
      Line_protocol 17, Line_port_src 53, Line_port_dst 1024, Line_len 10, Line_checksum 9,
      Line_payload_size 2,
      Line_packet, Line_mac_src ''07:08:09:0a:0b:0c'', Line_mac_dst ''01:02:03:04:05:06'']"

lemma sample_frames_printed:
  "concat (map (\<lambda>x. frame_lines Little (snd x)) sample_frames) = sample_frame_lines"
  by (simp add: sample_frames_def sample_frame_lines_def frame_lines_def datagram_lines_def
      EthernetII_toString_def hex02_def hex_digit_def)

lemma sample_frames_ok:
  "file_decodable (\<lambda>inp. True) (\<lambda>inp. \<not> False \<and> 0 \<in> set inp)
     (\<lambda>inp. if False then [] else takeWhile (\<lambda>b :: u8. b \<noteq> 0) inp) ''c.xz'' sample_frame_file"
  "file_content [''c.xz'' \<mapsto> sample_frame_file] (\<lambda>inp. inp)
     (\<lambda>inp. if False then [] else takeWhile (\<lambda>b :: u8. b \<noteq> 0) inp) ''c.xz'' = sample_frame_file"
  "header_ok sample_frame_header"
  "\<forall>x\<in>set sample_frames. frame_ok (snd x)
     \<and> record_ok (unat (fh_snaplen sample_frame_header)) (frame_record x)"
proof -
  have xz: "suffix ''.xz'' ''c.xz''" by (simp add: suffix_to_prefix)
  then show "file_decodable (\<lambda>inp. True) (\<lambda>inp. \<not> False \<and> 0 \<in> set inp)
     (\<lambda>inp. if False then [] else takeWhile (\<lambda>b :: u8. b \<noteq> 0) inp) ''c.xz'' sample_frame_file"
    by (simp add: file_decodable_def)
  from xz show "file_content [''c.xz'' \<mapsto> sample_frame_file] (\<lambda>inp. inp)
     (\<lambda>inp. if False then [] else takeWhile (\<lambda>b :: u8. b \<noteq> 0) inp) ''c.xz'' = sample_frame_file"
    by (simp add: file_content_def)
  show "header_ok sample_frame_header"
    by (simp add: header_ok_def sample_header_def MaxSnapLen_def)
  show "\<forall>x\<in>set sample_frames. frame_ok (snd x)
     \<and> record_ok (unat (fh_snaplen sample_frame_header)) (frame_record x)"
    by (simp add: sample_frames_def frame_ok_def datagram_ok_def record_ok_def frame_record_def
        frame_bytes_def datagram_bytes_def)
qed

end
