(* ===== verification/Nb_Chain.thy ===== *)
theory Nb_Chain
  imports Nb_Simulation Nb_OnDemand Nb_EndToEnd Nb_Frames
begin

text \<open>
  The whole programs, decoding on demand: the readers hold streams of which every read
  decodes only what it needs. They do what they do on the decoded whole of the files,
  packet by packet, which carries the results about the programs over to the way the
  library works.
\<close>

section \<open>The reader over streams that decode on demand\<close>

definition lazy_ops ::
  "('z, 'g) decoders \<Rightarrow> (message \<Rightarrow> 'h \<Rightarrow> 'h option) \<Rightarrow> (('z, 'g) lazy_stream, 'h) file_ops" where
  "lazy_ops d dbg =
     \<lparr>fo_reset = (\<lambda>s. Plain_stream ifstream_default),
      fo_bool = (\<lambda>s. Some (lazy_bool s)), fo_good = (\<lambda>s. Some (lazy_good s)),
      fo_eof = (\<lambda>s. Some (lazy_eof s)), fo_read = lazy_read d, fo_debug = dbg\<rparr>"

definition lazy_construct ::
  "(message \<Rightarrow> 'h \<Rightarrow> 'h option) \<Rightarrow> ('z, 'g) decoders \<Rightarrow> string \<Rightarrow> 'h
     \<Rightarrow> (exn + ('z, 'g) lazy_stream \<times> 'h) option" where
  "lazy_construct dbg d = file_construct dbg (dc_files d) (lazy_open d)"

text \<open>A \<open>FileReader\<close> on a decoded whole, and a stream that delivers the same.\<close>

definition delivers_same :: "('z, 'g) decoders \<Rightarrow> FileReader \<Rightarrow> ('z, 'g) lazy_stream \<Rightarrow> bool" where
  "delivers_same d r s \<longleftrightarrow> (\<exists>t. FileReader_deref r = Some t \<and> reads_as d s t)"

lemma delivers_same_read:
  assumes "delivers_same d r s"
  shows "option_sim (rel_prod (=) (rel_prod (=) (delivers_same d))) (FileReader_read n r) (lazy_read d n s)"
proof -
  from assms obtain t where t: "FileReader_deref r = Some t" "reads_as d s t" by (auto simp: delivers_same_def)
  obtain bs t' where t': "istream_read n t = (bs, t')" by fastforce
  with lazy_read_sim [OF t(2)] obtain s' where
    "lazy_read d n s = Some (bs, st_gcount t', s')" "reads_as d s' t'" by blast
  with t t' show ?thesis
    by (auto simp: FileReader_read_def delivers_same_def intro!: option_sim_Some)
qed

interpretation demand: file_simulation "delivers_same d" "(=)" "file_reader_ops dbg" "lazy_ops d dbg" for d dbg
proof (unfold_locales, goal_cases)
  case (4 r s)
  show ?case
    by (simp add: file_reader_ops_def lazy_ops_def delivers_same_def FileReader_move_assign_def
        FileReader_swap_def FileReader_default_def FileReader_deref_def)
next
  case (8 r s n)
  then show ?case using delivers_same_read by (simp add: file_reader_ops_def lazy_ops_def)
qed (auto simp: file_reader_ops_def lazy_ops_def delivers_same_def FileReader_bool_def FileReader_good_def
    FileReader_eof_def reads_as_state intro: option_sim_same intro!: option_sim_Some)

lemma lazy_open_opened:
  assumes "\<forall>bs. dc_files d name = Some bs \<longrightarrow> drainable d name bs"
  shows "opened_sim (delivers_same d) (=) (map_sum id (\<lambda>file. (file, h)) (FileReader_open (eager_platform d) name))
    (map_sum id (\<lambda>file. (file, h)) (lazy_open d name))"
  using lazy_open_sim [OF assms]
  by (cases "FileReader_open (eager_platform d) name") (auto simp: delivers_same_def)

lemma lazy_construct_sim:
  assumes "\<forall>bs. dc_files d name = Some bs \<longrightarrow> drainable d name bs"
  shows "option_sim (opened_sim (delivers_same d) (=))
    (FileReader_construct dbg (eager_platform d) name h) (lazy_construct dbg d name h)"
proof -
  have "pf_files (eager_platform d) = dc_files d" by (simp add: eager_platform_def)
  then show ?thesis
    unfolding FileReader_construct_def lazy_construct_def file_construct_def
    by (auto intro!: option_sim_bind [OF option_sim_same] option_sim_Some lazy_open_opened [OF assms])
qed

section \<open>The programs on demand\<close>

text \<open>The decoders in their initial states, in a build that has them.\<close>

definition full_decoders ::
  "(string \<Rightarrow> u8 list option) \<Rightarrow> 'z lzma_code \<Rightarrow> 'z \<Rightarrow> 'g inflate \<Rightarrow> 'g \<Rightarrow> ('z, 'g) decoders" where
  "full_decoders files code z inflate g =
     \<lparr>dc_files = files, dc_lzma_enabled = True, dc_gzip_enabled = True, dc_code = code,
      dc_lzma_init = (z, LZMA_OK), dc_inflate = inflate, dc_gzip_init = (g, Z_OK)\<rparr>"

lemma eager_full_decoders: "eager_platform (full_decoders files code z inflate g) = full_platform files code z inflate g"
  by (simp add: eager_platform_def full_decoders_def full_platform_def)

definition source_program_on_demand ::
  "endian \<Rightarrow> ('z, 'g) decoders \<Rightarrow> heap \<Rightarrow> bool \<Rightarrow> string list
     \<Rightarrow> (exn + captured list \<times> heap \<times> ('z, 'g) lazy_stream packet_source) option" where
  "source_program_on_demand e d = source_program_on (lazy_ops d (\<lambda>m. Some)) (lazy_construct (\<lambda>m. Some) d) e"

definition pcap_reader_main_on_demand ::
  "endian \<Rightarrow> ('z, 'g) decoders \<Rightarrow> heap \<Rightarrow> string \<Rightarrow> (exn + line list) option" where
  "pcap_reader_main_on_demand e d = pcap_reader_main_on (lazy_ops d (\<lambda>m. Some)) (lazy_construct (\<lambda>m. Some) d) e"

lemma source_program_demand:
  assumes "\<forall>name\<in>set names. \<forall>bs. dc_files d name = Some bs \<longrightarrow> drainable d name bs"
  shows "option_sim (rel_sum (=) (rel_prod (=) (rel_prod (=) (source_sim (delivers_same d)))))
    (source_program e (eager_platform d) h callback names) (source_program_on_demand e d h callback names)"
  unfolding source_program_def source_program_on_demand_def quiet_def
proof (rule demand.source_program_sim [OF _ refl])
  fix name and h k :: heap
  assume name: "name \<in> set names" and "h = k"
  from assms name have "\<forall>bs. dc_files d name = Some bs \<longrightarrow> drainable d name bs" by (rule bspec)
  then show "option_sim (opened_sim (delivers_same d) (=))
      (FileReader_construct (\<lambda>m. Some) (eager_platform d) name h) (lazy_construct (\<lambda>m. Some) d name k)"
    unfolding \<open>h = k\<close> by (rule lazy_construct_sim)
qed

lemma pcap_reader_main_demand:
  assumes "\<forall>bs. dc_files d name = Some bs \<longrightarrow> drainable d name bs"
  shows "option_sim (=) (pcap_reader_main e (eager_platform d) h name) (pcap_reader_main_on_demand e d h name)"
  unfolding pcap_reader_main_def pcap_reader_main_on_demand_def quiet_def
  by (rule demand.pcap_reader_main_sim) (rule lazy_construct_sim [OF assms])

lemma full_decoders_drainable:
  assumes "lzma_progress code stalled" and "lzma_decodes code fx cx" and "inflate_documented inflate fg cg ended"
    and "file_decodable (cx z) (cg g) (fg g) name bs"
  shows "drainable (full_decoders files code z inflate g) name bs"
  by (rule file_decodable_drainable) (use assms in \<open>auto simp: full_decoders_def\<close>)

section \<open>Properties\<close>

text \<open>
  C2. The whole chain as it runs, on any mixture of plain, xz and gzip captures, missing
  files included: the source reads its files through streams that decode, at every read,
  only what it needs. If the decoders behave as their libraries document and can decode the
  files, it ends without undefined behaviour and has delivered the merge, by time, of the
  packets that the decoded contents hold.
\<close>

theorem capture_chain_on_demand:
  assumes "lzma_progress code stalled" and "lzma_decodes code fx cx"
    and "inflate_documented inflate fg cg ended" and "heap_ok h"
    and decodable: "\<forall>name\<in>set names. \<forall>bs. files name = Some bs \<longrightarrow> file_decodable (cx z) (cg g) (fg g) name bs"
  shows "\<exists>h' s'. source_program_on_demand e (full_decoders files code z inflate g) h callback names
      = Some (Inr (merge_lanes (map (\<lambda>name. pcap_file e (file_content files (fx z) (fg g) name)) names), h', s'))
    \<and> PcapPacketSource_isDone s'"
proof -
  let ?d = "full_decoders files code z inflate g"
  have "dc_files ?d = files" by (simp add: full_decoders_def)
  then have "\<forall>name\<in>set names. \<forall>bs. dc_files ?d name = Some bs \<longrightarrow> drainable ?d name bs"
    using decodable full_decoders_drainable [OF assms(1-3)] by metis
  from source_program_demand [OF this, of e h callback] capture_chain_correct [OF assms, of e callback]
  show ?thesis
    unfolding eager_full_decoders
    by (auto simp: option_sim_def rel_sum.simps source_sim_def PcapPacketSource_isDone_def)
qed

theorem capture_chain_on_demand_witness:
  "\<exists>h' s'. source_program_on_demand Little
      (full_decoders [''a.xz'' \<mapsto> [1, 2, 3], ''b.gz'' \<mapsto> [1, 0],
         ''c.pcap'' \<mapsto> capture_bytes Little sample_header sample_records]
       lzma_copy () inflate_copy False)
      empty_heap True [''a.xz'', ''b.gz'', ''c.pcap'', ''missing'']
    = Some (Inr (merge_lanes [[], [], map (record_captured 1000) sample_records, []], h', s'))
    \<and> PcapPacketSource_isDone s'"
  using capture_chain_on_demand [OF lzma_copy_progress lzma_copy_decodes inflate_copy_documented
      empty_heap_ok sample_chain_decodable, where e = Little and callback = True]
  unfolding sample_chain_packets .

text \<open>
  C8. \<open>examples/pcap_reader.cpp\<close> prints what its capture holds, decoding it as it reads. On a
  plain, xz or gzip file that decodes to a capture of Ethernet frames, with or without VLAN
  tags, of UDP or other protocols, the program ends and has printed, for every frame in its
  order, exactly the lines of its fields.
\<close>

theorem pcap_reader_prints_on_demand:
  assumes "lzma_progress code stalled" and "lzma_decodes code fx cx"
    and "inflate_documented inflate fg cg ended" and "heap_ok h"
    and content: "files name = Some bs" "file_decodable (cx z) (cg g) (fg g) name bs"
      "file_content files (fx z) (fg g) name = capture_bytes e header (map frame_record xs)"
    and ok: "header_ok header" "\<forall>x\<in>set xs. frame_ok (snd x)
      \<and> record_ok (unat (fh_snaplen header)) (frame_record x)"
  shows "pcap_reader_main_on_demand e (full_decoders files code z inflate g) h name
    = Some (Inr (concat (map (\<lambda>x. frame_lines e (snd x)) xs)))"
proof -
  let ?d = "full_decoders files code z inflate g"
  have "\<forall>bs. dc_files ?d name = Some bs \<longrightarrow> drainable ?d name bs"
    using content full_decoders_drainable [OF assms(1-3) content(2)] by (simp add: full_decoders_def)
  from pcap_reader_main_demand [OF this, of e h] pcap_reader_prints_capture [OF assms]
  show ?thesis unfolding eager_full_decoders by (simp add: option_sim_def)
qed

theorem pcap_reader_prints_on_demand_witness:
  "pcap_reader_main_on_demand Little
     (full_decoders [''c.xz'' \<mapsto> sample_frame_file] lzma_id () inflate_copy False) empty_heap ''c.xz''
   = Some (Inr sample_frame_lines)"
  using pcap_reader_prints_on_demand [OF lzma_id_progress lzma_id_decodes inflate_copy_documented
      empty_heap_ok _ sample_frames_ok(1-4)] sample_frames_printed
  by (simp add: fun_upd_def)

end
