(* ===== verification/Nb_Diagnostics.thy ===== *)
theory Nb_Diagnostics
  imports Nb_Chain
begin

text \<open>
  What the library writes to \<open>stderr\<close>: the reader with its calls of \<open>debug\<close>, which are kept
  in the order they are made, and the text of them for a file that is read to its end, stated
  by the bytes of the file.
\<close>

section \<open>The reader with its messages\<close>

record console = heap +
  co_messages :: "message list"

definition report :: "message \<Rightarrow> console \<Rightarrow> console option" where
  "report m c = Some (c\<lparr>co_messages := co_messages c @ [m]\<rparr>)"

text \<open>The messages change nothing else: the silent reader is the same program.\<close>

interpretation traced: file_simulation "(=)" "\<lambda>h c. heap.truncate c = h" quiet "file_reader_ops report"
proof (unfold_locales, goal_cases)
  case (9 h k m)
  then show ?case
    by (simp add: file_reader_ops_def report_def option_sim_Some heap.defs)
qed (auto simp: quiet_def file_reader_ops_def heap.defs intro: option_sim_same simp: prod.rel_eq)

lemma report_construct_sim:
  assumes "heap.truncate c = h"
  shows "option_sim (opened_sim (=) (\<lambda>h c. heap.truncate c = h))
    (FileReader_construct (\<lambda>m. Some) pf name h) (FileReader_construct report pf name c)"
  using assms
  by (cases "FileReader_open pf name") (auto simp: FileReader_construct_def file_construct_def report_def heap.defs
      intro!: option_sim_Some)

section \<open>The text of a message\<close>

definition warn :: "string \<Rightarrow> string" where
  "warn t = ''<WARN> '' @ t @ [CHR 0x0A]"

definition oversize_text :: "nat \<Rightarrow> string" where
  "oversize_text n = warn (''PCAP packet header caplen('' @ nat_to_string n @ '') greater buffer size'')"

definition short_text :: "nat \<Rightarrow> nat \<Rightarrow> string" where
  "short_text k n = warn (''Data read '' @ nat_to_string k @ '' of '' @ nat_to_string n)"

definition unknown_text :: "u32 \<Rightarrow> string" where
  "unknown_text magic = warn (''Unknown PCAP header '' @ hex_padded 8 (unat magic))"

definition snaplen_text :: "nat \<Rightarrow> string" where
  "snaplen_text n =
     warn (''Invalid file capture length '' @ nat_to_string n @ '', bigger than maximum of '' @ nat_to_string 65535)"

definition linktype_text :: "nat \<Rightarrow> string" where
  "linktype_text n = warn (''Linktype '' @ nat_to_string n @ '' not supported'')"

definition open_text :: "string \<Rightarrow> string" where
  "open_text name = warn (''File open error ('' @ c_str name @ '')'')"

lemma message_texts:
  "debug (''<WARN> Read PCAP header error'', []) = Some (warn ''Read PCAP header error'')"
  "debug (''<WARN> Byte swapped PCAP not support'', []) = Some (warn ''Byte swapped PCAP not support'')"
  "debug (''<WARN> Unknown PCAP header %08x'', [Arg_uint32 w]) = Some (unknown_text w)"
  "debug (''<WARN> Invalid file capture length %u, bigger than maximum of %u'', [Arg_uint32 w, Arg_uint32 MaxSnapLen])
     = Some (snaplen_text (unat w))"
  "debug (''<WARN> Linktype %u not supported'', [Arg_uint32 w]) = Some (linktype_text (unat w))"
  "debug (''<WARN> PCAP packet header caplen(%u) greater buffer size'', [Arg_uint32 w]) = Some (oversize_text (unat w))"
  "debug (''<WARN> Data read %u of %u'', [Arg_uint32 v, Arg_uint32 w]) = Some (short_text (unat v) (unat w))"
  "debug (''<WARN> File open error (%s)'', [Arg_cstr s]) = Some (open_text s)"
  by (simp_all add: debug_def warn_def conversion_letter_def oversize_text_def short_text_def unknown_text_def
      snaplen_text_def linktype_text_def open_text_def MaxSnapLen_def)

text \<open>The size of a struct, a \<open>std::size_t\<close>, is printed with the directive for another type.\<close>

lemma header_cut_undefined: "debug (''<WARN> Header read %u of %u'', [Arg_uint32 w, Arg_size n]) = None"
  by (simp add: debug_def conversion_letter_def)

section \<open>What is reported of a file\<close>

text \<open>
  By the bytes behind the file header: nothing if the last record is complete, or the file
  was written with a snapshot length of 0. For a file cut off inside a packet header the
  message is undefined.
\<close>

function records_report :: "endian \<Rightarrow> nat \<Rightarrow> u8 list \<Rightarrow> string option" where
  "records_report e snap bs =
     (if bs = [] then Some []
      else if length bs < 16 then None
      else
        let n = unat (ph_caplen (PacketHeader_of_bytes e (take 16 bs)));
            data = drop 16 bs
        in if snap < n then Some (oversize_text n)
           else if length data < n then Some (short_text (length data) n)
           else if snap = 0 then Some []
           else records_report e snap (drop n data))"
  by pat_completeness auto
termination
  by (relation "measure (\<lambda>(e, snap, bs). length bs)") auto

declare records_report.simps [simp del]

definition header_report :: "endian \<Rightarrow> u8 list \<Rightarrow> string option" where
  "header_report e bs =
     (if length bs < 24 then Some (warn ''Read PCAP header error'')
      else
        let header = FileHeader_of_bytes e (take 24 bs);
            magic = fh_magic header
        in if magic \<noteq> 0xa1b2c3d4 \<and> magic \<noteq> 0xa1b23c4d then
             if e = Little \<and> (magic = 0xd4c3b2a1 \<or> magic = 0x4d3cb2a1)
             then Some (warn ''Byte swapped PCAP not support'')
             else Some (unknown_text magic)
           else if fh_snaplen header > 65535 then Some (snaplen_text (unat (fh_snaplen header)))
           else if fh_linktype header \<noteq> 1 then Some (linktype_text (unat (fh_linktype header)))
           else records_report e (unat (fh_snaplen header)) (drop 24 bs))"

text \<open>Of a file by its name; None for one that is not there.\<close>

definition file_report :: "endian \<Rightarrow> string \<Rightarrow> u8 list option \<Rightarrow> string option" where
  "file_report e name content =
     (case content of
        None \<Rightarrow> Some (open_text name @ warn ''Read PCAP header error'')
      | Some bs \<Rightarrow> header_report e bs)"

section \<open>What the calls report\<close>

text \<open>A file that is read without loss: one that ends cleanly, or one that was not opened.\<close>

definition file_lossless :: "FileReader \<Rightarrow> bool" where
  "file_lossless f \<longleftrightarrow> file_clean f \<or> (\<exists>s. FileReader_deref f = Some s \<and> \<not> istream_good s)"

lemma FileReader_read_lossless:
  assumes "file_lossless f"
  obtains f' where "FileReader_read n f = Some (take n (FileReader_bytes f), length (take n (FileReader_bytes f)), f')"
    and "file_lossless f'" and "FileReader_bytes f' = drop n (FileReader_bytes f)"
proof -
  from assms obtain s where s: "FileReader_deref f = Some s" "istream_clean s \<or> \<not> istream_good s"
    by (auto simp: file_lossless_def file_clean_def)
  obtain bs s' where r: "istream_read n s = (bs, s')" by fastforce
  have "bs = take n (istream_bytes s) \<and> st_gcount s' = length bs \<and> istream_bytes s' = drop n (istream_bytes s)
    \<and> (istream_clean s' \<or> \<not> istream_good s')"
  proof (cases "istream_clean s")
    case True
    from istream_read_split [OF True r] show ?thesis by simp
  next
    case False
    with s(2) r show ?thesis by (auto simp: istream_read_def istream_bytes_def istream_good_def)
  qed
  with s r show thesis
    by (intro that [of "FileReader_put f s'"])
      (auto simp: FileReader_read_def FileReader_bytes_def file_lossless_def file_clean_def)
qed

text \<open>What an operation added to the messages, as text.\<close>

definition reported :: "console \<Rightarrow> console \<Rightarrow> string option \<Rightarrow> bool" where
  "reported c c' t \<longleftrightarrow> (\<exists>ms. co_messages c' = co_messages c @ ms \<and> debug_all ms = t)"

lemma reported_nothing: "co_messages c' = co_messages c \<Longrightarrow> reported c c' (Some [])"
  by (auto simp: reported_def intro: exI [of _ "[]"])

lemma reported_one: "co_messages c' = co_messages c @ [m] \<Longrightarrow> debug m = t \<Longrightarrow> reported c c' t"
  by (auto simp: reported_def intro!: exI [of _ "[m]"] split: option.split)

lemma reported_trans:
  assumes "reported c c1 t" and "reported c1 c2 u"
  shows "reported c c2 (do { x \<leftarrow> t; y \<leftarrow> u; Some (x @ y) })"
  using assms by (auto simp: reported_def debug_all_append)

lemma reported_empty_trans: "reported c c1 (Some []) \<Longrightarrow> reported c1 c2 u \<Longrightarrow> reported c c2 u"
  using reported_trans by fastforce

lemma traced_simps [simp]:
  "fo_reset (file_reader_ops report) f = FileReader_default"
  "fo_read (file_reader_ops report) = FileReader_read"
  "fo_debug (file_reader_ops report) = report"
  by (simp_all add: file_reader_ops_def FileReader_move_assign_def FileReader_swap_def FileReader_default_def)

abbreviation traced_bytes :: "Reader \<Rightarrow> u8 list" where
  "traced_bytes r \<equiv> FileReader_bytes (rd_file r)"

text \<open>One call of \<open>readPacket\<close>: a packet adds nothing, an empty packet what is left to report.\<close>

lemma readPacket_reports:
  assumes run: "readPacket_on (file_reader_ops report) e c r = Some (p, r', c')"
    and ok: "file_lossless (rd_file r)" "rd_buffer r = nullptr \<longleftrightarrow> rd_buffer_size r = 0"
  defines "rest \<equiv> records_report e (rd_buffer_size r) (traced_bytes r)"
  shows "file_lossless (rd_file r')" and "rd_buffer r' = rd_buffer r" and "rd_buffer_size r' = rd_buffer_size r"
    and "Packet_bool p \<Longrightarrow> co_messages c' = co_messages c \<and> length (traced_bytes r') < length (traced_bytes r)
           \<and> records_report e (rd_buffer_size r) (traced_bytes r') = rest"
    and "\<not> Packet_bool p \<Longrightarrow> reported c c' rest"
proof -
  let ?bs = "traced_bytes r"
  obtain f where f: "FileReader_read 16 (rd_file r) = Some (take 16 ?bs, length (take 16 ?bs), f)"
    "file_lossless f" "FileReader_bytes f = drop 16 ?bs"
    using FileReader_read_lossless [OF ok(1)] by metis
  have small: "length (take 16 ?bs) < 2 ^ 32" by simp
  note step = run [unfolded readPacket_on_def readStruct_on_def traced_simps f(1) bind.bind_lunit prod.case Let_def]
  have "file_lossless (rd_file r') \<and> rd_buffer r' = rd_buffer r \<and> rd_buffer_size r' = rd_buffer_size r
    \<and> (if Packet_bool p then co_messages c' = co_messages c \<and> length (traced_bytes r') < length ?bs
           \<and> records_report e (rd_buffer_size r) (traced_bytes r') = rest
       else reported c c' rest)"
  proof (cases "length ?bs < 16")
    case True
    then have "unat (of_nat (length ?bs) :: u32) \<noteq> 16" "(of_nat (length ?bs) :: u32) = 0 \<longleftrightarrow> ?bs = []"
      using unat_count_eq [of "length ?bs"] by (auto simp: unat_eq_zero)
    with step f(2) True show ?thesis
      by (auto simp: rest_def records_report.simps [of e _ ?bs] report_def bind_Some_iff
          intro: reported_nothing reported_one header_cut_undefined split: if_splits)
  next
    case False
    then have len: "length (take 16 ?bs) = 16" by simp
    define header where "header = Reader_scale_header (rd_scale r) (PacketHeader_of_bytes e (take 16 ?bs))"
    let ?n = "unat (ph_caplen header)"
    obtain g where g: "FileReader_read ?n f = Some (take ?n (drop 16 ?bs), length (take ?n (drop 16 ?bs)), g)"
      "file_lossless g" "FileReader_bytes g = drop ?n (drop 16 ?bs)"
      using FileReader_read_lossless [OF f(2)] f(3) by metis
    have count: "(of_nat (length (take ?n (drop 16 ?bs))) :: u32) = ph_caplen header \<longleftrightarrow> ?n \<le> length (drop 16 ?bs)"
      using u32_less [of "ph_caplen header"] by (subst count_eq_iff) auto
    have n: "ph_caplen (PacketHeader_of_bytes e (take 16 ?bs)) = ph_caplen header" by (simp add: header_def)
    have rest: "rest = (if rd_buffer_size r < ?n
        then Some (oversize_text ?n)
        else if length (drop 16 ?bs) < ?n
        then Some (short_text (length (drop 16 ?bs)) ?n)
        else if rd_buffer_size r = 0 then Some []
        else records_report e (rd_buffer_size r) (drop ?n (drop 16 ?bs)))"
      using False by (subst rest_def, subst records_report.simps) (auto simp: Let_def n)
    consider (oversize) "rd_buffer_size r < ?n"
      | (short) "?n \<le> rd_buffer_size r" "length (drop 16 ?bs) < ?n"
      | (full) "?n \<le> rd_buffer_size r" "?n \<le> length (drop 16 ?bs)" by linarith
    then show ?thesis
    proof cases
      case oversize
      with step len f(2) rest show ?thesis
        by (auto simp: header_def [symmetric] report_def intro: reported_one message_texts(6))
    next
      case short
      then have "unat (of_nat (length (drop 16 ?bs)) :: u32) = length (drop 16 ?bs)"
        using u32_less [of "ph_caplen header"] by (intro unat_count_eq) simp
      with short step len g count rest show ?thesis
        by (auto simp: header_def [symmetric] report_def bind_Some_iff message_texts(7) intro!: reported_one)
    next
      case full
      then obtain m where "p = Packet_make header (rd_buffer r)" "r' = r\<lparr>rd_file := g\<rparr>" "c' = c\<lparr>hp_mem := m\<rparr>"
        using step len g count by (auto simp: header_def [symmetric] bind_Some_iff)
      with full g ok(2) rest False show ?thesis by (auto intro: reported_nothing)
    qed
  qed
  then show "file_lossless (rd_file r')" and "rd_buffer r' = rd_buffer r" and "rd_buffer_size r' = rd_buffer_size r"
    and "Packet_bool p \<Longrightarrow> co_messages c' = co_messages c \<and> length (traced_bytes r') < length (traced_bytes r)
           \<and> records_report e (rd_buffer_size r) (traced_bytes r') = rest"
    and "\<not> Packet_bool p \<Longrightarrow> reported c c' rest"
    by (auto split: if_splits)
qed

text \<open>A loop of reads that ends has reported what the bytes say.\<close>

lemma read_all_reports:
  assumes "read_all (Reader_next_on (file_reader_ops report) e) (c, r) = Some (vs, c', r')"
    and "file_lossless (rd_file r)" and "rd_buffer r = nullptr \<longleftrightarrow> rd_buffer_size r = 0"
  shows "reported c c' (records_report e (rd_buffer_size r) (traced_bytes r))"
  using assms
proof (induction "length (traced_bytes r)" arbitrary: c r vs rule: less_induct)
  case less
  from less.prems(1) obtain p r1 c1 where rp: "readPacket_on (file_reader_ops report) e c r = Some (p, r1, c1)"
    by (subst (asm) read_all.simps) (auto simp: Reader_next_on_def bind_Some_iff)
  note one = readPacket_reports [OF rp less.prems(2,3)]
  show ?case
  proof (cases "Packet_bool p")
    case True
    with less.prems(1) rp obtain ws where "read_all (Reader_next_on (file_reader_ops report) e) (c1, r1) = Some (ws, c', r')"
      by (subst (asm) read_all.simps) (auto simp: Reader_next_on_def bind_Some_iff)
    from less.hyps [OF _ this] one less.prems(3) True
    have "reported c1 c' (records_report e (rd_buffer_size r) (traced_bytes r))" by simp
    with one(4) [OF True] show ?thesis by (simp add: reported_def)
  next
    case False
    with less.prems(1) rp have "c' = c1"
      by (subst (asm) read_all.simps) (auto simp: Reader_next_on_def)
    with one(5) [OF False] show ?thesis by simp
  qed
qed

lemma Reader_magic_cases:
  "Reader_magic e magic = None \<longleftrightarrow> magic \<noteq> 0xa1b2c3d4 \<and> magic \<noteq> 0xa1b23c4d"
  by (auto simp: Reader_magic_def TCPDumpMagic_def NSecTCPDumpMagic_def)

lemma swapped_magic:
  "hostToNetwork32 Little TCPDumpMagic = 0xd4c3b2a1" "hostToNetwork32 Little NSecTCPDumpMagic = 0x4d3cb2a1"
  by (simp_all add: hostToNetwork32_def bswap32_def TCPDumpMagic_def NSecTCPDumpMagic_def)

lemma Reader_magic_text:
  assumes "Reader_magic e magic = None"
  shows "debug (Reader_magic_message e magic)
    = Some (if e = Little \<and> (magic = 0xd4c3b2a1 \<or> magic = 0x4d3cb2a1)
        then warn ''Byte swapped PCAP not support'' else unknown_text magic)"
proof (cases e)
  case Little
  then show ?thesis by (auto simp: Reader_magic_message_def swapped_magic message_texts)
next
  case Big
  with assms show ?thesis
    by (auto simp: Reader_magic_cases Reader_magic_message_def message_texts hostToNetwork32_def
        TCPDumpMagic_def NSecTCPDumpMagic_def)
qed

lemma records_report_Nil [simp]: "records_report e snap [] = Some []"
  by (simp add: records_report.simps)

lemma file_lossless_default [simp]: "file_lossless FileReader_default"
  by (simp add: file_lossless_def file_clean_def FileReader_default_def FileReader_deref_def ifstream_default_def
      istream_make_def istream_clean_def)

text \<open>Reading the file header: what it reports, and what is left to report.\<close>

lemma readFileHeader_reports:
  assumes run: "readFileHeader_on (file_reader_ops report) e c r = Some (r', c')"
    and r: "file_lossless (rd_file r)" "rd_buffer r = nullptr" "rd_buffer_size r = 0"
  shows "file_lossless (rd_file r')" and "rd_buffer r' = nullptr \<longleftrightarrow> rd_buffer_size r' = 0"
    and "reported c' c2 (records_report e (rd_buffer_size r') (traced_bytes r')) \<Longrightarrow>
      reported c c2 (header_report e (traced_bytes r))"
proof -
  let ?bs = "traced_bytes r"
  let ?header = "FileHeader_of_bytes e (take 24 ?bs)"
  obtain f where f: "FileReader_read 24 (rd_file r) = Some (take 24 ?bs, length (take 24 ?bs), f)"
    "file_lossless f" "FileReader_bytes f = drop 24 ?bs"
    using FileReader_read_lossless [OF r(1)] by metis
  note step = run [unfolded readFileHeader_on_def readStruct_on_def traced_simps f(1) bind.bind_lunit prod.case Let_def]
  have reject: "file_lossless (rd_file r') \<and> (rd_buffer r' = nullptr \<longleftrightarrow> rd_buffer_size r' = 0)
      \<and> (reported c' c2 (records_report e (rd_buffer_size r') (traced_bytes r')) \<longrightarrow> reported c c2 t)"
    if "Reader_reject (file_reader_ops report) m s c = Some (r', c')" "debug m = t"
      "rd_buffer s = nullptr" "rd_buffer_size s = 0" for m s t
  proof -
    have "r' = s\<lparr>rd_file := FileReader_default\<rparr>" "co_messages c' = co_messages c @ [m]"
      using that(1) by (auto simp: Reader_reject_def report_def)
    then show ?thesis
      using that(2-4) reported_trans [OF reported_one [of c' c m t], of c2 "Some []"]
      by (cases t) auto
  qed
  have "file_lossless (rd_file r') \<and> (rd_buffer r' = nullptr \<longleftrightarrow> rd_buffer_size r' = 0)
      \<and> (reported c' c2 (records_report e (rd_buffer_size r') (traced_bytes r')) \<longrightarrow>
         reported c c2 (header_report e (traced_bytes r)))"
  proof (cases "length ?bs < 24")
    case True
    then have "header_report e ?bs = Some (warn ''Read PCAP header error'')" by (simp add: header_report_def)
    with reject [OF _ message_texts(1), of "r\<lparr>rd_file := f\<rparr>"] True step r show ?thesis by simp
  next
    case False
    then have len: "length (take 24 ?bs) = 24" by simp
    show ?thesis
    proof (cases "Reader_magic e (fh_magic ?header)")
      case None
      with False have "header_report e ?bs = debug (Reader_magic_message e (fh_magic ?header))"
        by (auto simp: header_report_def Reader_magic_text Reader_magic_cases Let_def)
      with reject [OF _ refl, of _ "r\<lparr>rd_file := f\<rparr>"] None step len r show ?thesis by simp
    next
      case (Some sc)
      then have magic: "\<not> (fh_magic ?header \<noteq> 0xa1b2c3d4 \<and> fh_magic ?header \<noteq> 0xa1b23c4d)"
        using Reader_magic_cases [of e "fh_magic ?header"] by simp
      have hr: "header_report e ?bs = (if fh_snaplen ?header > MaxSnapLen then Some (snaplen_text (unat (fh_snaplen ?header)))
          else if fh_linktype ?header \<noteq> LinkType_Ethernet then Some (linktype_text (unat (fh_linktype ?header)))
          else records_report e (unat (fh_snaplen ?header)) (drop 24 ?bs))"
        unfolding header_report_def Let_def if_not_P [OF False] if_not_P [OF magic] MaxSnapLen_def LinkType_Ethernet_def ..
      consider (long) "fh_snaplen ?header > MaxSnapLen"
        | (link) "\<not> fh_snaplen ?header > MaxSnapLen" "fh_linktype ?header \<noteq> LinkType_Ethernet"
        | (good) "\<not> fh_snaplen ?header > MaxSnapLen" "fh_linktype ?header = LinkType_Ethernet" by blast
      then show ?thesis
      proof cases
        case long
        with reject [OF _ message_texts(4), of _ "r\<lparr>rd_file := f, rd_scale := sc\<rparr>"] step len r Some hr
        show ?thesis by simp
      next
        case link
        with reject [OF _ message_texts(5), of _ "r\<lparr>rd_file := f, rd_scale := sc\<rparr>"] step len r Some hr
        show ?thesis by simp
      next
        case good
        with step len Some f hr r show ?thesis
          by (auto simp: vector_alloc_def unat_eq_zero reported_def split: if_splits)
      qed
    qed
  qed
  then show "file_lossless (rd_file r')" and "rd_buffer r' = nullptr \<longleftrightarrow> rd_buffer_size r' = 0"
    and "reported c' c2 (records_report e (rd_buffer_size r') (traced_bytes r')) \<Longrightarrow>
      reported c c2 (header_report e (traced_bytes r))"
    by blast+
qed

text \<open>The program of a client that reads a file to its end, decoding on demand, with its messages.\<close>

definition reader_program_reporting ::
  "endian \<Rightarrow> ('z, 'g) decoders \<Rightarrow> console \<Rightarrow> string
     \<Rightarrow> (exn + captured list \<times> console \<times> ('z, 'g) lazy_stream capture_reader) option" where
  "reader_program_reporting e d = reader_program_on (lazy_ops d report) (lazy_construct report d) e"

lemma reader_program_reports:
  assumes run: "reader_program_on (file_reader_ops report) (FileReader_construct report pf) e c name
      = Some (Inr (vs, c', r'))"
    and f: "FileReader_open pf name = Inr f" "pf_files pf name \<noteq> None \<longrightarrow> file_clean f"
  shows "reported c c' (file_report e name (map_option (\<lambda>bs. FileReader_bytes f) (pf_files pf name)))"
proof -
  let ?opened = "istream_bool (ifstream_open (pf_files pf) name)"
  let ?init = "\<lparr>rd_file = f, rd_scale = PassThrough, rd_timezone = 0, rd_buffer = nullptr, rd_buffer_size = 0\<rparr>"
  define c0 where "c0 = (if ?opened then c
    else c\<lparr>co_messages := co_messages c @ [(''<WARN> File open error (%s)'', [Arg_cstr name])]\<rparr>)"
  have "FileReader_construct report pf name c = Some (Inr (f, c0))"
    by (simp add: FileReader_construct_def file_construct_def report_def f(1) c0_def)
  with run obtain r1 c1 where open1: "readFileHeader_on (file_reader_ops report) e c0 ?init = Some (r1, c1)"
    and loop: "read_all (Reader_next_on (file_reader_ops report) e) (c1, r1) = Some (vs, c', r')"
    by (auto simp: reader_program_on_def Reader_construct_def bind_Some_iff)
  have opened: "?opened \<longleftrightarrow> pf_files pf name \<noteq> None"
    by (cases "pf_files pf name")
      (simp_all add: ifstream_open_def istream_bool_def ifstream_default_def istream_make_def)
  have missing: "\<exists>s. FileReader_deref f = Some s \<and> \<not> istream_good s" if "pf_files pf name = None"
    using f(1) that
    by (auto simp: FileReader_open_def ifstream_open_def istream_bool_def FileReader_deref_def istream_good_def)
  with f(2) have "file_lossless (rd_file ?init)" by (cases "pf_files pf name") (auto simp: file_lossless_def)
  note head = readFileHeader_reports [OF open1 this]
  have "reported c0 c' (header_report e (FileReader_bytes f))"
    using head(3) [OF _ _ read_all_reports [OF loop head(1,2)]] by simp
  moreover have "pf_files pf name = None \<Longrightarrow> FileReader_bytes f = []"
    using missing by (auto simp: FileReader_bytes_def istream_bytes_def)
  moreover have "reported c c0 (Some (if ?opened then [] else open_text name))"
    by (auto simp: c0_def intro: reported_nothing reported_one message_texts(8))
  ultimately show ?thesis
    using reported_trans [of c c0 "Some (if ?opened then [] else open_text name)" c' "header_report e (FileReader_bytes f)"]
    by (cases "pf_files pf name")
      (simp_all add: opened file_report_def header_report_def [of e "[]"] bind_eq_Some_conv reported_empty_trans)
qed

section \<open>Property\<close>

text \<open>
  C24. What is written to \<open>stderr\<close>. On a plain, xz or gzip file or a name without one, reading
  to the end and decoding on demand, the reader delivers the packets the content holds, and the
  text of its messages is what \<open>file_report\<close> says of that content: the reason why the file is
  not accepted, the record that is too long, or how much of a record is there; nothing for a
  file that is complete. A file cut off inside a packet header makes it print a size with the
  directive for another type, which is undefined.
\<close>

theorem reader_reports_endings:
  assumes "lzma_progress code stalled" and "lzma_decodes code fx cx"
    and "inflate_documented inflate fg cg ended" and "heap_ok (heap.truncate c)"
    and decodable: "\<forall>bs. files name = Some bs \<longrightarrow> file_decodable (cx z) (cg g) (fg g) name bs"
  shows "\<exists>c' r' ms. reader_program_reporting e (full_decoders files code z inflate g) c name
      = Some (Inr (pcap_file e (file_content files (fx z) (fg g) name), c', r'))
    \<and> co_messages c' = co_messages c @ ms
    \<and> debug_all ms = file_report e name (map_option (\<lambda>bs. file_content files (fx z) (fg g) name) (files name))"
proof -
  let ?d = "full_decoders files code z inflate g" and ?pf = "full_platform files code z inflate g"
  let ?content = "file_content files (fx z) (fg g) name"
  obtain f where f: "FileReader_open ?pf name = Inr f" "FileReader_bytes f = ?content"
    "files name \<noteq> None \<longrightarrow> file_clean f"
    using full_platform_open [where z = z and g = g and files = files and name = name and fx = fx
        and cx = cx and fg = fg and cg = cg, OF assms(1-3) decodable] by metis
  have "option_sim (rel_sum (=) (rel_prod (=) (rel_prod (\<lambda>h c. heap.truncate c = h) (reader_sim (=)))))
      (reader_program e ?pf (heap.truncate c) name)
      (reader_program_on (file_reader_ops report) (FileReader_construct report ?pf) e c name)"
    unfolding reader_program_def by (rule traced.reader_program_sim) (rule report_construct_sim [OF refl])
  with reader_program_outcome [OF assms(4) f(1), of e] f(2) obtain c1 r1 where
    run: "reader_program_on (file_reader_ops report) (FileReader_construct report ?pf) e c name
      = Some (Inr (pcap_file e ?content, c1, r1))"
    by (auto simp: option_sim_def rel_sum.simps)
  have files: "pf_files ?pf = files" "dc_files ?d = files" by (simp_all add: full_platform_def full_decoders_def)
  have "\<forall>bs. dc_files ?d name = Some bs \<longrightarrow> drainable ?d name bs"
    using decodable full_decoders_drainable [OF assms(1-3)] files(2) by metis
  from lazy_construct_sim [OF this, of report c]
  have "option_sim (rel_sum (=) (rel_prod (=) (rel_prod (=) (reader_sim (delivers_same ?d)))))
      (reader_program_on (file_reader_ops report) (FileReader_construct report ?pf) e c name)
      (reader_program_reporting e ?d c name)"
    unfolding reader_program_reporting_def eager_full_decoders by (rule demand.reader_program_sim)
  from option_simD [OF this run] obtain r' where
    "reader_program_reporting e ?d c name = Some (Inr (pcap_file e ?content, c1, r'))"
    by (auto simp: rel_sum.simps)
  moreover have "reported c c1 (file_report e name (map_option (\<lambda>bs. ?content) (files name)))"
    using reader_program_reports [OF run f(1)] f(2,3) files(1) by simp
  ultimately show ?thesis unfolding reported_def by blast
qed

text \<open>A capture of which the last record has two of its three bytes.\<close>

definition cut_file :: "u8 list" where
  "cut_file = FileHeader_bytes Little sample_header
     @ PacketHeader_bytes Little \<lparr>ph_ts_sec = 7, ph_ts_usec = 5, ph_caplen = 3, ph_len = 60\<rparr> @ [1, 2]"

definition empty_console :: console where
  "empty_console = \<lparr>hp_next = 0, hp_mem = (\<lambda>b. None), co_messages = []\<rparr>"

lemma cut_file_report:
  "file_report Little ''c.pcap'' (Some cut_file) = Some (''<WARN> Data read 2 of 3'' @ [CHR 0x0A])"
proof -
  have "header_report Little cut_file = records_report Little 16 (drop 24 cut_file)"
    by (simp add: header_report_def cut_file_def FileHeader_of_bytes_bytes sample_header_def TCPDumpMagic_def
        LinkType_Ethernet_def)
  also have "\<dots> = Some (short_text (Suc (Suc 0)) 3)"
    by (subst records_report.simps) (simp add: cut_file_def PacketHeader_of_bytes_bytes)
  also have "short_text (Suc (Suc 0)) 3 = ''<WARN> Data read 2 of 3'' @ [CHR 0x0A]" by code_simp
  finally show ?thesis by (simp add: file_report_def)
qed

lemma cut_file_packets: "pcap_file Little cut_file = []"
  by (simp add: pcap_file_def cut_file_def FileHeader_of_bytes_bytes sample_header_def format_tick_def
      TCPDumpMagic_def LinkType_Ethernet_def MaxSnapLen_def pcap_records.simps PacketHeader_of_bytes_bytes)

theorem reader_reports_endings_witness:
  "\<exists>c' r' ms. reader_program_reporting Little (full_decoders [''c.pcap'' \<mapsto> cut_file] lzma_copy () inflate_copy False)
      empty_console ''c.pcap'' = Some (Inr ([], c', r'))
    \<and> co_messages c' = ms \<and> debug_all ms = Some (''<WARN> Data read 2 of 3'' @ [CHR 0x0A])"
proof -
  let ?fg = "\<lambda>z inp. if z then [] else takeWhile (\<lambda>b :: u8. b \<noteq> 0) inp"
  have plain: "\<not> suffix ''.xz'' ''c.pcap''" "\<not> suffix ''.gz'' ''c.pcap''" by (simp_all add: suffix_to_prefix)
  then have "\<forall>bs. [''c.pcap'' \<mapsto> cut_file] ''c.pcap'' = Some bs \<longrightarrow>
      file_decodable (\<lambda>inp. 0 \<notin> set inp) (\<lambda>inp. \<not> False \<and> 0 \<in> set inp) (?fg False) ''c.pcap'' bs"
    and content: "file_content [''c.pcap'' \<mapsto> cut_file] (\<lambda>inp. inp) (?fg False) ''c.pcap'' = cut_file"
    by (simp_all add: file_decodable_def file_content_def)
  moreover have "heap_ok (heap.truncate empty_console)"
    by (simp add: empty_console_def heap.defs heap_ok_def)
  ultimately show ?thesis
    using reader_reports_endings [OF lzma_copy_progress lzma_copy_decodes inflate_copy_documented,
        where c = empty_console and files = "[''c.pcap'' \<mapsto> cut_file]" and name = "''c.pcap''" and e = Little
          and z = "()" and g = False]
    by (simp add: cut_file_packets cut_file_report empty_console_def)
qed

end
