(* ===== verification/Nb_Tests.thy ===== *)
theory Nb_Tests
  imports Nb_IPv4
begin

text \<open>
  \<open>tests/test_ipv4.cpp\<close>: the assertions of the unit tests, evaluated on the model for a
  host of either byte order. The moves of the tests copy.
\<close>

lemma test_Address:
  "IPv4_Address_toUint e IPv4_Address_default = 0
    \<and> IPv4_Address_eq IPv4_Address_default IPv4_Address_any
    \<and> IPv4_Address_toBytes e IPv4_Address_default = [0, 0, 0, 0]
    \<and> IPv4_Address_toBytes e (IPv4_Address_loopback e) = [127, 0, 0, 1]"
proof (cases e)
  case Little
  show ?thesis unfolding Little by code_simp
next
  case Big
  show ?thesis unfolding Big by code_simp
qed

lemma test_Endpoint:
  "IPv4_Address_toUint e (IPv4_Endpoint_address e IPv4_Endpoint_default) = 0
    \<and> IPv4_Endpoint_port e IPv4_Endpoint_default = 0
    \<and> (let endpoint = IPv4_Endpoint_setPort e
             (IPv4_Endpoint_setAddress e IPv4_Endpoint_default (IPv4_Address_loopback e)) 6323
       in IPv4_Address_toBytes e (IPv4_Endpoint_address e endpoint) = [127, 0, 0, 1]
          \<and> IPv4_Endpoint_port e endpoint = 6323)"
proof (cases e)
  case Little
  show ?thesis unfolding Little by code_simp
next
  case Big
  show ?thesis unfolding Big by code_simp
qed

end
