(* ===== verification/Nb_Socket.thy ===== *)
theory Nb_Socket
  imports Nb_Endpoint "HOL-Library.Multiset"
begin

text \<open>
  \<open>netbox/Protocol.h\<close> and \<open>netbox/Socket.h\<close>: the owner of a file descriptor. The system
  calls \<open>fcntl\<close> and \<open>socket\<close> are arguments; a call of \<open>close\<close> is an entry in a log. A
  descriptor is an int, a flag word the 32 bit word of a C int.
\<close>

unbundle bit_operations_syntax

section \<open>Protocol.h\<close>

record Protocol =
  pr_domain :: int
  pr_type :: int
  pr_protocol :: int

definition SOCK_STREAM :: int where "SOCK_STREAM = 1"
definition SOCK_DGRAM :: int where "SOCK_DGRAM = 2"

definition TCPAny :: Protocol where "TCPAny = \<lparr>pr_domain = AF_UNSPEC, pr_type = SOCK_STREAM, pr_protocol = 0\<rparr>"
definition TCPv4 :: Protocol where "TCPv4 = \<lparr>pr_domain = AF_INET, pr_type = SOCK_STREAM, pr_protocol = 0\<rparr>"
definition TCPv6 :: Protocol where "TCPv6 = \<lparr>pr_domain = AF_INET6, pr_type = SOCK_STREAM, pr_protocol = 0\<rparr>"
definition UDPAny :: Protocol where "UDPAny = \<lparr>pr_domain = AF_UNSPEC, pr_type = SOCK_DGRAM, pr_protocol = 0\<rparr>"
definition UDPv4 :: Protocol where "UDPv4 = \<lparr>pr_domain = AF_INET, pr_type = SOCK_DGRAM, pr_protocol = 0\<rparr>"
definition UDPv6 :: Protocol where "UDPv6 = \<lparr>pr_domain = AF_INET6, pr_type = SOCK_DGRAM, pr_protocol = 0\<rparr>"

section \<open>Socket.h\<close>

definition BadFd :: int where "BadFd = -1"

record Socket =
  sock :: int

definition Socket_default :: Socket where
  "Socket_default = \<lparr>sock = BadFd\<rparr>"

definition Socket_make :: "int \<Rightarrow> Socket" where
  "Socket_make fd = \<lparr>sock = fd\<rparr>"

definition Socket_swap :: "Socket \<Rightarrow> Socket \<Rightarrow> Socket \<times> Socket" where
  "Socket_swap this other = (this\<lparr>sock := sock other\<rparr>, other\<lparr>sock := sock this\<rparr>)"

text \<open>The move constructor: the new object and the one moved from.\<close>

definition Socket_move :: "Socket \<Rightarrow> Socket \<times> Socket" where
  "Socket_move other = Socket_swap Socket_default other"

definition Socket_move_assign :: "bool \<Rightarrow> Socket \<Rightarrow> Socket \<Rightarrow> Socket \<times> Socket" where
  "Socket_move_assign same this other = (if \<not> same then Socket_swap this other else (this, other))"

text \<open>The descriptors the destructor and \<open>close\<close> hand to the system call.\<close>

definition Socket_destroy :: "Socket \<Rightarrow> int list" where
  "Socket_destroy s = (if sock s \<noteq> BadFd then [sock s] else [])"

definition Socket_close :: "Socket \<Rightarrow> Socket \<times> int list" where
  "Socket_close s = (if sock s \<noteq> BadFd then (s\<lparr>sock := BadFd\<rparr>, [sock s]) else (s, []))"

definition Socket_bool :: "Socket \<Rightarrow> bool" where
  "Socket_bool s \<longleftrightarrow> sock s \<noteq> BadFd"

definition Socket_native :: "Socket \<Rightarrow> int" where
  "Socket_native s = sock s"

definition F_GETFL :: int where "F_GETFL = 3"
definition F_SETFL :: int where "F_SETFL = 4"
definition O_NONBLOCK :: u32 where "O_NONBLOCK = 0x800"
definition FD_CLOEXEC :: u32 where "FD_CLOEXEC = 1"

definition Socket_setNonBlocking ::
  "('k \<Rightarrow> int \<Rightarrow> int \<Rightarrow> u32 \<Rightarrow> u32 \<times> 'k) \<Rightarrow> 'k \<Rightarrow> Socket \<Rightarrow> bool \<Rightarrow> bool \<times> 'k" where
  "Socket_setNonBlocking fcntl k s value =
     (let (flags, k) = fcntl k (Socket_native s) F_GETFL 0;
          flags = (if flags = -1 then 0 else flags);
          flags = (if value then flags OR O_NONBLOCK else flags AND NOT O_NONBLOCK);
          (r, k) = fcntl k (Socket_native s) F_SETFL flags
      in (0 = r, k))"

definition Socket_setCloexec ::
  "('k \<Rightarrow> int \<Rightarrow> int \<Rightarrow> u32 \<Rightarrow> u32 \<times> 'k) \<Rightarrow> 'k \<Rightarrow> Socket \<Rightarrow> bool \<Rightarrow> bool \<times> 'k" where
  "Socket_setCloexec fcntl k s value =
     (let (flags, k) = fcntl k (Socket_native s) F_GETFL 0;
          flags = (if flags = -1 then 0 else flags);
          flags = (if value then flags OR FD_CLOEXEC else flags AND NOT FD_CLOEXEC);
          (r, k) = fcntl k (Socket_native s) F_SETFL flags
      in (0 = r, k))"

text \<open>
  \<open>::socket\<close> in a kernel state: the descriptor it returns, the \<open>errno\<close> it leaves and the
  kernel after it.
\<close>

definition Socket_create ::
  "(int \<Rightarrow> string) \<Rightarrow> (int \<Rightarrow> int \<Rightarrow> int \<Rightarrow> 'k \<Rightarrow> int \<times> int \<times> 'k) \<Rightarrow> int \<Rightarrow> int \<Rightarrow> int \<Rightarrow> 'k
     \<Rightarrow> (exn + Socket) \<times> 'k" where
  "Socket_create strerror sys_socket family sockType protocol k =
     (let (fd, errno, k) = sys_socket family sockType protocol k in
      if fd = BadFd then (throwEx_ec strerror SocketError ''socket'' (ErrorCode_make errno), k)
      else (Inr (Socket_make fd), k))"

definition Socket_create_protocol ::
  "(int \<Rightarrow> string) \<Rightarrow> (int \<Rightarrow> int \<Rightarrow> int \<Rightarrow> 'k \<Rightarrow> int \<times> int \<times> 'k) \<Rightarrow> Protocol \<Rightarrow> 'k
     \<Rightarrow> (exn + Socket) \<times> 'k" where
  "Socket_create_protocol strerror sys_socket proto k =
     Socket_create strerror sys_socket (pr_domain proto) (pr_type proto) (pr_protocol proto) k"

section \<open>A program with sockets\<close>

text \<open>
  The variables of a program, None once destroyed, and the log of \<open>close\<close>. A step that names
  a variable that is not there is not a C++ program and has no result.
\<close>

datatype socket_op =
    New_fd int
  | New_default
  | New_move nat
  | Assign_move nat nat
  | Swap nat nat
  | Close nat
  | Destroy nat

record socket_state =
  ss_vars :: "Socket option list"
  ss_closed :: "int list"

definition get_var :: "socket_state \<Rightarrow> nat \<Rightarrow> Socket option" where
  "get_var x i = (if i < length (ss_vars x) then ss_vars x ! i else None)"

definition swap_vars ::
  "(Socket \<Rightarrow> Socket \<Rightarrow> Socket \<times> Socket) \<Rightarrow> socket_state \<Rightarrow> nat \<Rightarrow> nat \<Rightarrow> socket_state option" where
  "swap_vars f x i j =
     do { a \<leftarrow> get_var x i; b \<leftarrow> get_var x j;
          let (a, b) = f a b in
          Some (x\<lparr>ss_vars := (ss_vars x)[i := Some a, j := Some b]\<rparr>) }"

fun socket_step :: "socket_state \<Rightarrow> socket_op \<Rightarrow> socket_state option" where
  "socket_step x (New_fd fd) = Some (x\<lparr>ss_vars := ss_vars x @ [Some (Socket_make fd)]\<rparr>)"
| "socket_step x New_default = Some (x\<lparr>ss_vars := ss_vars x @ [Some Socket_default]\<rparr>)"
| "socket_step x (New_move i) =
     do { other \<leftarrow> get_var x i;
          let (this, other) = Socket_move other in
          Some (x\<lparr>ss_vars := (ss_vars x)[i := Some other] @ [Some this]\<rparr>) }"
| "socket_step x (Assign_move i j) = swap_vars (Socket_move_assign (i = j)) x i j"
| "socket_step x (Swap i j) = swap_vars Socket_swap x i j"
| "socket_step x (Close i) =
     do { s \<leftarrow> get_var x i;
          let (s, fds) = Socket_close s in
          Some (x\<lparr>ss_vars := (ss_vars x)[i := Some s], ss_closed := ss_closed x @ fds\<rparr>) }"
| "socket_step x (Destroy i) =
     do { s \<leftarrow> get_var x i;
          Some (x\<lparr>ss_vars := (ss_vars x)[i := None],
                  ss_closed := ss_closed x @ Socket_destroy s\<rparr>) }"

fun socket_run :: "socket_state \<Rightarrow> socket_op list \<Rightarrow> socket_state option" where
  "socket_run x [] = Some x"
| "socket_run x (a # as) = do { y \<leftarrow> socket_step x a; socket_run y as }"

definition socket_init :: socket_state where
  "socket_init = \<lparr>ss_vars = [], ss_closed = []\<rparr>"

text \<open>The descriptors a program takes over, and those its variables hold.\<close>

fun acquired :: "socket_op list \<Rightarrow> int list" where
  "acquired [] = []"
| "acquired (New_fd fd # as) = (if fd = BadFd then [] else [fd]) @ acquired as"
| "acquired (a # as) = acquired as"

definition fd_of :: "Socket option \<Rightarrow> int multiset" where
  "fd_of v = (case v of None \<Rightarrow> {#} | Some s \<Rightarrow> if sock s = BadFd then {#} else {#sock s#})"

definition held :: "socket_state \<Rightarrow> int multiset" where
  "held x = (\<Sum>v\<leftarrow>ss_vars x. fd_of v)"

section \<open>Lemmas\<close>

lemma held_update:
  "get_var x i = Some s \<Longrightarrow>
     held (x\<lparr>ss_vars := (ss_vars x)[i := v]\<rparr>) + fd_of (Some s) = held x + fd_of v"
  using sum_list_update_add [of i "ss_vars x" fd_of v]
  by (auto simp: held_def get_var_def split: if_splits)

lemma Socket_eta [simp]: "(s :: Socket)\<lparr>sock := v\<rparr> = \<lparr>sock = v\<rparr>" "\<lparr>sock = sock s\<rparr> = (s :: Socket)"
  by (cases s; simp)+

lemma get_var_Some: "get_var x i = Some s \<Longrightarrow> i < length (ss_vars x) \<and> ss_vars x ! i = Some s"
  by (auto simp: get_var_def split: if_splits)

lemma fd_of_simps [simp]:
  "fd_of None = {#}" "fd_of (Some \<lparr>sock = BadFd\<rparr>) = {#}" "fd_of (Some Socket_default) = {#}"
  by (simp_all add: fd_of_def Socket_default_def)

lemma held_append: "held (x\<lparr>ss_vars := vs @ [v]\<rparr>) = held (x\<lparr>ss_vars := vs\<rparr>) + fd_of v"
  by (simp add: held_def)

lemma held_closed [simp]: "held (x\<lparr>ss_closed := fds\<rparr>) = held x"
  by (simp add: held_def)

lemma held_swap:
  assumes "get_var x i = Some a" and "get_var x j = Some b"
    and "fd_of (Some a') + fd_of (Some b') = fd_of (Some a) + fd_of (Some b)"
    and "i = j \<Longrightarrow> b' = a"
  shows "held (x\<lparr>ss_vars := (ss_vars x)[i := Some a', j := Some b']\<rparr>) = held x"
  using get_var_Some [OF assms(1)] get_var_Some [OF assms(2)] assms(3,4)
  by (auto simp: held_def intro!: sum_list_update2)

lemma get_var_same: "get_var x i = Some s \<Longrightarrow> (ss_vars x)[i := Some s] = ss_vars x"
  using get_var_Some [of x i s] by (metis list_update_id)

lemma held_destroyed: "\<forall>v\<in>set (ss_vars x). v = None \<Longrightarrow> held x = {#}"
proof -
  have "\<forall>v\<in>set vs. v = None \<Longrightarrow> (\<Sum>v\<leftarrow>vs. fd_of v) = {#}" for vs
    by (induction vs) auto
  then show "\<forall>v\<in>set (ss_vars x). v = None \<Longrightarrow> held x = {#}" by (simp add: held_def)
qed

text \<open>Every step conserves the descriptors: what is held or closed was held before or is new.\<close>

lemma socket_step_conserves:
  assumes "socket_step x a = Some y"
  shows "mset (ss_closed y) + held y = mset (ss_closed x) + held x + mset (acquired [a])"
proof (cases a)
  case (New_fd fd)
  with assms show ?thesis
    by (auto simp: held_append fd_of_def Socket_make_def)
next
  case New_default
  with assms show ?thesis by (auto simp: held_append)
next
  case (New_move i)
  with assms obtain s where s: "get_var x i = Some s"
    and y: "y = x\<lparr>ss_vars := (ss_vars x)[i := Some \<lparr>sock = BadFd\<rparr>] @ [Some s]\<rparr>"
    by (auto simp: bind_Some_iff Socket_move_def Socket_swap_def Socket_default_def)
  from held_update [OF s, of "Some \<lparr>sock = BadFd\<rparr>"] New_move show ?thesis
    by (simp add: y held_append)
next
  case (Assign_move i j)
  with assms show ?thesis
    by (cases "i = j")
      (auto simp: bind_Some_iff swap_vars_def Socket_move_assign_def Socket_swap_def fd_of_def
        get_var_same intro!: held_swap split: if_splits)
next
  case (Swap i j)
  with assms show ?thesis
    by (auto simp: bind_Some_iff swap_vars_def Socket_swap_def fd_of_def intro!: held_swap)
next
  case (Close i)
  with assms obtain s where s: "get_var x i = Some s"
    and y: "y = x\<lparr>ss_vars := (ss_vars x)[i := Some (fst (Socket_close s))],
      ss_closed := ss_closed x @ snd (Socket_close s)\<rparr>"
    by (auto simp: bind_Some_iff case_prod_beta)
  have "mset (snd (Socket_close s)) + fd_of (Some (fst (Socket_close s))) = fd_of (Some s)"
    by (auto simp: Socket_close_def fd_of_def)
  then have "held (x\<lparr>ss_vars := (ss_vars x)[i := Some (fst (Socket_close s))]\<rparr>)
        + mset (snd (Socket_close s)) + fd_of (Some (fst (Socket_close s)))
      = held x + fd_of (Some (fst (Socket_close s)))"
    using held_update [OF s, of "Some (fst (Socket_close s))"] by (simp add: add.assoc)
  then have "held (x\<lparr>ss_vars := (ss_vars x)[i := Some (fst (Socket_close s))]\<rparr>)
      + mset (snd (Socket_close s)) = held x"
    by simp
  with Close show ?thesis by (auto simp: y add.commute)
next
  case (Destroy i)
  with assms obtain s where s: "get_var x i = Some s"
    and y: "y = x\<lparr>ss_vars := (ss_vars x)[i := None], ss_closed := ss_closed x @ Socket_destroy s\<rparr>"
    by (auto simp: bind_Some_iff)
  have "mset (Socket_destroy s) = fd_of (Some s)"
    by (auto simp: Socket_destroy_def fd_of_def)
  with held_update [OF s, of None] Destroy show ?thesis
    by (simp add: y add.commute)
qed

lemma acquired_Cons: "acquired (a # as) = acquired [a] @ acquired as"
  by (cases a) auto

lemma socket_run_conserves:
  "socket_run x as = Some y \<Longrightarrow>
     mset (ss_closed y) + held y = mset (ss_closed x) + held x + mset (acquired as)"
proof (induction x as rule: socket_run.induct)
  case (2 x a as)
  then obtain z where z: "socket_step x a = Some z" "socket_run z as = Some y"
    by (auto simp: bind_Some_iff)
  have "mset (acquired (a # as)) = mset (acquired [a]) + mset (acquired as)"
    by (subst acquired_Cons) simp
  with "2.IH" [OF z] socket_step_conserves [OF z(1)] show ?case
    by (simp only: add.assoc)
qed simp

section \<open>Properties\<close>

text \<open>
  C15. Every descriptor is closed exactly once: whatever a program does with its sockets,
  moves, assignments, swaps and early closes in any order, when all of them are destroyed
  the calls of \<open>close\<close> are a permutation of the valid descriptors the sockets were
  constructed from, and at any time before that a descriptor is either closed or held.
\<close>

theorem sockets_close_exactly_once:
  assumes "socket_run socket_init as = Some x"
  shows "mset (ss_closed x) + held x = mset (acquired as)
    \<and> ((\<forall>v\<in>set (ss_vars x). v = None) \<longrightarrow> mset (ss_closed x) = mset (acquired as))"
proof -
  have "mset (ss_closed x) + held x = mset (acquired as)"
    using socket_run_conserves [OF assms] by (simp add: socket_init_def held_def)
  with held_destroyed [of x] show ?thesis by auto
qed

theorem sockets_close_exactly_once_witness:
  "\<exists>x. socket_run socket_init
      [New_fd 5, New_fd 7, New_move 0, Assign_move 2 1, Assign_move 1 1, Close 2, Destroy 2, Destroy 1, Destroy 0]
      = Some x \<and> ss_closed x = [7, 5] \<and> mset (ss_closed x) = {#5, 7#}"
proof -
  let ?as = "[New_fd 5, New_fd 7, New_move 0, Assign_move 2 1, Assign_move 1 1, Close 2, Destroy 2,
    Destroy 1, Destroy 0]"
  have run: "socket_run socket_init ?as = Some \<lparr>ss_vars = [None, None, None], ss_closed = [7, 5]\<rparr>"
    by (simp add: socket_init_def get_var_def Socket_make_def Socket_move_def Socket_swap_def
        Socket_default_def Socket_move_assign_def swap_vars_def Socket_close_def Socket_destroy_def
        BadFd_def eval_nat_numeral)
  from sockets_close_exactly_once [OF run] show ?thesis
    using run by (simp add: BadFd_def)
qed

text \<open>
  The documented behaviour of \<open>fcntl\<close> on the open descriptors: \<open>F_GETFL\<close> gives the status
  flags, which are not negative; \<open>F_SETFL\<close> succeeds and sets those of them that can be
  set, \<open>O_NONBLOCK\<close> but not the access mode in the low bits, and leaves the close-on-exec
  flag alone.
\<close>

definition fcntl_documented ::
  "('k \<Rightarrow> int \<Rightarrow> int \<Rightarrow> u32 \<Rightarrow> u32 \<times> 'k) \<Rightarrow> ('k \<Rightarrow> int \<Rightarrow> bool) \<Rightarrow> ('k \<Rightarrow> int \<Rightarrow> u32) \<Rightarrow> ('k \<Rightarrow> int \<Rightarrow> bool)
     \<Rightarrow> u32 \<Rightarrow> bool" where
  "fcntl_documented fcntl is_open status cloexec settable \<longleftrightarrow>
     bit settable 11 \<and> \<not> bit settable 0
     \<and> (\<forall>k fd v. is_open k fd \<longrightarrow> fcntl k fd F_GETFL v = (status k fd, k) \<and> status k fd \<noteq> -1)
     \<and> (\<forall>k fd v. is_open k fd \<longrightarrow>
          (\<exists>k'. fcntl k fd F_SETFL v = (0, k')
             \<and> status k' fd = (status k fd AND NOT settable) OR (v AND settable)
             \<and> cloexec k' fd = cloexec k fd))"

lemma bit_flags: "bit O_NONBLOCK i \<longleftrightarrow> i = 11" "bit FD_CLOEXEC i \<longleftrightarrow> i = 0"
proof -
  have n: "O_NONBLOCK = 2 ^ 11" and c: "FD_CLOEXEC = 2 ^ 0"
    by (simp_all add: O_NONBLOCK_def FD_CLOEXEC_def)
  show "bit O_NONBLOCK i \<longleftrightarrow> i = 11" "bit FD_CLOEXEC i \<longleftrightarrow> i = 0"
    unfolding n c bit_exp_iff by auto
qed

text \<open>
  \<open>setNonBlocking\<close> on an open socket succeeds, leaves the descriptor non-blocking or
  blocking as asked, and changes no other status flag and not the close-on-exec flag.
\<close>

theorem setNonBlocking_sets_flag:
  assumes "fcntl_documented fcntl is_open status cloexec settable" and "is_open k (sock s)"
    and "Socket_setNonBlocking fcntl k s value = (r, k')"
  shows "r \<and> (\<forall>i<32. bit (status k' (sock s)) i \<longleftrightarrow>
      (if i = 11 then value else bit (status k (sock s)) i))
    \<and> cloexec k' (sock s) = cloexec k (sock s)"
proof -
  let ?fd = "sock s"
  let ?flags = "if value then status k ?fd OR O_NONBLOCK else status k ?fd AND NOT O_NONBLOCK"
  obtain k1 where k1: "fcntl k ?fd F_SETFL ?flags = (0, k1)"
    "status k1 ?fd = (status k ?fd AND NOT settable) OR (?flags AND settable)"
    "cloexec k1 ?fd = cloexec k ?fd"
    using assms(1,2) unfolding fcntl_documented_def by blast
  have "fcntl k ?fd F_GETFL 0 = (status k ?fd, k)" "status k ?fd \<noteq> -1"
    using assms(1,2) by (auto simp: fcntl_documented_def)
  with assms(3) k1(1) have "r" "k' = k1"
    by (auto simp: Socket_setNonBlocking_def Socket_native_def Let_def split: if_splits)
  moreover have "bit settable 11" using assms(1) by (simp add: fcntl_documented_def)
  ultimately show ?thesis
    using k1(2,3) by (auto simp: bit_simps bit_flags)
qed

text \<open>
  C40. \<open>setCloexec\<close> reports success but does nothing: it reads and writes the status flags,
  where the bit of \<open>FD_CLOEXEC\<close> belongs to the access mode, so neither the close-on-exec
  flag of the descriptor nor any status flag changes, whatever value is asked for.
\<close>

theorem setCloexec_has_no_effect:
  assumes "fcntl_documented fcntl is_open status cloexec settable" and "is_open k (sock s)"
    and "Socket_setCloexec fcntl k s value = (r, k')"
  shows "r \<and> cloexec k' (sock s) = cloexec k (sock s) \<and> status k' (sock s) = status k (sock s)"
proof -
  let ?fd = "sock s"
  let ?flags = "if value then status k ?fd OR FD_CLOEXEC else status k ?fd AND NOT FD_CLOEXEC"
  obtain k1 where k1: "fcntl k ?fd F_SETFL ?flags = (0, k1)"
    "status k1 ?fd = (status k ?fd AND NOT settable) OR (?flags AND settable)"
    "cloexec k1 ?fd = cloexec k ?fd"
    using assms(1,2) unfolding fcntl_documented_def by blast
  have "fcntl k ?fd F_GETFL 0 = (status k ?fd, k)" "status k ?fd \<noteq> -1"
    using assms(1,2) by (auto simp: fcntl_documented_def)
  with assms(3) k1(1) have r: "r" "k' = k1"
    by (auto simp: Socket_setCloexec_def Socket_native_def Let_def split: if_splits)
  have "\<not> bit settable 0" using assms(1) by (simp add: fcntl_documented_def)
  then have "(status k ?fd AND NOT settable) OR (?flags AND settable) = status k ?fd"
    by (intro bit_word_eqI) (auto simp: bit_simps bit_flags split: if_splits intro!: gr0I)
  with r k1(2,3) show ?thesis by simp
qed

text \<open>A kernel with the flags of each descriptor: status flags and close-on-exec.\<close>

definition kernel_fcntl ::
  "(int \<Rightarrow> u32 \<times> bool) \<Rightarrow> int \<Rightarrow> int \<Rightarrow> u32 \<Rightarrow> u32 \<times> (int \<Rightarrow> u32 \<times> bool)" where
  "kernel_fcntl k fd cmd v =
     (if cmd = F_GETFL then (fst (k fd), k)
      else if cmd = F_SETFL then
        (0, k(fd := ((fst (k fd) AND NOT O_NONBLOCK) OR (v AND O_NONBLOCK), snd (k fd))))
      else (-1, k))"

lemma kernel_documented:
  "fcntl_documented kernel_fcntl (\<lambda>k fd. fst (k fd) \<noteq> -1) (\<lambda>k fd. fst (k fd)) (\<lambda>k fd. snd (k fd)) O_NONBLOCK"
  by (simp add: fcntl_documented_def kernel_fcntl_def bit_flags F_GETFL_def F_SETFL_def)

theorem setNonBlocking_sets_flag_witness:
  "\<exists>k'. Socket_setNonBlocking kernel_fcntl (\<lambda>fd. (2, False)) (Socket_make 3) True = (True, k')
     \<and> bit (fst (k' 3)) 11 \<and> bit (fst (k' 3)) 1 \<and> \<not> snd (k' 3)"
proof -
  obtain r k' where out: "Socket_setNonBlocking kernel_fcntl (\<lambda>fd. (2, False)) (Socket_make 3) True = (r, k')"
    by fastforce
  have b: "bit (2 :: u32) 1" by (simp add: bit_iff_odd)
  from setNonBlocking_sets_flag [OF kernel_documented _ out] b out show ?thesis
    by (auto simp: Socket_make_def)
qed

theorem setCloexec_has_no_effect_witness:
  "\<exists>k'. Socket_setCloexec kernel_fcntl (\<lambda>fd. (2, False)) (Socket_make 3) True = (True, k')
     \<and> \<not> snd (k' 3)"
proof -
  obtain r k' where out: "Socket_setCloexec kernel_fcntl (\<lambda>fd. (2, False)) (Socket_make 3) True = (r, k')"
    by fastforce
  from setCloexec_has_no_effect [OF kernel_documented _ out] out show ?thesis
    by (auto simp: Socket_make_def)
qed

end
