(* ===== verification/Nb_Result.thy ===== *)
theory Nb_Result
  imports Nb_Socket
begin

text \<open>
  \<open>netbox/result.h\<close>: the results of the socket operations, each an \<open>ErrorCode\<close> with the
  value of the system call. The constructors read the \<open>errno\<close> the call left. An \<open>ssize_t\<close>
  is a 64 bit word read with \<open>sint\<close>.
\<close>

section \<open>OpResult\<close>

record OpResult = ErrorCode +
  op_value :: int

definition OpResult_default :: OpResult where
  "OpResult_default = \<lparr>ec = 0, op_value = -1\<rparr>"

definition OpResult_make :: "int \<Rightarrow> int \<Rightarrow> OpResult" where
  "OpResult_make errno value = \<lparr>ec = (if value \<noteq> 0 then errno else 0), op_value = value\<rparr>"

definition OpResult_bool :: "OpResult \<Rightarrow> bool" where
  "OpResult_bool r \<longleftrightarrow> op_value r = 0"

section \<open>TransmitResult\<close>

record TransmitResult = ErrorCode +
  tr_value :: u64

definition TransmitResult_default :: TransmitResult where
  "TransmitResult_default = \<lparr>ec = 0, tr_value = -1\<rparr>"

definition TransmitResult_make :: "int \<Rightarrow> u64 \<Rightarrow> TransmitResult" where
  "TransmitResult_make errno value = \<lparr>ec = (if value = -1 then errno else 0), tr_value = value\<rparr>"

definition TransmitResult_bool :: "TransmitResult \<Rightarrow> bool" where
  "TransmitResult_bool r \<longleftrightarrow> sint (tr_value r) > 0"

definition TransmitResult_bytes :: "TransmitResult \<Rightarrow> u64" where
  "TransmitResult_bytes r = tr_value r"

definition TransmitResult_isClosed :: "TransmitResult \<Rightarrow> bool" where
  "TransmitResult_isClosed r \<longleftrightarrow> tr_value r = 0"

section \<open>SocketResult\<close>

record SocketResult = ErrorCode +
  sr_socket :: Socket

definition SocketResult_default :: SocketResult where
  "SocketResult_default = \<lparr>ec = 0, sr_socket = Socket_default\<rparr>"

definition SocketResult_make :: "int \<Rightarrow> int \<Rightarrow> SocketResult" where
  "SocketResult_make errno value =
     \<lparr>ec = (if value = BadFd then errno else 0), sr_socket = Socket_make value\<rparr>"

text \<open>
  The overload for a socket initialises its base class from the member \<open>socket_\<close>, which is
  constructed after it: a read of an indeterminate value.
\<close>

definition SocketResult_fromSocket :: "int \<Rightarrow> Socket \<Rightarrow> SocketResult option" where
  "SocketResult_fromSocket errno socket =
     (let socket_before_construction = None :: Socket option in
      do { s \<leftarrow> socket_before_construction;
           Some \<lparr>ec = (if \<not> Socket_bool s then errno else 0), sr_socket = fst (Socket_move socket)\<rparr> })"

definition SocketResult_bool :: "SocketResult \<Rightarrow> bool" where
  "SocketResult_bool r \<longleftrightarrow> Socket_bool (sr_socket r)"

definition SocketResult_getSocket :: "SocketResult \<Rightarrow> Socket" where
  "SocketResult_getSocket r = sr_socket r"

section \<open>Properties\<close>

text \<open>
  What a client can tell from a transmission: for the value of a send or receive call,
  which is -1 or not negative, with an \<open>errno\<close> that is set when it is -1, exactly one of
  three cases holds: success with \<open>bytes\<close> the number transmitted, a closed connection, or
  a failure whose code is the \<open>errno\<close>. Only in the failure case is the code not 0, and
  only there \<open>bytes\<close> is not the number transmitted but the largest \<open>std::size_t\<close>.
\<close>

theorem transmit_result_cases:
  assumes "v = -1 \<or> 0 \<le> sint v" and "v = -1 \<longrightarrow> errno \<noteq> 0"
  shows "let r = TransmitResult_make errno v in
    (TransmitResult_bool r \<longleftrightarrow> 0 < sint v) \<and> (TransmitResult_isClosed r \<longleftrightarrow> sint v = 0)
    \<and> (ErrorCode_native r \<noteq> 0 \<longleftrightarrow> sint v = -1)
    \<and> (if sint v = -1 then ErrorCode_native r = errno \<and> unat (TransmitResult_bytes r) = 2 ^ 64 - 1
       else int (unat (TransmitResult_bytes r)) = sint v)"
proof -
  have inj: "sint v = sint w \<longleftrightarrow> v = w" for w :: u64
    using uint_sint [of v] uint_sint [of w] by (metis word_uint_eqI)
  from inj [of "-1"] inj [of 0] have m: "sint v = -1 \<longleftrightarrow> v = -1" and z: "sint v = 0 \<longleftrightarrow> v = 0"
    by simp_all
  have u: "int (unat v) = sint v" if "0 \<le> sint v"
    using that uint_sint [of v] sint_less [of v] by (simp add: take_bit_int_eq_self)
  have "unat (-1 :: u64) = 2 ^ 64 - 1"
    by (simp add: unsigned_minus_1_eq_mask mask_eq_exp_minus_1)
  with m z u assms show ?thesis
    by (auto simp: TransmitResult_make_def TransmitResult_bool_def TransmitResult_isClosed_def
        TransmitResult_bytes_def ErrorCode_native_def Let_def)
qed

theorem transmit_result_cases_witness:
  "TransmitResult_bool (TransmitResult_make 11 512)
    \<and> ErrorCode_native (TransmitResult_make 11 (-1)) = 11
    \<and> \<not> TransmitResult_bool (TransmitResult_make 11 (-1))"
  using transmit_result_cases [of 512 11] transmit_result_cases [of "-1" 11]
  by (simp add: Let_def)

text \<open>
  The results of connect-like and accept-like calls agree with the calls: the result
  converts to true exactly when the call succeeded, the code is the \<open>errno\<close> of a failed
  call and 0 otherwise, and a successful accept owns the descriptor the call returned.
  The overload of \<open>SocketResult\<close> for an existing socket has no defined behaviour.
\<close>

theorem op_results_agree:
  "(OpResult_bool (OpResult_make errno v) \<longleftrightarrow> v = 0)
    \<and> ErrorCode_native (OpResult_make errno v) = (if v = 0 then 0 else errno)
    \<and> (SocketResult_bool (SocketResult_make errno fd) \<longleftrightarrow> fd \<noteq> BadFd)
    \<and> ErrorCode_native (SocketResult_make errno fd) = (if fd = BadFd then errno else 0)
    \<and> Socket_native (SocketResult_getSocket (SocketResult_make errno fd)) = fd
    \<and> SocketResult_fromSocket errno s = None"
  by (simp add: OpResult_bool_def OpResult_make_def SocketResult_bool_def SocketResult_make_def
      ErrorCode_native_def Socket_bool_def Socket_make_def Socket_native_def
      SocketResult_getSocket_def SocketResult_fromSocket_def)

end
