(* ===== verification/Nb_IPv6.thy ===== *)
theory Nb_IPv6
  imports Nb_Endpoint
begin

text \<open>
  \<open>netbox/details/ipv6/Address.h\<close>, \<open>netbox/details/ipv6/Endpoint.h\<close> and
  \<open>netbox/IPv6.h\<close>. An address holds 16 bytes and a scope id; an endpoint holds
  \<open>sockaddr_in6\<close>. A \<open>std::array\<close> of 16 bytes is a list whose length the predicates
  \<open>IPv6_Address_ok\<close> and \<open>IPv6_Endpoint_ok\<close> fix.
\<close>

section \<open>Address\<close>

record IPv6_Address =
  s6_addr :: "u8 list"
  scopeId :: u64

definition IPv6_Address_default :: IPv6_Address where
  "IPv6_Address_default = \<lparr>s6_addr = replicate 16 0, scopeId = 0\<rparr>"

definition IPv6_Address_fromBytes :: "u8 list \<Rightarrow> u64 \<Rightarrow> IPv6_Address" where
  "IPv6_Address_fromBytes bytes scope = \<lparr>s6_addr = bytes, scopeId = scope\<rparr>"

definition IPv6_Address_scopeId :: "IPv6_Address \<Rightarrow> u64" where
  "IPv6_Address_scopeId a = scopeId a"

definition IPv6_Address_setScopeId :: "IPv6_Address \<Rightarrow> u64 \<Rightarrow> IPv6_Address" where
  "IPv6_Address_setScopeId a i = a\<lparr>scopeId := i\<rparr>"

definition IPv6_Address_toBytes :: "IPv6_Address \<Rightarrow> u8 list" where
  "IPv6_Address_toBytes a = s6_addr a"

definition IPv6_Address_eq :: "IPv6_Address \<Rightarrow> IPv6_Address \<Rightarrow> bool" where
  "IPv6_Address_eq a1 a2 \<longleftrightarrow> s6_addr a1 = s6_addr a2 \<and> scopeId a1 = scopeId a2"

definition IPv6_Address_neq :: "IPv6_Address \<Rightarrow> IPv6_Address \<Rightarrow> bool" where
  "IPv6_Address_neq a1 a2 \<longleftrightarrow> \<not> IPv6_Address_eq a1 a2"

definition IPv6_Address_any :: IPv6_Address where
  "IPv6_Address_any = IPv6_Address_default"

definition IPv6_Address_loopback :: IPv6_Address where
  "IPv6_Address_loopback =
     IPv6_Address_default\<lparr>s6_addr := (s6_addr IPv6_Address_default)[15 := 1]\<rparr>"

definition IPv6_Address_ok :: "IPv6_Address \<Rightarrow> bool" where
  "IPv6_Address_ok a \<longleftrightarrow> length (s6_addr a) = 16"

section \<open>Endpoint\<close>

record IPv6_Endpoint =
  sin6_family :: u16
  sin6_port :: u16
  sin6_flowinfo :: u32
  sin6_addr :: "u8 list"
  sin6_scope_id :: u32

definition IPv6_Endpoint_default :: IPv6_Endpoint where
  "IPv6_Endpoint_default =
     \<lparr>sin6_family = of_int AF_INET6, sin6_port = 0, sin6_flowinfo = 0,
      sin6_addr = replicate 16 0, sin6_scope_id = 0\<rparr>"

text \<open>The constructor from a \<open>sockaddr_in6\<close>: an endpoint is one.\<close>

definition IPv6_Endpoint_fromStorage :: "IPv6_Endpoint \<Rightarrow> IPv6_Endpoint" where
  "IPv6_Endpoint_fromStorage storage = storage"

definition IPv6_Endpoint_address :: "IPv6_Endpoint \<Rightarrow> IPv6_Address" where
  "IPv6_Endpoint_address ep = IPv6_Address_fromBytes (sin6_addr ep) 0"

definition IPv6_Endpoint_setAddress :: "IPv6_Endpoint \<Rightarrow> IPv6_Address \<Rightarrow> IPv6_Endpoint" where
  "IPv6_Endpoint_setAddress ep a = ep\<lparr>sin6_addr := IPv6_Address_toBytes a\<rparr>"

definition IPv6_Endpoint_port :: "endian \<Rightarrow> IPv6_Endpoint \<Rightarrow> u16" where
  "IPv6_Endpoint_port e ep = networkToHost16 e (sin6_port ep)"

definition IPv6_Endpoint_setPort :: "endian \<Rightarrow> IPv6_Endpoint \<Rightarrow> u16 \<Rightarrow> IPv6_Endpoint" where
  "IPv6_Endpoint_setPort e ep p = ep\<lparr>sin6_port := hostToNetwork16 e p\<rparr>"

definition IPv6_Endpoint_make :: "endian \<Rightarrow> IPv6_Address \<Rightarrow> u16 \<Rightarrow> IPv6_Endpoint" where
  "IPv6_Endpoint_make e a p =
     IPv6_Endpoint_setPort e (IPv6_Endpoint_setAddress IPv6_Endpoint_default a) p"

definition IPv6_Endpoint_data :: "endian \<Rightarrow> IPv6_Endpoint \<Rightarrow> u8 list" where
  "IPv6_Endpoint_data e ep =
     bytes_of_word e 2 (sin6_family ep) @ bytes_of_word e 2 (sin6_port ep)
       @ bytes_of_word e 4 (sin6_flowinfo ep) @ sin6_addr ep
       @ bytes_of_word e 4 (sin6_scope_id ep)"

text \<open>The endpoint whose storage holds the given bytes.\<close>

definition IPv6_Endpoint_of_data :: "endian \<Rightarrow> u8 list \<Rightarrow> IPv6_Endpoint" where
  "IPv6_Endpoint_of_data e bs =
     \<lparr>sin6_family = word_of_bytes e (take 2 bs), sin6_port = word_of_bytes e (take 2 (drop 2 bs)),
      sin6_flowinfo = word_of_bytes e (take 4 (drop 4 bs)), sin6_addr = take 16 (drop 8 bs),
      sin6_scope_id = word_of_bytes e (drop 24 bs)\<rparr>"

definition IPv6_Endpoint_size :: u32 where
  "IPv6_Endpoint_size = 28"

definition IPv6_Endpoint_resize :: "u32 \<Rightarrow> exn + unit" where
  "IPv6_Endpoint_resize sz =
     (if sz \<noteq> 28 then throwEx AddressError ''IPv6 resize'' else Inr ())"

definition IPv6_Endpoint_eq :: "endian \<Rightarrow> IPv6_Endpoint \<Rightarrow> IPv6_Endpoint \<Rightarrow> bool" where
  "IPv6_Endpoint_eq e ep1 ep2 \<longleftrightarrow>
     IPv6_Address_eq (IPv6_Endpoint_address ep1) (IPv6_Endpoint_address ep2)
       \<and> IPv6_Endpoint_port e ep1 = IPv6_Endpoint_port e ep2"

definition IPv6_Endpoint_neq :: "endian \<Rightarrow> IPv6_Endpoint \<Rightarrow> IPv6_Endpoint \<Rightarrow> bool" where
  "IPv6_Endpoint_neq e ep1 ep2 \<longleftrightarrow> \<not> IPv6_Endpoint_eq e ep1 ep2"

definition IPv6_Endpoint_ok :: "IPv6_Endpoint \<Rightarrow> bool" where
  "IPv6_Endpoint_ok ep \<longleftrightarrow> length (sin6_addr ep) = 16"

section \<open>Conversions and classification\<close>

definition IPv6_addressFromString ::
  "(int \<Rightarrow> string \<Rightarrow> int \<times> u8 list) \<Rightarrow> string \<Rightarrow> exn + IPv6_Address" where
  "IPv6_addressFromString pton str =
     (case pton AF_INET6 str of (rc, bytes) \<Rightarrow>
        if rc \<le> 0 then throwEx AddressError ''IPv6::Address from string''
        else Inr (IPv6_Address_fromBytes bytes 0))"

definition IPv6_addressFromString_view ::
  "(int \<Rightarrow> string \<Rightarrow> int \<times> u8 list) \<Rightarrow> string \<Rightarrow> exn + IPv6_Address" where
  "IPv6_addressFromString_view pton str = IPv6_addressFromString pton (c_str str)"

definition IPv6_isLoopback :: "IPv6_Address \<Rightarrow> bool" where
  "IPv6_isLoopback a =
     (let bytes = IPv6_Address_toBytes a in
      ((bytes ! 0 = 0) \<and> (bytes ! 1 = 0) \<and> (bytes ! 2 = 0) \<and> (bytes ! 3 = 0)
       \<and> (bytes ! 4 = 0) \<and> (bytes ! 5 = 0) \<and> (bytes ! 6 = 0) \<and> (bytes ! 7 = 0)
       \<and> (bytes ! 8 = 0) \<and> (bytes ! 9 = 0) \<and> (bytes ! 10 = 0) \<and> (bytes ! 11 = 0)
       \<and> (bytes ! 12 = 0) \<and> (bytes ! 13 = 0) \<and> (bytes ! 14 = 0) \<and> (bytes ! 15 = 1)))"

definition IPv6_isMulticast :: "IPv6_Address \<Rightarrow> bool" where
  "IPv6_isMulticast a \<longleftrightarrow> IPv6_Address_toBytes a ! 0 = 0xff"

definition IPv6_toString :: "(int \<Rightarrow> u8 list \<Rightarrow> nat \<Rightarrow> string option) \<Rightarrow> IPv6_Address \<Rightarrow> string" where
  "IPv6_toString ntop a =
     (case ntop AF_INET6 (IPv6_Address_toBytes a) 46 of None \<Rightarrow> '''' | Some s \<Rightarrow> c_str s)"

section \<open>Lemmas\<close>

lemma IPv6_Address_eq_iff [simp]: "IPv6_Address_eq a b \<longleftrightarrow> a = b"
  by (cases a; cases b) (simp add: IPv6_Address_eq_def)

lemma IPv6_loopback_bytes:
  "IPv6_Address_toBytes IPv6_Address_loopback = replicate 15 0 @ [1]"
  by (simp add: IPv6_Address_toBytes_def IPv6_Address_loopback_def IPv6_Address_default_def
      eval_nat_numeral)

lemma isLoopback6_iff:
  assumes "IPv6_Address_ok a"
  shows "IPv6_isLoopback a \<longleftrightarrow> IPv6_Address_toBytes a = replicate 15 0 @ [1]"
proof -
  let ?bs = "IPv6_Address_toBytes a"
  have len: "length ?bs = 16"
    using assms by (simp add: IPv6_Address_ok_def IPv6_Address_toBytes_def)
  have "IPv6_isLoopback a \<longleftrightarrow> (\<forall>i<16. ?bs ! i = (replicate 15 0 @ [1]) ! i)"
    by (simp add: IPv6_isLoopback_def Let_def eval_nat_numeral less_Suc_eq all_conj_distrib)
  then show ?thesis
    using len by (auto simp: list_eq_iff_nth_eq)
qed

lemma isMulticast6_iff:
  assumes "IPv6_Address_ok a"
  shows "IPv6_isMulticast a \<longleftrightarrow> hd (IPv6_Address_toBytes a) = 255"
  using assms
  by (cases "IPv6_Address_toBytes a")
    (auto simp: IPv6_isMulticast_def IPv6_Address_ok_def IPv6_Address_toBytes_def)

text \<open>
  An IPv6 endpoint keeps the bytes of an address and drops its scope: the storage has a
  field for it (\<open>sin6_scope_id\<close>), which no member reads or writes.
\<close>

interpretation ep6: endpoint_interface
  IPv6_Endpoint_default "IPv6_Endpoint_make e" IPv6_Endpoint_address
  IPv6_Endpoint_setAddress "IPv6_Endpoint_port e" "IPv6_Endpoint_setPort e"
  "\<lambda>a. a\<lparr>scopeId := 0\<rparr>" IPv6_Address_ok IPv6_Endpoint_ok "IPv6_Endpoint_eq e"
  "IPv6_Endpoint_data e" "unat IPv6_Endpoint_size" for e
  by unfold_locales
    (auto simp: IPv6_Endpoint_make_def IPv6_Endpoint_address_def IPv6_Endpoint_setAddress_def
      IPv6_Endpoint_port_def IPv6_Endpoint_setPort_def IPv6_Endpoint_default_def
      IPv6_Endpoint_eq_def IPv6_Endpoint_data_def IPv6_Endpoint_size_def IPv6_Endpoint_ok_def
      IPv6_Address_ok_def IPv6_Address_toBytes_def IPv6_Address_fromBytes_def byte_simps)

lemma Endpoint6_data_of_data:
  assumes "length bs = 28"
  shows "IPv6_Endpoint_data e (IPv6_Endpoint_of_data e bs) = bs"
proof -
  have "take 16 (drop 8 bs) @ drop 24 bs = drop 8 bs"
    using append_take_drop_id [of 16 "drop 8 bs"] by simp
  moreover have "take 4 (drop 4 bs) @ drop 8 bs = drop 4 bs"
    using append_take_drop_id [of 4 "drop 4 bs"] by simp
  moreover have "take 2 (drop 2 bs) @ drop 4 bs = drop 2 bs"
    using append_take_drop_id [of 2 "drop 2 bs"] by simp
  ultimately have "take 2 (drop 2 bs) @ take 4 (drop 4 bs) @ take 16 (drop 8 bs) @ drop 24 bs
      = drop 2 bs" by simp
  then show ?thesis
    using assms
    by (simp add: IPv6_Endpoint_data_def IPv6_Endpoint_of_data_def bytes_of_word_of_bytes)
qed

interpretation st6: endpoint_storage
  "IPv6_Endpoint_data e" "IPv6_Endpoint_of_data e" IPv6_Endpoint_resize IPv6_Endpoint_ok 28 for e
proof
  show "IPv6_Endpoint_of_data e (IPv6_Endpoint_data e ep) = ep" if "IPv6_Endpoint_ok ep" for ep
    using that
    by (simp add: IPv6_Endpoint_ok_def IPv6_Endpoint_data_def IPv6_Endpoint_of_data_def
        word_of_bytes_of_word)
  show "length (IPv6_Endpoint_data e ep) = 28" if "IPv6_Endpoint_ok ep" for ep
    using that by (simp add: IPv6_Endpoint_ok_def IPv6_Endpoint_data_def)
qed (simp_all add: Endpoint6_data_of_data IPv6_Endpoint_resize_def throwEx_def word_unat_eq_iff)

section \<open>Properties\<close>

text \<open>
  An IPv6 endpoint built from a well-formed address and a port reads back the port
  and the address with scope id 0, so the address round-trips exactly when its scope id
  is 0; the kernel receives family, port and address in the layout of
  \<open>sockaddr_in6\<close>, in \<open>size()\<close> bytes, with scope id 0 whatever the address had.
\<close>

theorem ipv6_endpoint_drops_scope:
  assumes "IPv6_Address_ok a"
  shows "IPv6_Endpoint_address (IPv6_Endpoint_make e a p) = a\<lparr>scopeId := 0\<rparr>
    \<and> (IPv6_Address_eq (IPv6_Endpoint_address (IPv6_Endpoint_make e a p)) a \<longleftrightarrow>
         IPv6_Address_scopeId a = 0)
    \<and> IPv6_Endpoint_port e (IPv6_Endpoint_make e a p) = p
    \<and> IPv6_Endpoint_data e (IPv6_Endpoint_make e a p) =
        bytes_of_word e 2 (10 :: u16) @ rev (bytes_of_le 2 p) @ bytes_of_word e 4 (0 :: u32)
          @ IPv6_Address_toBytes a @ bytes_of_word e 4 (0 :: u32)
    \<and> length (IPv6_Endpoint_data e (IPv6_Endpoint_make e a p)) = unat IPv6_Endpoint_size"
proof -
  have addr: "IPv6_Endpoint_address (IPv6_Endpoint_make e a p) = a\<lparr>scopeId := 0\<rparr>"
    using assms by (rule ep6.make_address)
  moreover have "a\<lparr>scopeId := 0\<rparr> = a \<longleftrightarrow> IPv6_Address_scopeId a = 0"
    by (cases a) (auto simp: IPv6_Address_scopeId_def)
  moreover have "IPv6_Endpoint_data e (IPv6_Endpoint_make e a p) =
        bytes_of_word e 2 (10 :: u16) @ rev (bytes_of_le 2 p) @ bytes_of_word e 4 (0 :: u32)
          @ IPv6_Address_toBytes a @ bytes_of_word e 4 (0 :: u32)"
    by (simp add: IPv6_Endpoint_data_def IPv6_Endpoint_make_def IPv6_Endpoint_setAddress_def
        IPv6_Endpoint_setPort_def IPv6_Endpoint_default_def AF_INET6_def byte_simps)
  ultimately show ?thesis
    using ep6.make_port [of e a p] ep6.make_raw_length [OF assms, of e p] by simp
qed

lemma ipv6_endpoint_drops_scope_witness:
  "IPv6_Endpoint_address
     (IPv6_Endpoint_make Little (IPv6_Address_setScopeId IPv6_Address_loopback 3) 80)
   = IPv6_Address_loopback"
  using ipv6_endpoint_drops_scope
    [of "IPv6_Address_setScopeId IPv6_Address_loopback 3" Little 80]
  by (simp add: IPv6_Address_ok_def IPv6_Address_setScopeId_def IPv6_Address_loopback_def
      IPv6_Address_default_def)

text \<open>
  On a well-formed IPv6 address, \<open>isLoopback\<close> holds for the bytes of ::1 only,
  whatever the scope, and \<open>isMulticast\<close> exactly for a first byte of 255; \<open>loopback()\<close> is
  the address with those bytes and scope 0, and \<open>any()\<close> is neither.
\<close>

theorem ipv6_classification:
  assumes "IPv6_Address_ok a"
  shows "(IPv6_isLoopback a \<longleftrightarrow>
      IPv6_Address_toBytes a = IPv6_Address_toBytes IPv6_Address_loopback)
    \<and> (IPv6_isMulticast a \<longleftrightarrow> hd (IPv6_Address_toBytes a) = 255)
    \<and> \<not> (IPv6_isLoopback a \<and> IPv6_isMulticast a)
    \<and> \<not> IPv6_isLoopback IPv6_Address_any \<and> \<not> IPv6_isMulticast IPv6_Address_any"
proof (intro conjI)
  have any: "IPv6_Address_ok IPv6_Address_any"
    by (simp add: IPv6_Address_ok_def IPv6_Address_any_def IPv6_Address_default_def)
  show "IPv6_isLoopback a \<longleftrightarrow>
      IPv6_Address_toBytes a = IPv6_Address_toBytes IPv6_Address_loopback"
    using assms by (simp add: isLoopback6_iff IPv6_loopback_bytes)
  show "IPv6_isMulticast a \<longleftrightarrow> hd (IPv6_Address_toBytes a) = 255"
    using assms by (rule isMulticast6_iff)
  show "\<not> (IPv6_isLoopback a \<and> IPv6_isMulticast a)"
    using assms by (auto simp: isLoopback6_iff isMulticast6_iff)
  show "\<not> IPv6_isLoopback IPv6_Address_any"
    unfolding isLoopback6_iff [OF any]
    by (simp add: IPv6_Address_any_def IPv6_Address_default_def IPv6_Address_toBytes_def
        eval_nat_numeral)
  show "\<not> IPv6_isMulticast IPv6_Address_any"
    unfolding isMulticast6_iff [OF any]
    by (simp add: IPv6_Address_any_def IPv6_Address_default_def IPv6_Address_toBytes_def)
qed

lemma ipv6_classification_witness: "IPv6_isLoopback IPv6_Address_loopback"
  using ipv6_classification [of IPv6_Address_loopback]
  by (simp add: IPv6_Address_ok_def IPv6_Address_loopback_def IPv6_Address_default_def)

end
