(* ===== verification/Nb_SocketOptions.thy ===== *)
theory Nb_SocketOptions
  imports Nb_Result Nb_IPv4 Nb_IPv6
begin

text \<open>
  \<open>netbox/details/socket_options.h\<close> and \<open>netbox/socket_options.h\<close>: the socket options, by
  level, name and the bytes of the object they hand to the kernel, and the functions that
  set and get them. The system calls are arguments.
\<close>

section \<open>details/socket_options.h\<close>

subsection \<open>BooleanOption and IntegerOption\<close>

text \<open>The template arguments \<open>Level\<close> and \<open>Name\<close> are fields; an \<open>int\<close> is a 32 bit word.\<close>

record BooleanOption =
  bo_level :: int
  bo_name :: int
  bo_value :: u32

definition BooleanOption_default :: "int \<Rightarrow> int \<Rightarrow> BooleanOption" where
  "BooleanOption_default Level Name = \<lparr>bo_level = Level, bo_name = Name, bo_value = 0\<rparr>"

definition BooleanOption_make :: "int \<Rightarrow> int \<Rightarrow> bool \<Rightarrow> BooleanOption" where
  "BooleanOption_make Level Name v =
     \<lparr>bo_level = Level, bo_name = Name, bo_value = (if v then 1 else 0)\<rparr>"

definition BooleanOption_value :: "BooleanOption \<Rightarrow> bool" where
  "BooleanOption_value x \<longleftrightarrow> bo_value x \<noteq> 0"

definition BooleanOption_level :: "BooleanOption \<Rightarrow> int" where
  "BooleanOption_level x = bo_level x"

definition BooleanOption_name :: "BooleanOption \<Rightarrow> int" where
  "BooleanOption_name x = bo_name x"

definition BooleanOption_data :: "endian \<Rightarrow> BooleanOption \<Rightarrow> u8 list" where
  "BooleanOption_data e x = bytes_of_word e 4 (bo_value x)"

definition BooleanOption_size :: "BooleanOption \<Rightarrow> u64" where
  "BooleanOption_size x = 4"

definition BooleanOption_resize :: "BooleanOption \<Rightarrow> u64 \<Rightarrow> exn + unit" where
  "BooleanOption_resize x n =
     (if n \<noteq> 4 then throwEx SocketOptionError ''Boolean socket option error'' else Inr ())"

text \<open>A write through the pointer of the non-const \<open>data()\<close>.\<close>

definition BooleanOption_write :: "endian \<Rightarrow> BooleanOption \<Rightarrow> u8 list \<Rightarrow> BooleanOption" where
  "BooleanOption_write e x bs = x\<lparr>bo_value := word_of_bytes e bs\<rparr>"

record IntegerOption =
  io_level :: int
  io_name :: int
  io_value :: u32

definition IntegerOption_default :: "int \<Rightarrow> int \<Rightarrow> IntegerOption" where
  "IntegerOption_default Level Name = \<lparr>io_level = Level, io_name = Name, io_value = 0\<rparr>"

definition IntegerOption_make :: "int \<Rightarrow> int \<Rightarrow> u32 \<Rightarrow> IntegerOption" where
  "IntegerOption_make Level Name v = \<lparr>io_level = Level, io_name = Name, io_value = v\<rparr>"

definition IntegerOption_value :: "IntegerOption \<Rightarrow> u32" where
  "IntegerOption_value x = io_value x"

definition IntegerOption_level :: "IntegerOption \<Rightarrow> int" where
  "IntegerOption_level x = io_level x"

definition IntegerOption_name :: "IntegerOption \<Rightarrow> int" where
  "IntegerOption_name x = io_name x"

lemmas option_ids [simp] =
  BooleanOption_level_def BooleanOption_name_def IntegerOption_level_def IntegerOption_name_def

definition IntegerOption_data :: "endian \<Rightarrow> IntegerOption \<Rightarrow> u8 list" where
  "IntegerOption_data e x = bytes_of_word e 4 (io_value x)"

definition IntegerOption_size :: "IntegerOption \<Rightarrow> u64" where
  "IntegerOption_size x = 4"

definition IntegerOption_resize :: "IntegerOption \<Rightarrow> u64 \<Rightarrow> exn + unit" where
  "IntegerOption_resize x n =
     (if n \<noteq> 4 then throwEx SocketOptionError ''Integer socket option error'' else Inr ())"

definition IntegerOption_write :: "endian \<Rightarrow> IntegerOption \<Rightarrow> u8 list \<Rightarrow> IntegerOption" where
  "IntegerOption_write e x bs = x\<lparr>io_value := word_of_bytes e bs\<rparr>"

subsection \<open>Multicast requests\<close>

record ip_mreq =
  imr_multiaddr :: u32
  imr_interface :: u32

record ipv6_mreq =
  ipv6mr_multiaddr :: "u8 list"
  ipv6mr_interface :: u32

record MulticastRequestOption =
  mr_family :: int
  mr_v4 :: ip_mreq
  mr_v6 :: ipv6_mreq

definition MulticastRequestOption_default :: MulticastRequestOption where
  "MulticastRequestOption_default =
     \<lparr>mr_family = AF_INET, mr_v4 = \<lparr>imr_multiaddr = 0, imr_interface = 0\<rparr>,
      mr_v6 = \<lparr>ipv6mr_multiaddr = replicate 16 0, ipv6mr_interface = 0\<rparr>\<rparr>"

definition MulticastRequestOption_v4 ::
  "endian \<Rightarrow> IPv4_Address \<Rightarrow> IPv4_Address \<Rightarrow> MulticastRequestOption" where
  "MulticastRequestOption_v4 e multicastAddress networkInterface =
     MulticastRequestOption_default\<lparr>mr_family := AF_INET,
       mr_v4 := \<lparr>imr_multiaddr = hostToNetwork32 e (IPv4_Address_toUint e multicastAddress),
                 imr_interface = hostToNetwork32 e (IPv4_Address_toUint e networkInterface)\<rparr>\<rparr>"

definition MulticastRequestOption_v6 :: "IPv6_Address \<Rightarrow> u64 \<Rightarrow> MulticastRequestOption" where
  "MulticastRequestOption_v6 multicastAddress networkInterface =
     MulticastRequestOption_default\<lparr>mr_family := AF_INET6,
       mr_v6 := \<lparr>ipv6mr_multiaddr = IPv6_Address_toBytes multicastAddress,
                 ipv6mr_interface =
                   (if networkInterface \<noteq> 0 then ucast networkInterface
                    else ucast (IPv6_Address_scopeId multicastAddress))\<rparr>\<rparr>"

definition MulticastRequestOption_level :: "int \<Rightarrow> int \<Rightarrow> MulticastRequestOption \<Rightarrow> int" where
  "MulticastRequestOption_level IPv4Level IPv6Level x =
     (if mr_family x = AF_INET6 then IPv6Level else IPv4Level)"

definition MulticastRequestOption_name :: "int \<Rightarrow> int \<Rightarrow> MulticastRequestOption \<Rightarrow> int" where
  "MulticastRequestOption_name IPv4Name IPv6Name x =
     (if mr_family x = AF_INET6 then IPv6Name else IPv4Name)"

definition MulticastRequestOption_data :: "endian \<Rightarrow> MulticastRequestOption \<Rightarrow> u8 list" where
  "MulticastRequestOption_data e x =
     (if mr_family x = AF_INET6
      then ipv6mr_multiaddr (mr_v6 x) @ bytes_of_word e 4 (ipv6mr_interface (mr_v6 x))
      else bytes_of_word e 4 (imr_multiaddr (mr_v4 x)) @ bytes_of_word e 4 (imr_interface (mr_v4 x)))"

definition MulticastRequestOption_size :: "MulticastRequestOption \<Rightarrow> u64" where
  "MulticastRequestOption_size x = (if mr_family x = AF_INET6 then 20 else 8)"

record ip_mreq_source =
  ims_multiaddr :: u32
  ims_interface :: u32
  ims_sourceaddr :: u32

definition MulticastSourceRequestOption_make ::
  "endian \<Rightarrow> IPv4_Address \<Rightarrow> IPv4_Address \<Rightarrow> IPv4_Address \<Rightarrow> ip_mreq_source" where
  "MulticastSourceRequestOption_make e multicastAddress multicastSourceAddress networkInterface =
     \<lparr>ims_multiaddr = hostToNetwork32 e (IPv4_Address_toUint e multicastAddress),
      ims_interface = hostToNetwork32 e (IPv4_Address_toUint e networkInterface),
      ims_sourceaddr = hostToNetwork32 e (IPv4_Address_toUint e multicastSourceAddress)\<rparr>"

definition MulticastSourceRequestOption_default :: ip_mreq_source where
  "MulticastSourceRequestOption_default =
     \<lparr>ims_multiaddr = 0, ims_interface = 0, ims_sourceaddr = 0\<rparr>"

text \<open>The template arguments, a level and a name, are a pair.\<close>

definition MulticastSourceRequestOption_level :: "int \<times> int \<Rightarrow> ip_mreq_source \<Rightarrow> int" where
  "MulticastSourceRequestOption_level LevelName x = fst LevelName"

definition MulticastSourceRequestOption_name :: "int \<times> int \<Rightarrow> ip_mreq_source \<Rightarrow> int" where
  "MulticastSourceRequestOption_name LevelName x = snd LevelName"

definition MulticastSourceRequestOption_data :: "endian \<Rightarrow> ip_mreq_source \<Rightarrow> u8 list" where
  "MulticastSourceRequestOption_data e x =
     bytes_of_word e 4 (ims_multiaddr x) @ bytes_of_word e 4 (ims_interface x)
     @ bytes_of_word e 4 (ims_sourceaddr x)"

definition MulticastSourceRequestOption_size :: "ip_mreq_source \<Rightarrow> u64" where
  "MulticastSourceRequestOption_size x = 12"

text \<open>
  \<open>StructOption\<close>: the object is its bytes. If \<open>Struct\<close> is a reference, as for the ring, they
  are the bytes of the struct that was passed, at the time of the call that uses them.
\<close>

definition StructOption_make :: "u8 list \<Rightarrow> u8 list" where
  "StructOption_make v = v"

text \<open>\<open>Struct value_{}\<close>: all the bytes are zero.\<close>

definition StructOption_default :: "nat \<Rightarrow> u8 list" where
  "StructOption_default struct_size = replicate struct_size 0"

definition StructOption_level :: "int \<times> int \<Rightarrow> u8 list \<Rightarrow> int" where
  "StructOption_level LevelName x = fst LevelName"

definition StructOption_name :: "int \<times> int \<Rightarrow> u8 list \<Rightarrow> int" where
  "StructOption_name LevelName x = snd LevelName"

lemmas struct_option_ids [simp] = StructOption_level_def StructOption_name_def
  MulticastSourceRequestOption_level_def MulticastSourceRequestOption_name_def

definition StructOption_data :: "u8 list \<Rightarrow> u8 list" where
  "StructOption_data x = x"

definition StructOption_size :: "u8 list \<Rightarrow> u64" where
  "StructOption_size x = of_nat (length x)"

section \<open>socket_options.h\<close>

subsection \<open>The options\<close>

definition SOL_SOCKET :: int where "SOL_SOCKET = 1"
definition SO_REUSEADDR :: int where "SO_REUSEADDR = 2"
definition SO_SNDBUF :: int where "SO_SNDBUF = 7"
definition SO_RCVBUF :: int where "SO_RCVBUF = 8"
definition SO_TIMESTAMP :: int where "SO_TIMESTAMP = 29"
definition SO_TIMESTAMPNS :: int where "SO_TIMESTAMPNS = 35"
definition SOL_PACKET :: int where "SOL_PACKET = 263"
definition PACKET_VERSION :: int where "PACKET_VERSION = 10"
definition PACKET_TIMESTAMP :: int where "PACKET_TIMESTAMP = 17"
definition IPPROTO_IP :: int where "IPPROTO_IP = 0"
definition IPPROTO_TCP :: int where "IPPROTO_TCP = 6"
definition IPPROTO_IPV6 :: int where "IPPROTO_IPV6 = 41"
definition TCP_NODELAY :: int where "TCP_NODELAY = 1"
definition IP_ADD_MEMBERSHIP :: int where "IP_ADD_MEMBERSHIP = 35"
definition IP_DROP_MEMBERSHIP :: int where "IP_DROP_MEMBERSHIP = 36"
definition IPV6_JOIN_GROUP :: int where "IPV6_JOIN_GROUP = 20"
definition IPV6_LEAVE_GROUP :: int where "IPV6_LEAVE_GROUP = 21"
definition IP_ADD_SOURCE_MEMBERSHIP :: int where "IP_ADD_SOURCE_MEMBERSHIP = 39"
definition IP_DROP_SOURCE_MEMBERSHIP :: int where "IP_DROP_SOURCE_MEMBERSHIP = 40"

definition Options_ReuseAddr :: "bool \<Rightarrow> BooleanOption" where
  "Options_ReuseAddr = BooleanOption_make SOL_SOCKET SO_REUSEADDR"
definition Options_Timestamp :: "bool \<Rightarrow> BooleanOption" where
  "Options_Timestamp = BooleanOption_make SOL_SOCKET SO_TIMESTAMP"
definition Options_TimestampNS :: "bool \<Rightarrow> BooleanOption" where
  "Options_TimestampNS = BooleanOption_make SOL_SOCKET SO_TIMESTAMPNS"
definition Options_NoDelay :: "bool \<Rightarrow> BooleanOption" where
  "Options_NoDelay = BooleanOption_make IPPROTO_TCP TCP_NODELAY"
definition Options_RcvBuf :: "u32 \<Rightarrow> IntegerOption" where
  "Options_RcvBuf = IntegerOption_make SOL_SOCKET SO_RCVBUF"
definition Options_SndBuf :: "u32 \<Rightarrow> IntegerOption" where
  "Options_SndBuf = IntegerOption_make SOL_SOCKET SO_SNDBUF"
definition Options_PacketTimestamp :: "u32 \<Rightarrow> IntegerOption" where
  "Options_PacketTimestamp = IntegerOption_make SOL_PACKET PACKET_TIMESTAMP"
definition Options_PacketVersion :: "u32 \<Rightarrow> IntegerOption" where
  "Options_PacketVersion = IntegerOption_make SOL_PACKET PACKET_VERSION"

text \<open>Level and name of the multicast options, by the family of the request.\<close>

definition JoinGroup :: "MulticastRequestOption \<Rightarrow> int \<times> int" where
  "JoinGroup x = (MulticastRequestOption_level IPPROTO_IP IPPROTO_IPV6 x,
     MulticastRequestOption_name IP_ADD_MEMBERSHIP IPV6_JOIN_GROUP x)"

definition LeaveGroup :: "MulticastRequestOption \<Rightarrow> int \<times> int" where
  "LeaveGroup x = (MulticastRequestOption_level IPPROTO_IP IPPROTO_IPV6 x,
     MulticastRequestOption_name IP_DROP_MEMBERSHIP IPV6_LEAVE_GROUP x)"

text \<open>
  The template arguments of the other options. The source requests exist for IPv4 only. The ring request is a struct option, whose object
  is a \<open>tpacket_req\<close> of four 32 bit fields.
\<close>

definition JoinGroupSource :: "int \<times> int" where
  "JoinGroupSource = (IPPROTO_IP, IP_ADD_SOURCE_MEMBERSHIP)"

definition LeaveGroupSource :: "int \<times> int" where
  "LeaveGroupSource = (IPPROTO_IP, IP_DROP_SOURCE_MEMBERSHIP)"

definition PACKET_RX_RING :: int where "PACKET_RX_RING = 5"

definition Options_RxRing :: "int \<times> int" where
  "Options_RxRing = (SOL_PACKET, PACKET_RX_RING)"

subsection \<open>setOption and getOption\<close>

text \<open>
  Both are \<open>noexcept\<close>: an exception inside them ends the program. An option is given by its
  level, name, \<open>data()\<close> and \<open>size()\<close>; \<open>socklen_t\<close> has 32 bits.
\<close>

datatype 'a noexcept = Returned 'a | Terminated

definition setOption ::
  "(int \<Rightarrow> int \<Rightarrow> int \<Rightarrow> u8 list \<Rightarrow> u32 \<Rightarrow> 'k \<Rightarrow> int \<times> int \<times> 'k) \<Rightarrow> Socket
     \<Rightarrow> int \<Rightarrow> int \<Rightarrow> u8 list \<Rightarrow> u64 \<Rightarrow> 'k \<Rightarrow> OpResult \<times> 'k" where
  "setOption sys_setsockopt socket level name data n k =
     (let (r, errno, k) = sys_setsockopt (Socket_native socket) level name data (ucast n) k
      in (OpResult_make errno r, k))"

text \<open>\<open>getsockopt\<close> answers with the bytes it has written and the length.\<close>

definition getOption ::
  "(int \<Rightarrow> int \<Rightarrow> int \<Rightarrow> u8 list \<Rightarrow> u32 \<Rightarrow> 'k \<Rightarrow> int \<times> u8 list \<times> u32 \<times> int \<times> 'k) \<Rightarrow> Socket
     \<Rightarrow> int \<Rightarrow> int \<Rightarrow> u8 list \<Rightarrow> u64 \<Rightarrow> ('o \<Rightarrow> u8 list \<Rightarrow> 'o) \<Rightarrow> ('o \<Rightarrow> u64 \<Rightarrow> exn + unit) \<Rightarrow> 'o \<Rightarrow> 'k
     \<Rightarrow> (OpResult \<times> 'o \<times> 'k) noexcept" where
  "getOption sys_getsockopt socket level name data n put resize option k =
     (let sz = ucast n;
          (r, bytes, sz, errno, k) = sys_getsockopt (Socket_native socket) level name data sz k;
          option = put option bytes;
          result = OpResult_make errno r
      in if OpResult_bool result then
           (case resize option (ucast sz) of
              Inl exc \<Rightarrow> Terminated
            | Inr u \<Rightarrow> Returned (result, option, k))
         else Returned (result, option, k))"

section \<open>The interfaces of options\<close>

text \<open>
  What \<open>setOption\<close> relies on: the size an option gives is the number of bytes of its data,
  and it fits a \<open>socklen_t\<close>. What \<open>getOption\<close> relies on: the data can be written and read
  back, and \<open>resize\<close> accepts just this size.
\<close>

locale settable_option =
  fixes ok :: "'o \<Rightarrow> bool"
    and data :: "'o \<Rightarrow> u8 list"
    and data_size :: "'o \<Rightarrow> u64"
  assumes length_data: "ok x \<Longrightarrow> length (data x) = unat (data_size x)"
    and small: "ok x \<Longrightarrow> unat (data_size x) < 2 ^ 32"
begin

lemma passed_length: "ok x \<Longrightarrow> unat (ucast (data_size x) :: u32) = length (data x)"
  using length_data [of x] small [of x] by (simp add: unsigned_ucast_eq take_bit_nat_eq_self)

lemma setOption_passes_all:
  assumes "ok x" and "\<And>n. unat n = length (data x) \<Longrightarrow> sys (sock s) level name (data x) n k = (r, errno, k')"
  shows "setOption sys s level name (data x) (data_size x) k = (OpResult_make errno r, k')"
  using assms passed_length [OF assms(1)] by (simp add: setOption_def Socket_native_def)

end

locale gettable_option = settable_option +
  fixes put :: "'a \<Rightarrow> u8 list \<Rightarrow> 'a"
    and resize :: "'a \<Rightarrow> u64 \<Rightarrow> exn + unit"
  assumes data_write: "ok x \<Longrightarrow> length bs = length (data x) \<Longrightarrow> ok (put x bs) \<and> data (put x bs) = bs"
    and resize_ok: "resize x n = Inr () \<longleftrightarrow> n = data_size x"
    and size_write: "data_size (put x bs) = data_size x"
begin

lemma getOption_reads:
  assumes "ok x" and "length bs = length (data x)"
    and "sys (sock s) level name (data x) (ucast (data_size x)) k = (0, bs, ucast (data_size x), errno, k')"
  shows "getOption sys s level name (data x) (data_size x) put resize x k
    = Returned (OpResult_make errno 0, put x bs, k')"
proof -
  have "(ucast (ucast (data_size x) :: u32) :: u64) = data_size x"
    using small [OF assms(1)]
    by (simp add: word_unat_eq_iff unsigned_ucast_eq unsigned_take_bit_eq take_bit_nat_eq_self)
  then have "resize (put x bs) (ucast (ucast (data_size x) :: u32)) = Inr ()"
    by (simp add: resize_ok size_write)
  with assms(3) show ?thesis
    by (simp add: getOption_def Socket_native_def OpResult_bool_def OpResult_make_def)
qed

lemma getOption_terminates_program:
  assumes "sys (sock s) level name (data x) (ucast (data_size x)) k = (0, bs, n, errno, k')"
    and "ucast n \<noteq> data_size x"
  shows "getOption sys s level name (data x) (data_size x) put resize x k = Terminated"
  using assms resize_ok [of "put x bs" "ucast n"] size_write [of x bs]
  by (auto simp: getOption_def Socket_native_def OpResult_bool_def OpResult_make_def Let_def
      split: sum.split)

end

definition MulticastRequestOption_ok :: "MulticastRequestOption \<Rightarrow> bool" where
  "MulticastRequestOption_ok x \<longleftrightarrow> length (ipv6mr_multiaddr (mr_v6 x)) = 16"

interpretation boolean_option: gettable_option
  "\<lambda>x. True" "BooleanOption_data e" BooleanOption_size "BooleanOption_write e" BooleanOption_resize
  for e
  by unfold_locales
    (auto simp: BooleanOption_data_def BooleanOption_size_def BooleanOption_write_def
      BooleanOption_resize_def bytes_of_word_of_bytes split: if_splits)

interpretation integer_option: gettable_option
  "\<lambda>x. True" "IntegerOption_data e" IntegerOption_size "IntegerOption_write e" IntegerOption_resize
  for e
  by unfold_locales
    (auto simp: IntegerOption_data_def IntegerOption_size_def IntegerOption_write_def
      IntegerOption_resize_def bytes_of_word_of_bytes split: if_splits)

interpretation multicast_option: settable_option
  MulticastRequestOption_ok "MulticastRequestOption_data e" MulticastRequestOption_size for e
  by unfold_locales
    (auto simp: MulticastRequestOption_data_def MulticastRequestOption_size_def
      MulticastRequestOption_ok_def)

interpretation source_option: settable_option
  "\<lambda>x. True" "MulticastSourceRequestOption_data e" MulticastSourceRequestOption_size for e
  by unfold_locales
    (auto simp: MulticastSourceRequestOption_data_def MulticastSourceRequestOption_size_def)

interpretation struct_option: settable_option
  "\<lambda>x. length x < 2 ^ 32" StructOption_data StructOption_size
  by unfold_locales
    (simp_all add: StructOption_data_def StructOption_size_def unat_of_nat)

section \<open>Properties\<close>

text \<open>
  A request to join or leave a multicast group reaches the kernel in the layout it
  expects, on a host of either byte order: for IPv4 the bytes of the group and of the
  interface address at level \<open>IPPROTO_IP\<close>, for IPv6 the bytes of the group and the
  interface index, the scope of the address where none is given, at level
  \<open>IPPROTO_IPV6\<close>; the source-specific request has the interface before the source.
\<close>

theorem multicast_request_layout:
  assumes "length (s6_addr g6) = 16"
  shows "MulticastRequestOption_data e (MulticastRequestOption_v4 e g i)
      = IPv4_Address_toBytes e g @ IPv4_Address_toBytes e i
    \<and> JoinGroup (MulticastRequestOption_v4 e g i) = (IPPROTO_IP, IP_ADD_MEMBERSHIP)
    \<and> LeaveGroup (MulticastRequestOption_v4 e g i) = (IPPROTO_IP, IP_DROP_MEMBERSHIP)
    \<and> take 16 (MulticastRequestOption_data e (MulticastRequestOption_v6 g6 j)) = IPv6_Address_toBytes g6
    \<and> drop 16 (MulticastRequestOption_data e (MulticastRequestOption_v6 g6 j))
        = bytes_of_word e 4 (ucast (if j = 0 then scopeId g6 else j) :: u32)
    \<and> JoinGroup (MulticastRequestOption_v6 g6 j) = (IPPROTO_IPV6, IPV6_JOIN_GROUP)
    \<and> LeaveGroup (MulticastRequestOption_v6 g6 j) = (IPPROTO_IPV6, IPV6_LEAVE_GROUP)
    \<and> MulticastSourceRequestOption_data e (MulticastSourceRequestOption_make e g src i)
        = IPv4_Address_toBytes e g @ IPv4_Address_toBytes e i @ IPv4_Address_toBytes e src"
proof -
  have a: "hostToNetwork32 e (IPv4_Address_toUint e x) = s_addr x" for x
    by (simp add: IPv4_Address_toUint_def ntoh_hton_32)
  show ?thesis
    using assms
    by (simp add: MulticastRequestOption_data_def MulticastRequestOption_v4_def
        MulticastRequestOption_v6_def MulticastRequestOption_default_def JoinGroup_def LeaveGroup_def
        MulticastRequestOption_level_def MulticastRequestOption_name_def AF_INET_def AF_INET6_def
        IPv4_Address_toBytes_def IPv6_Address_toBytes_def IPv6_Address_scopeId_def
        MulticastSourceRequestOption_data_def MulticastSourceRequestOption_make_def a)
qed

theorem multicast_request_layout_witness:
  "drop 16 (MulticastRequestOption_data Little
     (MulticastRequestOption_v6 (IPv6_Address_fromBytes (replicate 16 255) 3) 0)) = [3, 0, 0, 0]"
  using multicast_request_layout [of "IPv6_Address_fromBytes (replicate 16 255) 3" Little _ _ 0]
  by (simp add: IPv6_Address_fromBytes_def bytes_of_word_def bytes_of_le_4)

text \<open>
  \<open>getOption\<close> of a boolean or an integer option: if the kernel answers with the four
  bytes of an \<open>int\<close>, the option then has the value the kernel stored; an answer of any
  other length makes \<open>resize\<close> throw inside the \<open>noexcept\<close> function, which ends the program.
\<close>

theorem getOption_value:
  assumes "sys (sock s) (BooleanOption_level b) (BooleanOption_name b) (BooleanOption_data e b) 4 k
      = (0, bytes_of_word e 4 (v :: u32), n, errno, k')"
    and "sys (sock s) (IntegerOption_level i) (IntegerOption_name i) (IntegerOption_data e i) 4 k
      = (0, bytes_of_word e 4 v, n, errno, k')"
  shows "getOption sys s (BooleanOption_level b) (BooleanOption_name b) (BooleanOption_data e b) (BooleanOption_size b)
        (BooleanOption_write e) BooleanOption_resize b k
      = (if n = 4 then Returned (OpResult_make errno 0, b\<lparr>bo_value := v\<rparr>, k') else Terminated)
    \<and> (BooleanOption_value (b\<lparr>bo_value := v\<rparr>) \<longleftrightarrow> v \<noteq> 0)
    \<and> getOption sys s (IntegerOption_level i) (IntegerOption_name i) (IntegerOption_data e i) (IntegerOption_size i)
        (IntegerOption_write e) IntegerOption_resize i k
      = (if n = 4 then Returned (OpResult_make errno 0, i\<lparr>io_value := v\<rparr>, k') else Terminated)"
proof (cases "n = 4")
  case True
  have "BooleanOption_write e b (bytes_of_word e 4 v) = b\<lparr>bo_value := v\<rparr>"
    "IntegerOption_write e i (bytes_of_word e 4 v) = i\<lparr>io_value := v\<rparr>"
    by (simp_all add: BooleanOption_write_def IntegerOption_write_def word_of_bytes_of_word)
  with True assms boolean_option.getOption_reads [of "bytes_of_word e 4 v" e b sys s]
    integer_option.getOption_reads [of "bytes_of_word e 4 v" e i sys s]
  show ?thesis
    by (simp add: BooleanOption_data_def BooleanOption_size_def IntegerOption_data_def
        IntegerOption_size_def BooleanOption_value_def)
next
  case False
  then have "(ucast n :: u64) \<noteq> 4"
    using u32_less [of n]
    by (simp add: word_unat_eq_iff unsigned_ucast_eq take_bit_nat_eq_self)
  with False assms boolean_option.getOption_terminates_program [of sys s _ _ e b]
    integer_option.getOption_terminates_program [of sys s _ _ e i]
  show ?thesis
    by (simp add: BooleanOption_size_def IntegerOption_size_def BooleanOption_value_def)
qed

theorem getOption_value_witness:
  "getOption (\<lambda>fd level name data n k. (0, [1, 0, 0, 0], 4, 0, k)) (Socket_make 3) SOL_SOCKET
     SO_REUSEADDR (BooleanOption_data Little (Options_ReuseAddr False)) 4 (BooleanOption_write Little)
     BooleanOption_resize (Options_ReuseAddr False) ()
   = Returned (OpResult_make 0 0, (Options_ReuseAddr False)\<lparr>bo_value := 1\<rparr>, ())"
proof -
  let ?sys = "\<lambda>fd level name data n k. (0, [1, 0, 0, 0 :: u8], 4, 0, k)"
  have b: "[1, 0, 0, 0] = bytes_of_word Little 4 (1 :: u32)"
    by (simp add: bytes_of_word_def bytes_of_le_4)
  have sys: "?sys fd level name data 4 () = (0, bytes_of_word Little 4 (1 :: u32), 4, 0, ())"
    for fd level name :: int and data :: "u8 list"
    unfolding b ..
  have "BooleanOption_size (Options_ReuseAddr False) = 4" "BooleanOption_level (Options_ReuseAddr False) = SOL_SOCKET"
    "BooleanOption_name (Options_ReuseAddr False) = SO_REUSEADDR"
    by (simp_all add: Options_ReuseAddr_def BooleanOption_make_def BooleanOption_size_def)
  with getOption_value [of ?sys "Socket_make 3" "Options_ReuseAddr False", OF sys sys,
      of "Options_RcvBuf 0"]
  show ?thesis by simp
qed

end
