(* ===== verification/Nb_Buffer.thy ===== *)
theory Nb_Buffer
  imports Nb_Memory Nb_Error
begin

text \<open>
  \<open>netbox/buffer.h\<close>, \<open>netbox/StaticBuffer.h\<close> and \<open>netbox/ConsumingBuffer.h\<close>: views of
  memory, and the two buffers a client consumes bytes from. The sizes are \<open>std::size_t\<close>,
  64 bit words; the operations that move bytes take and return the memory.
\<close>

section \<open>buffer.h\<close>

record MutableBuffer =
  mb_data :: pointer
  mb_size :: u64

record ConstBuffer =
  cb_data :: pointer
  cb_size :: u64

definition MutableBuffer_default :: MutableBuffer where
  "MutableBuffer_default = \<lparr>mb_data = nullptr, mb_size = 0\<rparr>"

definition MutableBuffer_make :: "pointer \<Rightarrow> u64 \<Rightarrow> MutableBuffer" where
  "MutableBuffer_make p n = \<lparr>mb_data = p, mb_size = n\<rparr>"

definition ConstBuffer_default :: ConstBuffer where
  "ConstBuffer_default = \<lparr>cb_data = nullptr, cb_size = 0\<rparr>"

definition ConstBuffer_make :: "pointer \<Rightarrow> u64 \<Rightarrow> ConstBuffer" where
  "ConstBuffer_make p n = \<lparr>cb_data = p, cb_size = n\<rparr>"

text \<open>The helpers are the friends that read the private fields.\<close>

definition bufferCastHelper :: "ConstBuffer \<Rightarrow> pointer" where
  "bufferCastHelper v = cb_data v"

definition bufferCastHelper_mutable :: "MutableBuffer \<Rightarrow> pointer" where
  "bufferCastHelper_mutable v = mb_data v"

definition bufferSizeHelper :: "ConstBuffer \<Rightarrow> u64" where
  "bufferSizeHelper v = cb_size v"

definition bufferSizeHelper_mutable :: "MutableBuffer \<Rightarrow> u64" where
  "bufferSizeHelper_mutable v = mb_size v"

lemmas buffer_helpers [simp] =
  bufferCastHelper_def bufferCastHelper_mutable_def bufferSizeHelper_def bufferSizeHelper_mutable_def

definition bufferCast :: "ConstBuffer \<Rightarrow> pointer" where
  "bufferCast v = bufferCastHelper v"

definition bufferCast_mutable :: "MutableBuffer \<Rightarrow> pointer" where
  "bufferCast_mutable v = bufferCastHelper_mutable v"

definition bufferSize :: "ConstBuffer \<Rightarrow> u64" where
  "bufferSize v = bufferSizeHelper v"

definition bufferSize_mutable :: "MutableBuffer \<Rightarrow> u64" where
  "bufferSize_mutable v = bufferSizeHelper_mutable v"

section \<open>StaticBuffer\<close>

record StaticBuffer =
  sb_data :: pointer
  sb_capacity :: u64
  sb_size :: u64

definition StaticBuffer_make :: "pointer \<Rightarrow> u64 \<Rightarrow> StaticBuffer" where
  "StaticBuffer_make p n = \<lparr>sb_data = p, sb_capacity = n, sb_size = 0\<rparr>"

definition StaticBuffer_default :: StaticBuffer where
  "StaticBuffer_default = \<lparr>sb_data = nullptr, sb_capacity = 0, sb_size = 0\<rparr>"

definition StaticBuffer_reset :: "StaticBuffer \<Rightarrow> pointer \<Rightarrow> u64 \<Rightarrow> StaticBuffer" where
  "StaticBuffer_reset s p n = s\<lparr>sb_data := p, sb_capacity := n, sb_size := 0\<rparr>"

definition StaticBuffer_capacity :: "StaticBuffer \<Rightarrow> u64" where
  "StaticBuffer_capacity s = sb_capacity s"

definition StaticBuffer_size :: "StaticBuffer \<Rightarrow> u64" where
  "StaticBuffer_size s = sb_size s"

definition StaticBuffer_data :: "StaticBuffer \<Rightarrow> ConstBuffer" where
  "StaticBuffer_data s = ConstBuffer_make (sb_data s) (sb_size s)"

definition StaticBuffer_data_mutable :: "StaticBuffer \<Rightarrow> MutableBuffer" where
  "StaticBuffer_data_mutable s = MutableBuffer_make (sb_data s) (sb_size s)"

definition StaticBuffer_prepare :: "StaticBuffer \<Rightarrow> MutableBuffer" where
  "StaticBuffer_prepare s =
     MutableBuffer_make (ptr_add (sb_data s) (unat (sb_size s))) (sb_capacity s - sb_size s)"

definition StaticBuffer_prepare_size :: "StaticBuffer \<Rightarrow> u64 \<Rightarrow> exn + MutableBuffer" where
  "StaticBuffer_prepare_size s n =
     (if sb_capacity s - sb_size s < n then Inl (length_error ''Not enought size for output sequence'')
      else Inr (MutableBuffer_make (ptr_add (sb_data s) (unat (sb_size s))) n))"

definition StaticBuffer_commit :: "StaticBuffer \<Rightarrow> u64 \<Rightarrow> StaticBuffer" where
  "StaticBuffer_commit s n = s\<lparr>sb_size := sb_size s + n\<rparr>"

definition StaticBuffer_consume ::
  "memory \<Rightarrow> StaticBuffer \<Rightarrow> u64 \<Rightarrow> (memory \<times> StaticBuffer) option" where
  "StaticBuffer_consume m s n =
     (if sb_size s = n then Some (m, s\<lparr>sb_size := 0\<rparr>)
      else
        let count = sb_size s - n in
        do { m \<leftarrow> memmove m (sb_data s) (ptr_add (sb_data s) (unat n)) (unat count);
             Some (m, s\<lparr>sb_size := count\<rparr>) })"

section \<open>ConsumingBuffer\<close>

record ConsumingBuffer =
  cs_data :: pointer
  cs_size :: u64

definition ConsumingBuffer_default :: ConsumingBuffer where
  "ConsumingBuffer_default = \<lparr>cs_data = nullptr, cs_size = 0\<rparr>"

definition ConsumingBuffer_make :: "pointer \<Rightarrow> u64 \<Rightarrow> ConsumingBuffer" where
  "ConsumingBuffer_make p n = \<lparr>cs_data = p, cs_size = n\<rparr>"

definition ConsumingBuffer_fromConst :: "ConstBuffer \<Rightarrow> ConsumingBuffer" where
  "ConsumingBuffer_fromConst buf = ConsumingBuffer_make (bufferCast buf) (bufferSize buf)"

definition ConsumingBuffer_fromMutable :: "MutableBuffer \<Rightarrow> ConsumingBuffer" where
  "ConsumingBuffer_fromMutable buf =
     ConsumingBuffer_make (bufferCast_mutable buf) (bufferSize_mutable buf)"

definition ConsumingBuffer_size :: "ConsumingBuffer \<Rightarrow> u64" where
  "ConsumingBuffer_size s = cs_size s"

definition ConsumingBuffer_data :: "ConsumingBuffer \<Rightarrow> ConstBuffer" where
  "ConsumingBuffer_data s = ConstBuffer_make (cs_data s) (cs_size s)"

definition ConsumingBuffer_consume :: "ConsumingBuffer \<Rightarrow> u64 \<Rightarrow> ConsumingBuffer" where
  "ConsumingBuffer_consume s n =
     s\<lparr>cs_data := ptr_add (cs_data s) (unat n), cs_size := cs_size s - n\<rparr>"

section \<open>The interface of a consumable buffer\<close>

text \<open>
  What a client that empties a buffer piece by piece relies on, and the piecewise client:
  it looks at the bytes there, takes the first of them and consumes as many.
\<close>

primrec take_pieces ::
  "('s \<Rightarrow> u8 list) \<Rightarrow> ('s \<Rightarrow> u64 \<Rightarrow> 's option) \<Rightarrow> 's \<Rightarrow> u64 list \<Rightarrow> (u8 list list \<times> 's) option" where
  "take_pieces content consume s [] = Some ([], s)"
| "take_pieces content consume s (n # ns) =
     do { s' \<leftarrow> consume s n;
          x \<leftarrow> take_pieces content consume s' ns;
          Some (take (unat n) (content s) # fst x, snd x) }"

primrec split_pieces :: "u8 list \<Rightarrow> nat list \<Rightarrow> u8 list list" where
  "split_pieces q [] = []"
| "split_pieces q (k # ks) = take k q # split_pieces (drop k q) ks"

lemma concat_split_pieces: "concat (split_pieces q ks) = take (sum_list ks) q"
  by (induction ks arbitrary: q) (simp_all add: take_add)

locale consumable_buffer =
  fixes inv :: "'s \<Rightarrow> bool"
    and content :: "'s \<Rightarrow> u8 list"
    and content_size :: "'s \<Rightarrow> u64"
    and consume :: "'s \<Rightarrow> u64 \<Rightarrow> 's option"
  assumes size_content: "inv s \<Longrightarrow> unat (content_size s) = length (content s)"
    and consume_drop: "inv s \<Longrightarrow> n \<le> content_size s \<Longrightarrow>
        \<exists>s'. consume s n = Some s' \<and> inv s' \<and> content s' = drop (unat n) (content s)"
begin

lemma consume_size:
  "inv s \<Longrightarrow> n \<le> content_size s \<Longrightarrow> consume s n = Some s' \<Longrightarrow>
     unat (content_size s') = unat (content_size s) - unat n"
  using consume_drop [of s n] by (auto simp: size_content)

lemma pieces:
  assumes "inv s" and "(\<Sum>n\<leftarrow>ns. unat n) \<le> length (content s)"
  shows "\<exists>s'. take_pieces content consume s ns = Some (split_pieces (content s) (map unat ns), s')
    \<and> inv s' \<and> content s' = drop (\<Sum>n\<leftarrow>ns. unat n) (content s)"
  using assms
proof (induction ns arbitrary: s)
  case (Cons n ns)
  from Cons.prems have "n \<le> content_size s" by (simp add: word_le_nat_alt size_content)
  with Cons.prems(1) obtain s' where s': "consume s n = Some s'" "inv s'"
    "content s' = drop (unat n) (content s)"
    using consume_drop by metis
  with Cons.prems(2) have "(\<Sum>n\<leftarrow>ns. unat n) \<le> length (content s')" by simp
  from Cons.IH [OF s'(2) this] s' show ?case by (auto simp: add.commute)
qed simp

end

section \<open>Both buffers provide it\<close>

definition StaticBuffer_ok :: "memory \<Rightarrow> StaticBuffer \<Rightarrow> bool" where
  "StaticBuffer_ok m s \<longleftrightarrow> sb_size s \<le> sb_capacity s \<and> readable m (sb_data s) (unat (sb_capacity s))"

definition StaticBuffer_content :: "memory \<Rightarrow> StaticBuffer \<Rightarrow> u8 list" where
  "StaticBuffer_content m s = the (load_bytes m (sb_data s) (unat (sb_size s)))"

definition ConsumingBuffer_ok :: "memory \<Rightarrow> ConsumingBuffer \<Rightarrow> bool" where
  "ConsumingBuffer_ok m s \<longleftrightarrow> readable m (cs_data s) (unat (cs_size s))"

definition ConsumingBuffer_content :: "memory \<Rightarrow> ConsumingBuffer \<Rightarrow> u8 list" where
  "ConsumingBuffer_content m s = the (load_bytes m (cs_data s) (unat (cs_size s)))"

lemma StaticBuffer_load:
  assumes "StaticBuffer_ok m s"
  shows "load_bytes m (sb_data s) (unat (sb_size s)) = Some (StaticBuffer_content m s)"
    and "length (StaticBuffer_content m s) = unat (sb_size s)"
proof -
  have "readable m (sb_data s) (unat (sb_size s))"
    using assms readable_sub [of m "sb_data s" "unat (sb_capacity s)" 0 "unat (sb_size s)"]
    by (simp add: StaticBuffer_ok_def word_le_nat_alt)
  then show 1: "load_bytes m (sb_data s) (unat (sb_size s)) = Some (StaticBuffer_content m s)"
    by (auto simp: readable_load StaticBuffer_content_def)
  show "length (StaticBuffer_content m s) = unat (sb_size s)"
    using load_bytes_length [OF 1] .
qed

lemma store_bytes_keeps_readable:
  assumes "store_bytes m p xs = Some m'" and "readable m q n"
  shows "readable m' q n"
  using assms
  by (auto simp: readable_def load_bytes_def store_bytes_def split: if_splits option.splits)

lemma store_inside:
  assumes "readable m p n" and "k + length xs \<le> n"
  shows "\<exists>m'. store_bytes m (ptr_add p k) xs = Some m'"
  using store_bytes_readable [OF readable_sub [OF assms]] .

lemma StaticBuffer_consume_drop:
  assumes ok: "StaticBuffer_ok m s" and n: "n \<le> sb_size s"
  shows "\<exists>m' s'. StaticBuffer_consume m s n = Some (m', s') \<and> StaticBuffer_ok m' s'
    \<and> StaticBuffer_content m' s' = drop (unat n) (StaticBuffer_content m s)
    \<and> sb_data s' = sb_data s \<and> sb_capacity s' = sb_capacity s"
proof (cases "sb_size s = n")
  case True
  have "load_bytes m (sb_data s) 0 = Some []" by simp
  with True ok StaticBuffer_load(2) [OF ok] show ?thesis
    by (simp add: StaticBuffer_consume_def StaticBuffer_ok_def StaticBuffer_content_def)
next
  case False
  let ?q = "drop (unat n) (StaticBuffer_content m s)"
  have cnt: "unat (sb_size s - n) = unat (sb_size s) - unat n"
    using n by (simp add: unat_sub)
  have n': "unat n \<le> unat (sb_size s)" "unat (sb_size s) \<le> unat (sb_capacity s)"
    using n ok by (simp_all add: word_le_nat_alt StaticBuffer_ok_def)
  have l: "load_bytes m (ptr_add (sb_data s) (unat n)) (unat (sb_size s - n)) = Some ?q"
    using load_bytes_suffix [OF StaticBuffer_load(1) [OF ok] n'(1)] by (simp add: cnt)
  have len: "length ?q = unat (sb_size s - n)" by (rule load_bytes_length [OF l])
  have rd: "readable m (sb_data s) (unat (sb_capacity s))" using ok by (simp add: StaticBuffer_ok_def)
  obtain m' where m': "store_bytes m (sb_data s) ?q = Some m'"
    using store_inside [OF rd, of 0 ?q] le_trans [OF diff_le_self n'(2)] len cnt by auto
  let ?s = "s\<lparr>sb_size := sb_size s - n\<rparr>"
  have "StaticBuffer_consume m s n = Some (m', ?s)"
    using False l m' by (simp add: StaticBuffer_consume_def memmove_def Let_def)
  moreover have "StaticBuffer_ok m' ?s"
    using store_bytes_keeps_readable [OF m' rd] cnt n'
    by (simp add: StaticBuffer_ok_def word_le_nat_alt)
  moreover have "StaticBuffer_content m' ?s = ?q"
    using load_store_same [OF m'] len by (simp add: StaticBuffer_content_def)
  ultimately show ?thesis by auto
qed

lemma ConsumingBuffer_consume_drop:
  assumes ok: "ConsumingBuffer_ok m s" and n: "n \<le> cs_size s"
  shows "ConsumingBuffer_ok m (ConsumingBuffer_consume s n)
    \<and> ConsumingBuffer_content m (ConsumingBuffer_consume s n)
        = drop (unat n) (ConsumingBuffer_content m s)"
proof -
  obtain bs where bs: "load_bytes m (cs_data s) (unat (cs_size s)) = Some bs"
    using ok by (auto simp: ConsumingBuffer_ok_def readable_load)
  have "unat n \<le> unat (cs_size s)" using n by (simp add: word_le_nat_alt)
  from load_bytes_suffix [OF bs this] n bs show ?thesis
    by (simp add: ConsumingBuffer_ok_def ConsumingBuffer_content_def ConsumingBuffer_consume_def
        unat_sub readable_load)
qed

interpretation static_buffer: consumable_buffer
  "\<lambda>x. StaticBuffer_ok (fst x) (snd x)" "\<lambda>x. StaticBuffer_content (fst x) (snd x)"
  "\<lambda>x. StaticBuffer_size (snd x)" "\<lambda>x n. StaticBuffer_consume (fst x) (snd x) n"
proof (unfold_locales, goal_cases)
  case (1 x)
  then show ?case using StaticBuffer_load(2) by (simp add: StaticBuffer_size_def)
next
  case (2 x n)
  then show ?case
    using StaticBuffer_consume_drop [of "fst x" "snd x" n] by (auto simp: StaticBuffer_size_def)
qed

interpretation consuming_buffer: consumable_buffer
  "\<lambda>x. ConsumingBuffer_ok (fst x) (snd x)" "\<lambda>x. ConsumingBuffer_content (fst x) (snd x)"
  "\<lambda>x. ConsumingBuffer_size (snd x)" "\<lambda>x n. Some (fst x, ConsumingBuffer_consume (snd x) n)"
proof (unfold_locales, goal_cases)
  case (1 x)
  then obtain bs where "load_bytes (fst x) (cs_data (snd x)) (unat (cs_size (snd x))) = Some bs"
    by (auto simp: ConsumingBuffer_ok_def readable_load)
  with load_bytes_length [OF this] show ?case
    by (simp add: ConsumingBuffer_size_def ConsumingBuffer_content_def)
next
  case (2 x n)
  then show ?case
    using ConsumingBuffer_consume_drop [of "fst x" "snd x" n] by (auto simp: ConsumingBuffer_size_def)
qed

section \<open>A static buffer is a bounded byte queue\<close>

text \<open>
  The calls of a client: put bytes with \<open>prepare(size)\<close>, a copy and \<open>commit\<close>, or consume a
  number of bytes. The result is the exception thrown, if any.
\<close>

datatype buffer_op = Op_put "u8 list" | Op_consume u64

definition StaticBuffer_step ::
  "memory \<times> StaticBuffer \<Rightarrow> buffer_op \<Rightarrow> (exn option \<times> memory \<times> StaticBuffer) option" where
  "StaticBuffer_step x a =
     (case a of
        Op_put xs \<Rightarrow>
          (case StaticBuffer_prepare_size (snd x) (of_nat (length xs)) of
             Inl exc \<Rightarrow> Some (Some exc, x)
           | Inr buf \<Rightarrow>
               do { m \<leftarrow> store_bytes (fst x) (bufferCast_mutable buf) xs;
                    Some (None, m, StaticBuffer_commit (snd x) (bufferSize_mutable buf)) })
      | Op_consume n \<Rightarrow>
          do { y \<leftarrow> StaticBuffer_consume (fst x) (snd x) n; Some (None, y) })"

primrec StaticBuffer_run ::
  "memory \<times> StaticBuffer \<Rightarrow> buffer_op list \<Rightarrow> (exn option list \<times> memory \<times> StaticBuffer) option" where
  "StaticBuffer_run x [] = Some ([], x)"
| "StaticBuffer_run x (a # as) =
     do { y \<leftarrow> StaticBuffer_step x a;
          z \<leftarrow> StaticBuffer_run (snd y) as;
          Some (fst y # fst z, snd z) }"

text \<open>The abstract queue of a capacity, and the calls its contract allows.\<close>

fun queue_step :: "nat \<Rightarrow> u8 list \<Rightarrow> buffer_op \<Rightarrow> exn option \<times> u8 list" where
  "queue_step cap q (Op_put xs) =
     (if cap < length q + length xs
      then (Some (length_error ''Not enought size for output sequence''), q)
      else (None, q @ xs))"
| "queue_step cap q (Op_consume n) = (None, drop (unat n) q)"

fun op_allowed :: "u8 list \<Rightarrow> buffer_op \<Rightarrow> bool" where
  "op_allowed q (Op_put xs) \<longleftrightarrow> length xs < 2 ^ 64"
| "op_allowed q (Op_consume n) \<longleftrightarrow> unat n \<le> length q"

primrec queue_run :: "nat \<Rightarrow> u8 list \<Rightarrow> buffer_op list \<Rightarrow> exn option list \<times> u8 list" where
  "queue_run cap q [] = ([], q)"
| "queue_run cap q (a # as) =
     (let y = queue_step cap q a; z = queue_run cap (snd y) as in (fst y # fst z, snd z))"

primrec ops_allowed :: "nat \<Rightarrow> u8 list \<Rightarrow> buffer_op list \<Rightarrow> bool" where
  "ops_allowed cap q [] \<longleftrightarrow> True"
| "ops_allowed cap q (a # as) \<longleftrightarrow> op_allowed q a \<and> ops_allowed cap (snd (queue_step cap q a)) as"

lemma StaticBuffer_append:
  assumes ok: "StaticBuffer_ok m s" and fits: "unat (sb_size s) + length xs \<le> unat (sb_capacity s)"
    and m': "store_bytes m (ptr_add (sb_data s) (unat (sb_size s))) xs = Some m'"
  shows "StaticBuffer_ok m' (StaticBuffer_commit s (of_nat (length xs)))"
    and "StaticBuffer_content m' (StaticBuffer_commit s (of_nat (length xs)))
      = StaticBuffer_content m s @ xs"
proof -
  let ?n = "of_nat (length xs) :: u64" and ?k = "unat (sb_size s)"
  have "length xs < 2 ^ 64"
    using fits unsigned_less [of "sb_capacity s", where ?'a = nat] by simp
  then have n: "unat ?n = length xs" by (simp add: unat_of_nat take_bit_nat_eq_self)
  have rd: "readable m (sb_data s) (unat (sb_capacity s))" using ok by (simp add: StaticBuffer_ok_def)
  have add: "unat (sb_size s + ?n) = ?k + length xs"
    using fits n unsigned_less [of "sb_capacity s", where ?'a = nat]
    by (subst unat_add_lem [THEN iffD1]) auto
  have l1: "load_bytes m' (sb_data s) ?k = Some (StaticBuffer_content m s)"
    by (rule load_store_before [OF m' _ StaticBuffer_load(1) [OF ok]]) simp_all
  have rd': "readable m' (sb_data s) (unat (sb_capacity s))"
    using store_bytes_keeps_readable [OF m' rd] .
  have "readable m' (sb_data s) (?k + length xs)"
    using readable_sub [OF rd', of 0 "?k + length xs"] fits by simp
  then obtain ys where ys: "load_bytes m' (sb_data s) (?k + length xs) = Some ys"
    by (auto simp: readable_load)
  have "take ?k ys = StaticBuffer_content m s" "drop ?k ys = xs"
    using load_bytes_prefix [OF ys, of ?k] load_bytes_suffix [OF ys, of ?k] l1 load_store_same [OF m']
    by simp_all
  then have "ys = StaticBuffer_content m s @ xs" by (metis append_take_drop_id)
  with ys add show "StaticBuffer_content m' (StaticBuffer_commit s ?n) = StaticBuffer_content m s @ xs"
    by (simp add: StaticBuffer_content_def StaticBuffer_commit_def)
  show "StaticBuffer_ok m' (StaticBuffer_commit s ?n)"
    using rd' fits add by (simp add: StaticBuffer_ok_def StaticBuffer_commit_def word_le_nat_alt)
qed

lemma StaticBuffer_put:
  assumes ok: "StaticBuffer_ok m s" and len: "length xs < 2 ^ 64"
    and fits: "unat (sb_size s) + length xs \<le> unat (sb_capacity s)"
  obtains m' where "StaticBuffer_step (m, s) (Op_put xs)
      = Some (None, m', StaticBuffer_commit s (of_nat (length xs)))"
    and "StaticBuffer_ok m' (StaticBuffer_commit s (of_nat (length xs)))"
    and "StaticBuffer_content m' (StaticBuffer_commit s (of_nat (length xs)))
      = StaticBuffer_content m s @ xs"
proof -
  let ?n = "of_nat (length xs) :: u64"
  have n: "unat ?n = length xs" using len by (simp add: unat_of_nat take_bit_nat_eq_self)
  have rd: "readable m (sb_data s) (unat (sb_capacity s))" and sz: "sb_size s \<le> sb_capacity s"
    using ok by (simp_all add: StaticBuffer_ok_def)
  obtain m' where m': "store_bytes m (ptr_add (sb_data s) (unat (sb_size s))) xs = Some m'"
    using store_inside [OF rd fits] by blast
  have "\<not> sb_capacity s - sb_size s < ?n"
    using fits n sz by (simp add: word_less_nat_alt unat_sub)
  with m' have "StaticBuffer_step (m, s) (Op_put xs) = Some (None, m', StaticBuffer_commit s ?n)"
    by (simp add: StaticBuffer_step_def StaticBuffer_prepare_size_def
        MutableBuffer_make_def bufferCast_mutable_def bufferSize_mutable_def)
  from that [OF this StaticBuffer_append [OF ok fits m']] show thesis .
qed

lemma StaticBuffer_put_full:
  assumes ok: "StaticBuffer_ok m s" and len: "length xs < 2 ^ 64"
    and full: "unat (sb_capacity s) < unat (sb_size s) + length xs"
  shows "StaticBuffer_step (m, s) (Op_put xs)
    = Some (Some (length_error ''Not enought size for output sequence''), m, s)"
proof -
  have "unat (of_nat (length xs) :: u64) = length xs"
    using len by (simp add: unat_of_nat take_bit_nat_eq_self)
  then have "sb_capacity s - sb_size s < of_nat (length xs)"
    using full ok by (auto simp: word_less_nat_alt unat_sub StaticBuffer_ok_def word_le_nat_alt)
  then show ?thesis by (simp add: StaticBuffer_step_def StaticBuffer_prepare_size_def)
qed

lemma StaticBuffer_step_queue:
  assumes ok: "StaticBuffer_ok m s" and a: "op_allowed (StaticBuffer_content m s) a"
  obtains r m' s' where "StaticBuffer_step (m, s) a = Some (r, m', s')" and "StaticBuffer_ok m' s'"
    and "sb_capacity s' = sb_capacity s"
    and "queue_step (unat (sb_capacity s)) (StaticBuffer_content m s) a = (r, StaticBuffer_content m' s')"
proof (cases a)
  case (Op_put xs)
  note len = StaticBuffer_load(2) [OF ok]
  have x: "length xs < 2 ^ 64" using a Op_put by simp
  show thesis
  proof (cases "unat (sb_capacity s) < unat (sb_size s) + length xs")
    case True
    with StaticBuffer_put_full [OF ok x] Op_put ok len show thesis by (intro that) auto
  next
    case False
    then have fits: "unat (sb_size s) + length xs \<le> unat (sb_capacity s)" by simp
    from StaticBuffer_put [OF ok x this] obtain m' where
      "StaticBuffer_step (m, s) a = Some (None, m', StaticBuffer_commit s (of_nat (length xs)))"
      "StaticBuffer_ok m' (StaticBuffer_commit s (of_nat (length xs)))"
      "StaticBuffer_content m' (StaticBuffer_commit s (of_nat (length xs))) = StaticBuffer_content m s @ xs"
      using Op_put by metis
    with fits len Op_put show thesis
      by (intro that [of None m' "StaticBuffer_commit s (of_nat (length xs))"])
        (auto simp: StaticBuffer_commit_def)
  qed
next
  case (Op_consume n)
  with a have "n \<le> sb_size s" by (simp add: StaticBuffer_load(2) [OF ok] word_le_nat_alt)
  with StaticBuffer_consume_drop [OF ok] obtain m' s' where
    "StaticBuffer_consume m s n = Some (m', s')" "StaticBuffer_ok m' s'"
    "StaticBuffer_content m' s' = drop (unat n) (StaticBuffer_content m s)"
    "sb_capacity s' = sb_capacity s"
    by metis
  with Op_consume show thesis by (intro that [of None m' s']) (auto simp: StaticBuffer_step_def)
qed

section \<open>Properties\<close>

text \<open>
  C13. A static buffer is a queue of bytes bounded by its capacity: any sequence of puts and
  of consumes of bytes that are there runs without an access outside the storage, gives
  the same exceptions and leaves the same contents as the abstract queue. A put that does
  not fit throws \<open>std::length_error\<close> and changes nothing.
\<close>

theorem static_buffer_refines_queue:
  assumes "StaticBuffer_ok m s"
    and "ops_allowed (unat (sb_capacity s)) (StaticBuffer_content m s) as"
  shows "\<exists>rs m' s'. StaticBuffer_run (m, s) as = Some (rs, m', s') \<and> StaticBuffer_ok m' s'
    \<and> queue_run (unat (sb_capacity s)) (StaticBuffer_content m s) as = (rs, StaticBuffer_content m' s')"
  using assms
proof (induction as arbitrary: m s)
  case (Cons a as)
  then have "op_allowed (StaticBuffer_content m s) a" by simp
  with Cons.prems(1) obtain r m' s' where s': "StaticBuffer_step (m, s) a = Some (r, m', s')"
    "StaticBuffer_ok m' s'" "sb_capacity s' = sb_capacity s"
    "queue_step (unat (sb_capacity s)) (StaticBuffer_content m s) a = (r, StaticBuffer_content m' s')"
    using StaticBuffer_step_queue by metis
  with Cons.IH [OF s'(2)] Cons.prems(2) show ?case by (auto simp: Let_def)
qed simp

theorem static_buffer_refines_queue_witness:
  "\<exists>m' s'. StaticBuffer_run ([0 \<mapsto> [0, 0, 0]], StaticBuffer_make (Pointer (Some 0) 0) 3)
       [Op_put [1, 2], Op_put [3, 4], Op_consume 1, Op_put [5, 6]]
     = Some ([None, Some (length_error ''Not enought size for output sequence''), None, None], m', s')
     \<and> StaticBuffer_content m' s' = [2, 5, 6]"
proof -
  let ?m = "[0 \<mapsto> [0, 0, 0 :: u8]]" and ?s = "StaticBuffer_make (Pointer (Some 0) 0) 3"
  have ok: "StaticBuffer_ok ?m ?s" and c: "StaticBuffer_content ?m ?s = []" "sb_capacity ?s = 3"
    by (simp_all add: StaticBuffer_ok_def StaticBuffer_make_def readable_def load_bytes_def
        StaticBuffer_content_def)
  from static_buffer_refines_queue [OF ok, of "[Op_put [1, 2], Op_put [3, 4], Op_consume 1, Op_put [5, 6]]"]
  show ?thesis by (auto simp: c Let_def)
qed

text \<open>
  Emptying a buffer piece by piece loses and repeats nothing: the pieces a client takes
  from a \<open>StaticBuffer\<close>, which moves the rest to the front, or from a \<open>ConsumingBuffer\<close>,
  which moves its pointer, are together the first bytes of the contents, and the rest of
  them remains.
\<close>

theorem buffers_in_pieces:
  assumes "StaticBuffer_ok m s" and "ConsumingBuffer_ok m c"
    and "ConsumingBuffer_content m c = StaticBuffer_content m s"
    and "(\<Sum>n\<leftarrow>ns. unat n) \<le> length (StaticBuffer_content m s)"
  shows "\<exists>xs m' s' c'.
      take_pieces (\<lambda>x. StaticBuffer_content (fst x) (snd x))
        (\<lambda>x n. StaticBuffer_consume (fst x) (snd x) n) (m, s) ns = Some (xs, m', s')
    \<and> take_pieces (\<lambda>x. ConsumingBuffer_content (fst x) (snd x))
        (\<lambda>x n. Some (fst x, ConsumingBuffer_consume (snd x) n)) (m, c) ns = Some (xs, c')
    \<and> concat xs @ StaticBuffer_content m' s' = StaticBuffer_content m s
    \<and> ConsumingBuffer_content (fst c') (snd c') = StaticBuffer_content m' s'"
proof -
  have l: "(\<Sum>n\<leftarrow>ns. unat n) \<le> length (StaticBuffer_content (fst (m, s)) (snd (m, s)))"
    "(\<Sum>n\<leftarrow>ns. unat n) \<le> length (ConsumingBuffer_content (fst (m, c)) (snd (m, c)))"
    using assms(3,4) by simp_all
  from static_buffer.pieces [of "(m, s)", OF _ l(1)] consuming_buffer.pieces [of "(m, c)", OF _ l(2)]
    assms(1-3)
  show ?thesis by (auto simp: concat_split_pieces)
qed

theorem buffers_in_pieces_witness:
  "\<exists>xs y c'. take_pieces (\<lambda>x. StaticBuffer_content (fst x) (snd x))
        (\<lambda>x n. StaticBuffer_consume (fst x) (snd x) n)
        ([0 \<mapsto> [1, 2, 3]], \<lparr>sb_data = Pointer (Some 0) 0, sb_capacity = 3, sb_size = 3\<rparr>) [2, 1]
      = Some (xs, y)
    \<and> take_pieces (\<lambda>x. ConsumingBuffer_content (fst x) (snd x))
        (\<lambda>x n. Some (fst x, ConsumingBuffer_consume (snd x) n))
        ([0 \<mapsto> [1, 2, 3]], \<lparr>cs_data = Pointer (Some 0) 0, cs_size = 3\<rparr>) [2, 1] = Some (xs, c')"
proof -
  let ?m = "[0 \<mapsto> [1, 2, 3 :: u8]]"
  let ?s = "\<lparr>sb_data = Pointer (Some 0) 0, sb_capacity = 3, sb_size = 3\<rparr>"
  let ?c = "\<lparr>cs_data = Pointer (Some 0) 0, cs_size = 3\<rparr>"
  have ok: "StaticBuffer_ok ?m ?s" "ConsumingBuffer_ok ?m ?c"
    "ConsumingBuffer_content ?m ?c = StaticBuffer_content ?m ?s"
    "(\<Sum>n\<leftarrow>[2, 1 :: u64]. unat n) \<le> length (StaticBuffer_content ?m ?s)"
    by (simp_all add: StaticBuffer_ok_def ConsumingBuffer_ok_def readable_def load_bytes_def
        StaticBuffer_content_def ConsumingBuffer_content_def)
  from buffers_in_pieces [OF ok] show ?thesis by blast
qed

text \<open>
  Consuming more than there is, which neither buffer checks, goes wrong in both: the
  count a static buffer moves wraps around, so the move runs outside its storage, and the
  size of a consuming buffer wraps around, so \<open>data\<close> describes a range that is not readable.
\<close>

theorem overconsume_goes_wrong:
  assumes "m b = Some bs" and "length bs < 2 ^ 63"
    and "sb_size s < n" and "sb_data s = Pointer (Some b) 0" and "unat n < 2 ^ 63"
    and "cs_size c < n" and "cs_data c = Pointer (Some b) 0"
  shows "StaticBuffer_consume m s n = None
    \<and> \<not> readable m (bufferCast (ConsumingBuffer_data (ConsumingBuffer_consume c n)))
          (unat (bufferSize (ConsumingBuffer_data (ConsumingBuffer_consume c n))))"
proof -
  have wrap: "2 ^ 63 \<le> unat (k - n)" if "k < n" for k
  proof -
    have "unat (k - n) = unat k + 2 ^ 64 - unat n"
      using that by (simp add: unat_sub_if_size word_size word_less_nat_alt)
    with assms(5) show ?thesis by simp
  qed
  have no: "load_bytes m (Pointer (Some b) j) (unat (k - n)) = None" if "k < n" for k j
    using wrap [OF that] assms(1,2) by (simp add: load_bytes_def)
  show ?thesis
    using assms no [OF assms(3)] no [OF assms(6)]
    by (auto simp: StaticBuffer_consume_def memmove_def ptr_add_def readable_def
        ConsumingBuffer_data_def ConsumingBuffer_consume_def ConsumingBuffer_make_def
        ConstBuffer_make_def bufferCast_def bufferSize_def Let_def)
qed

theorem overconsume_goes_wrong_witness:
  "StaticBuffer_consume [0 \<mapsto> [1, 2]] \<lparr>sb_data = Pointer (Some 0) 0, sb_capacity = 2, sb_size = 1\<rparr> 2
     = None"
  using overconsume_goes_wrong [of "[0 \<mapsto> [1, 2]]" 0 "[1, 2]"
      "\<lparr>sb_data = Pointer (Some 0) 0, sb_capacity = 2, sb_size = 1\<rparr>" 2
      "\<lparr>cs_data = Pointer (Some 0) 0, cs_size = 1\<rparr>"]
  by simp

end
