(* ===== verification/Nb_SocketOps.thy ===== *)
theory Nb_SocketOps
  imports Nb_SocketOptions Nb_Buffer
begin

text \<open>
  \<open>netbox/socket_ops.h\<close>: the operations on sockets. The system calls are arguments: each
  takes the descriptor and its arguments in a kernel state and gives its return value, the
  \<open>errno\<close> it leaves and the kernel after it. A socket address is its bytes and length.
\<close>

section \<open>Connecting and listening\<close>

definition connect ::
  "(int \<Rightarrow> u8 list \<Rightarrow> u32 \<Rightarrow> 'k \<Rightarrow> int \<times> int \<times> 'k) \<Rightarrow> Socket \<Rightarrow> u8 list \<Rightarrow> u32 \<Rightarrow> 'k \<Rightarrow> OpResult \<times> 'k" where
  "connect sys_connect socket addr addrlen k =
     (let (r, errno, k) = sys_connect (Socket_native socket) addr addrlen k
      in (OpResult_make errno r, k))"

definition connect_IPv4 ::
  "(int \<Rightarrow> u8 list \<Rightarrow> u32 \<Rightarrow> 'k \<Rightarrow> int \<times> int \<times> 'k) \<Rightarrow> endian \<Rightarrow> Socket \<Rightarrow> IPv4_Endpoint \<Rightarrow> 'k
     \<Rightarrow> OpResult \<times> 'k" where
  "connect_IPv4 sys_connect e socket endpoint k =
     connect sys_connect socket (IPv4_Endpoint_data e endpoint) IPv4_Endpoint_size k"

definition connect_IPv6 ::
  "(int \<Rightarrow> u8 list \<Rightarrow> u32 \<Rightarrow> 'k \<Rightarrow> int \<times> int \<times> 'k) \<Rightarrow> endian \<Rightarrow> Socket \<Rightarrow> IPv6_Endpoint \<Rightarrow> 'k
     \<Rightarrow> OpResult \<times> 'k" where
  "connect_IPv6 sys_connect e socket endpoint k =
     connect sys_connect socket (IPv6_Endpoint_data e endpoint) IPv6_Endpoint_size k"

definition bind_address ::
  "(int \<Rightarrow> u8 list \<Rightarrow> u32 \<Rightarrow> 'k \<Rightarrow> int \<times> int \<times> 'k) \<Rightarrow> Socket \<Rightarrow> u8 list \<Rightarrow> u32 \<Rightarrow> 'k \<Rightarrow> OpResult \<times> 'k" where
  "bind_address sys_bind socket addr addrlen k =
     (let (r, errno, k) = sys_bind (Socket_native socket) addr addrlen k
      in (OpResult_make errno r, k))"

definition bind_IPv4 ::
  "(int \<Rightarrow> u8 list \<Rightarrow> u32 \<Rightarrow> 'k \<Rightarrow> int \<times> int \<times> 'k) \<Rightarrow> endian \<Rightarrow> Socket \<Rightarrow> IPv4_Endpoint \<Rightarrow> 'k
     \<Rightarrow> OpResult \<times> 'k" where
  "bind_IPv4 sys_bind e socket endpoint k =
     bind_address sys_bind socket (IPv4_Endpoint_data e endpoint) IPv4_Endpoint_size k"

definition bind_IPv6 ::
  "(int \<Rightarrow> u8 list \<Rightarrow> u32 \<Rightarrow> 'k \<Rightarrow> int \<times> int \<times> 'k) \<Rightarrow> endian \<Rightarrow> Socket \<Rightarrow> IPv6_Endpoint \<Rightarrow> 'k
     \<Rightarrow> OpResult \<times> 'k" where
  "bind_IPv6 sys_bind e socket endpoint k =
     bind_address sys_bind socket (IPv6_Endpoint_data e endpoint) IPv6_Endpoint_size k"

definition bind_port_IPv4 ::
  "(int \<Rightarrow> u8 list \<Rightarrow> u32 \<Rightarrow> 'k \<Rightarrow> int \<times> int \<times> 'k) \<Rightarrow> endian \<Rightarrow> Socket \<Rightarrow> u16 \<Rightarrow> IPv4_Address \<Rightarrow> 'k
     \<Rightarrow> OpResult \<times> 'k" where
  "bind_port_IPv4 sys_bind e socket port address k =
     bind_IPv4 sys_bind e socket (IPv4_Endpoint_make e address port) k"

definition bind_port_IPv6 ::
  "(int \<Rightarrow> u8 list \<Rightarrow> u32 \<Rightarrow> 'k \<Rightarrow> int \<times> int \<times> 'k) \<Rightarrow> endian \<Rightarrow> Socket \<Rightarrow> u16 \<Rightarrow> IPv6_Address \<Rightarrow> 'k
     \<Rightarrow> OpResult \<times> 'k" where
  "bind_port_IPv6 sys_bind e socket port address k =
     bind_IPv6 sys_bind e socket (IPv6_Endpoint_make e address port) k"

definition listen :: "(int \<Rightarrow> int \<Rightarrow> 'k \<Rightarrow> int \<times> int \<times> 'k) \<Rightarrow> Socket \<Rightarrow> int \<Rightarrow> 'k \<Rightarrow> OpResult \<times> 'k" where
  "listen sys_listen socket backlog k =
     (let (r, errno, k) = sys_listen (Socket_native socket) backlog k
      in (OpResult_make errno r, k))"

section \<open>Accepting\<close>

text \<open>
  \<open>::accept\<close> with an address: it is given the value of the length argument and answers
  with the descriptor, the bytes it wrote to the address and the new length.
\<close>

type_synonym 'k sys_accept = "int \<Rightarrow> u32 option \<Rightarrow> 'k \<Rightarrow> int \<times> u8 list \<times> u32 \<times> int \<times> 'k"

definition accept_address :: "'k sys_accept \<Rightarrow> Socket \<Rightarrow> u32 option \<Rightarrow> 'k \<Rightarrow> SocketResult \<times> u8 list \<times> u32 \<times> 'k" where
  "accept_address sys_accept socket addrlen k =
     (let (fd, bytes, len, errno, k) = sys_accept (Socket_native socket) addrlen k
      in (SocketResult_make errno fd, bytes, len, k))"

text \<open>
  The overload for an endpoint, a template over the endpoint class, declares \<open>socklen_t len\<close>
  without a value: \<open>garbage\<close> is what it happens to hold. None is a write past the storage
  of the endpoint. The function is \<open>noexcept\<close>, \<open>resize\<close> is not.
\<close>

definition accept_into ::
  "('ep \<Rightarrow> u8 list) \<Rightarrow> (u8 list \<Rightarrow> 'ep) \<Rightarrow> (u32 \<Rightarrow> exn + unit) \<Rightarrow> 'k sys_accept \<Rightarrow> u32 \<Rightarrow> Socket \<Rightarrow> 'ep
     \<Rightarrow> 'k \<Rightarrow> (SocketResult \<times> 'ep \<times> 'k) noexcept option" where
  "accept_into raw of_raw resize sys_accept garbage socket endpoint k =
     (let len = garbage;
          (result, bytes, len, k) = accept_address sys_accept socket (Some len) k
      in if length (raw endpoint) < length bytes then None
         else
           let endpoint = of_raw (bytes @ drop (length bytes) (raw endpoint))
           in case resize len of
                Inl exc \<Rightarrow> Some Terminated
              | Inr u \<Rightarrow> Some (Returned (result, endpoint, k)))"

definition accept_IPv4 ::
  "'k sys_accept \<Rightarrow> endian \<Rightarrow> u32 \<Rightarrow> Socket \<Rightarrow> IPv4_Endpoint \<Rightarrow> 'k
     \<Rightarrow> (SocketResult \<times> IPv4_Endpoint \<times> 'k) noexcept option" where
  "accept_IPv4 sys_accept e =
     accept_into (IPv4_Endpoint_data e) (IPv4_Endpoint_of_data e) IPv4_Endpoint_resize sys_accept"

definition accept_IPv6 ::
  "'k sys_accept \<Rightarrow> endian \<Rightarrow> u32 \<Rightarrow> Socket \<Rightarrow> IPv6_Endpoint \<Rightarrow> 'k
     \<Rightarrow> (SocketResult \<times> IPv6_Endpoint \<times> 'k) noexcept option" where
  "accept_IPv6 sys_accept e =
     accept_into (IPv6_Endpoint_data e) (IPv6_Endpoint_of_data e) IPv6_Endpoint_resize sys_accept"

section \<open>Sending and receiving\<close>

text \<open>
  The system calls take the address of the bytes and their number; the memory belongs to
  the kernel state. The flags argument is always 0.
\<close>

type_synonym 'k sys_transfer = "int \<Rightarrow> pointer \<Rightarrow> u64 \<Rightarrow> int \<Rightarrow> 'k \<Rightarrow> u64 \<times> int \<times> 'k"

definition transfer :: "'k sys_transfer \<Rightarrow> Socket \<Rightarrow> pointer \<Rightarrow> u64 \<Rightarrow> 'k \<Rightarrow> TransmitResult \<times> 'k" where
  "transfer sys socket buf len k =
     (let (v, errno, k) = sys (Socket_native socket) buf len 0 k in (TransmitResult_make errno v, k))"

definition send :: "'k sys_transfer \<Rightarrow> Socket \<Rightarrow> pointer \<Rightarrow> u64 \<Rightarrow> 'k \<Rightarrow> TransmitResult \<times> 'k" where
  "send sys_send socket buf len k = transfer sys_send socket buf len k"

definition send_buffer :: "'k sys_transfer \<Rightarrow> Socket \<Rightarrow> ConstBuffer \<Rightarrow> 'k \<Rightarrow> TransmitResult \<times> 'k" where
  "send_buffer sys_send socket buf k = send sys_send socket (bufferCast buf) (bufferSize buf) k"

definition sendto ::
  "(u8 list \<Rightarrow> u32 \<Rightarrow> 'k sys_transfer) \<Rightarrow> Socket \<Rightarrow> pointer \<Rightarrow> u64 \<Rightarrow> u8 list \<Rightarrow> u32 \<Rightarrow> 'k
     \<Rightarrow> TransmitResult \<times> 'k" where
  "sendto sys_sendto socket buf len dest_addr addrlen k =
     transfer (sys_sendto dest_addr addrlen) socket buf len k"

definition sendto_buffer ::
  "(u8 list \<Rightarrow> u32 \<Rightarrow> 'k sys_transfer) \<Rightarrow> Socket \<Rightarrow> ConstBuffer \<Rightarrow> u8 list \<Rightarrow> u32 \<Rightarrow> 'k
     \<Rightarrow> TransmitResult \<times> 'k" where
  "sendto_buffer sys_sendto socket buf dest_addr addrlen k =
     sendto sys_sendto socket (bufferCast buf) (bufferSize buf) dest_addr addrlen k"

definition recv :: "'k sys_transfer \<Rightarrow> Socket \<Rightarrow> pointer \<Rightarrow> u64 \<Rightarrow> 'k \<Rightarrow> TransmitResult \<times> 'k" where
  "recv sys_recv socket buf len k = transfer sys_recv socket buf len k"

definition recv_buffer :: "'k sys_transfer \<Rightarrow> Socket \<Rightarrow> MutableBuffer \<Rightarrow> 'k \<Rightarrow> TransmitResult \<times> 'k" where
  "recv_buffer sys_recv socket buf k =
     recv sys_recv socket (bufferCast_mutable buf) (bufferSize_mutable buf) k"

text \<open>
  \<open>recvfrom\<close> also hands on the addresses of the buffer for the peer's address and of its
  length.
\<close>

definition recvfrom ::
  "(pointer \<Rightarrow> pointer \<Rightarrow> 'k sys_transfer) \<Rightarrow> Socket \<Rightarrow> pointer \<Rightarrow> u64 \<Rightarrow> pointer \<Rightarrow> pointer \<Rightarrow> 'k
     \<Rightarrow> TransmitResult \<times> 'k" where
  "recvfrom sys_recvfrom socket buf len src_addr addrlen k =
     transfer (sys_recvfrom src_addr addrlen) socket buf len k"

definition recvfrom_buffer ::
  "(pointer \<Rightarrow> pointer \<Rightarrow> 'k sys_transfer) \<Rightarrow> Socket \<Rightarrow> MutableBuffer \<Rightarrow> pointer \<Rightarrow> pointer \<Rightarrow> 'k
     \<Rightarrow> TransmitResult \<times> 'k" where
  "recvfrom_buffer sys_recvfrom socket buf src_addr addrlen k =
     recvfrom sys_recvfrom socket (bufferCast_mutable buf) (bufferSize_mutable buf) src_addr addrlen k"

text \<open>\<open>sendmsg\<close>, \<open>recvmsg\<close> and \<open>recvmmsg\<close> hand on a pointer to the messages; the last answers
  with an \<open>int\<close>, the number of messages, which is widened.\<close>

definition sendmsg ::
  "(int \<Rightarrow> pointer \<Rightarrow> int \<Rightarrow> 'k \<Rightarrow> u64 \<times> int \<times> 'k) \<Rightarrow> Socket \<Rightarrow> pointer \<Rightarrow> 'k \<Rightarrow> TransmitResult \<times> 'k" where
  "sendmsg sys_sendmsg socket message k =
     (let (v, errno, k) = sys_sendmsg (Socket_native socket) message 0 k
      in (TransmitResult_make errno v, k))"

definition recvmsg ::
  "(int \<Rightarrow> pointer \<Rightarrow> int \<Rightarrow> 'k \<Rightarrow> u64 \<times> int \<times> 'k) \<Rightarrow> Socket \<Rightarrow> pointer \<Rightarrow> 'k \<Rightarrow> TransmitResult \<times> 'k" where
  "recvmsg sys_recvmsg socket message k =
     (let (v, errno, k) = sys_recvmsg (Socket_native socket) message 0 k
      in (TransmitResult_make errno v, k))"

definition recvmmsg ::
  "(int \<Rightarrow> pointer \<Rightarrow> u32 \<Rightarrow> int \<Rightarrow> pointer \<Rightarrow> 'k \<Rightarrow> u32 \<times> int \<times> 'k) \<Rightarrow> Socket \<Rightarrow> pointer \<Rightarrow> u32 \<Rightarrow> pointer
     \<Rightarrow> 'k \<Rightarrow> TransmitResult \<times> 'k" where
  "recvmmsg sys_recvmmsg socket msgvec vlen timeout k =
     (let (v, errno, k) = sys_recvmmsg (Socket_native socket) msgvec vlen 0 timeout k
      in (TransmitResult_make errno (scast v), k))"

section \<open>Properties\<close>

text \<open>
  The documented behaviour of \<open>accept\<close> for a peer with the socket address \<open>peer\<close>: a failed
  call gives -1 and an \<open>errno\<close> and leaves address and length as they were; a successful
  one writes the address, cut to the length it was given, and sets the length to that of
  the whole address.
\<close>

definition accept_documented :: "'k sys_accept \<Rightarrow> 'k \<Rightarrow> int \<Rightarrow> int \<Rightarrow> u8 list \<Rightarrow> bool" where
  "accept_documented sys k fd newfd peer \<longleftrightarrow>
     length peer < 2 ^ 32
     \<and> (\<forall>len. \<exists>errno k'. if newfd = BadFd then sys fd (Some len) k = (BadFd, [], len, errno, k')
          else sys fd (Some len) k = (newfd, take (unat len) peer, of_nat (length peer), errno, k'))"

text \<open>The template on any storage, for a call that fails and one that gives a peer.\<close>

context endpoint_storage begin

lemma accept_failed:
  assumes "ep_ok ep" and "sys (sock s) (Some garbage) k = (BadFd, [], garbage, errno, k')"
  shows "accept_into raw of_raw resize sys garbage s ep k
    = Some (if unat garbage = raw_size then Returned (SocketResult_make errno BadFd, ep, k')
        else Terminated)"
  using assms of_raw_raw resize_same [of garbage] resize_other [of garbage]
  by (auto simp: accept_into_def accept_address_def Socket_native_def Let_def)

lemma accept_peer:
  assumes "ep_ok ep" and "length peer = raw_size"
    and "sys (sock s) (Some garbage) k = (newfd, take (unat garbage) peer, of_nat raw_size, errno, k')"
  shows "accept_into raw of_raw resize sys garbage s ep k
    = Some (Returned (SocketResult_make errno newfd,
        of_raw (take (unat garbage) peer @ drop (unat garbage) (raw ep)), k'))"
proof -
  have "unat (of_nat raw_size :: u32) = raw_size"
    using size_fits by (simp add: unat_of_nat take_bit_nat_eq_self)
  then show ?thesis
    using assms storage_length [OF assms(1)] resize_same [of "of_nat raw_size"]
    by (auto simp: accept_into_def accept_address_def Socket_native_def Let_def min_def)
qed

lemma accept_garbage:
  assumes "accept_documented sys k (sock s) newfd peer" and "ep_ok ep"
    and "newfd \<noteq> BadFd \<longrightarrow> length peer = raw_size"
  shows "(newfd = BadFd \<and> unat garbage \<noteq> raw_size \<longrightarrow>
          accept_into raw of_raw resize sys garbage s ep k = Some Terminated)
    \<and> (newfd \<noteq> BadFd \<longrightarrow> (\<exists>r ep' k'. accept_into raw of_raw resize sys garbage s ep k
          = Some (Returned (r, ep', k')) \<and> Socket_native (sr_socket r) = newfd
        \<and> (raw_size \<le> unat garbage \<longrightarrow> raw ep' = peer)
        \<and> (garbage = 0 \<longrightarrow> ep' = ep)))"
proof (cases "newfd = BadFd")
  case True
  then obtain errno k' where "sys (sock s) (Some garbage) k = (BadFd, [], garbage, errno, k')"
    using assms(1) unfolding accept_documented_def by metis
  with True accept_failed [OF assms(2), of sys s garbage k errno k'] show ?thesis by simp
next
  case False
  with assms(3) have len: "length peer = raw_size" by simp
  obtain errno k' where
    "sys (sock s) (Some garbage) k = (newfd, take (unat garbage) peer, of_nat raw_size, errno, k')"
    using assms(1) False len unfolding accept_documented_def by metis
  then have out: "accept_into raw of_raw resize sys garbage s ep k
      = Some (Returned (SocketResult_make errno newfd,
          of_raw (take (unat garbage) peer @ drop (unat garbage) (raw ep)), k'))"
    by (rule accept_peer [OF assms(2) len])
  have "raw (of_raw (take (unat garbage) peer @ drop (unat garbage) (raw ep))) = peer"
    if "raw_size \<le> unat garbage"
    using that len storage_length [OF assms(2)] raw_of_raw [OF len] by simp
  moreover have "of_raw (take (unat garbage) peer @ drop (unat garbage) (raw ep)) = ep"
    if "garbage = 0" using that of_raw_raw [OF assms(2)] by simp
  ultimately show ?thesis
    using out False by (simp add: SocketResult_make_def Socket_native_def Socket_make_def)
qed

end



text \<open>The same for an IPv6 endpoint, with its size of 28.\<close>

lemma accept6_depends_on_garbage:
  assumes "accept_documented sys k (sock s) newfd peer" and "IPv6_Endpoint_ok endpoint"
    and "newfd \<noteq> BadFd \<longrightarrow> length peer = 28"
  shows "(newfd = BadFd \<and> garbage \<noteq> 28 \<longrightarrow> accept_IPv6 sys e garbage s endpoint k = Some Terminated)
    \<and> (newfd \<noteq> BadFd \<longrightarrow> (\<exists>r ep k'. accept_IPv6 sys e garbage s endpoint k
          = Some (Returned (r, ep, k')) \<and> Socket_native (sr_socket r) = newfd
        \<and> (28 \<le> unat garbage \<longrightarrow> IPv6_Endpoint_data e ep = peer)
        \<and> (garbage = 0 \<longrightarrow> ep = endpoint)))"
  using st6.accept_garbage [OF assms] by (simp add: accept_IPv6_def word_unat_eq_iff)

text \<open>
  The documented behaviour of \<open>recv\<close> on memory: into a writable range it fails and changes
  nothing, or writes at most as many bytes as asked for at the start of the range and
  returns their number.
\<close>

definition recv_documented :: "memory sys_transfer \<Rightarrow> bool" where
  "recv_documented sys \<longleftrightarrow>
     (\<forall>fd p n m. readable m p (unat n) \<longrightarrow>
        (\<exists>errno. errno \<noteq> 0 \<and> sys fd p n 0 m = (-1, errno, m))
        \<or> (\<exists>xs m' errno. length xs \<le> unat n \<and> length xs < 2 ^ 63 \<and> store_bytes m p xs = Some m'
             \<and> sys fd p n 0 m = (of_nat (length xs), errno, m')))"

text \<open>Receiving into a static buffer: into the room there is, and commit what came.\<close>

definition recv_into ::
  "memory sys_transfer \<Rightarrow> Socket \<Rightarrow> StaticBuffer \<Rightarrow> memory \<Rightarrow> TransmitResult \<times> StaticBuffer \<times> memory" where
  "recv_into sys socket s m =
     (let (r, m) = recv_buffer sys socket (StaticBuffer_prepare s) m
      in (r, if TransmitResult_bool r then StaticBuffer_commit s (TransmitResult_bytes r) else s, m))"

text \<open>
  Receiving into a static buffer with \<open>prepare\<close> and \<open>commit\<close>: whatever the kernel
  does within its documented behaviour, the buffer stays well-formed and holds what it
  held before, followed by exactly the bytes received when the result converts to true.
  With a full buffer the result never does, so a full buffer looks like a closed
  connection or a failure.
\<close>

theorem recv_into_appends:
  assumes "recv_documented sys" and "StaticBuffer_ok m s" and "recv_into sys fd s m = (r, s', m')"
  shows "StaticBuffer_ok m' s'
    \<and> (\<exists>xs. StaticBuffer_content m' s' = StaticBuffer_content m s @ xs
          \<and> length xs = (if TransmitResult_bool r then unat (TransmitResult_bytes r) else 0))
    \<and> (sb_size s = sb_capacity s \<longrightarrow> \<not> TransmitResult_bool r)"
proof -
  let ?p = "ptr_add (sb_data s) (unat (sb_size s))" and ?n = "sb_capacity s - sb_size s"
  have n: "unat (sb_size s) + unat ?n = unat (sb_capacity s)"
    using assms(2) by (simp add: StaticBuffer_ok_def unat_sub word_le_nat_alt)
  have call: "recv_into sys fd s m = (case sys (sock fd) ?p ?n 0 m of (v, errno, m) \<Rightarrow>
      (TransmitResult_make errno v,
       if TransmitResult_bool (TransmitResult_make errno v) then StaticBuffer_commit s v else s, m))"
    by (simp add: recv_into_def recv_buffer_def recv_def transfer_def StaticBuffer_prepare_def
        MutableBuffer_make_def bufferCast_mutable_def bufferSize_mutable_def Socket_native_def
        TransmitResult_bytes_def TransmitResult_make_def case_prod_beta Let_def)
  have "readable m ?p (unat ?n)"
    using readable_sub [of m "sb_data s" "unat (sb_capacity s)" "unat (sb_size s)" "unat ?n"] n assms(2)
    by (simp add: StaticBuffer_ok_def)
  then consider (fail) errno where "sys (sock fd) ?p ?n 0 m = (-1, errno, m)"
    | (got) xs m1 errno where "length xs \<le> unat ?n" "length xs < 2 ^ 63" "store_bytes m ?p xs = Some m1"
      "sys (sock fd) ?p ?n 0 m = (of_nat (length xs), errno, m1)"
    using assms(1) unfolding recv_documented_def by metis
  then show ?thesis
  proof cases
    case fail
    with assms(2,3) call show ?thesis
      by (auto simp: TransmitResult_bool_def TransmitResult_make_def)
  next
    case got
    have "sint (of_nat (length xs) :: u64) = int (length xs)"
      using got(2) by (simp add: signed_of_nat signed_take_bit_int_eq_self)
    with got call have out: "recv_into sys fd s m = (TransmitResult_make errno (of_nat (length xs)),
        if xs \<noteq> [] then StaticBuffer_commit s (of_nat (length xs)) else s, m1)"
      by (simp add: TransmitResult_bool_def TransmitResult_make_def)
    have fits: "unat (sb_size s) + length xs \<le> unat (sb_capacity s)" using got(1) n by simp
    have len: "unat (of_nat (length xs) :: u64) = length xs"
      using got(2) by (simp add: unat_of_nat take_bit_nat_eq_self)
    show ?thesis
      using out assms(2,3) got(1,3) len \<open>sint _ = _\<close> StaticBuffer_append [OF assms(2) fits got(3)]
      by (auto simp: TransmitResult_bool_def TransmitResult_make_def TransmitResult_bytes_def
          store_bytes_def split: if_splits)
  qed
qed

text \<open>A kernel that delivers the byte 7 whenever there is room for it.\<close>

definition recv_seven :: "memory sys_transfer" where
  "recv_seven fd p n flags m =
     (if n = 0 then (-1, 11, m)
      else case store_bytes m p [7] of None \<Rightarrow> (-1, 14, m) | Some m' \<Rightarrow> (1, 0, m'))"

lemma recv_seven_documented: "recv_documented recv_seven"
  unfolding recv_documented_def
proof (intro allI impI)
  fix fd p n and m :: memory
  show "(\<exists>errno. errno \<noteq> 0 \<and> recv_seven fd p n 0 m = (-1, errno, m))
      \<or> (\<exists>xs m' errno. length xs \<le> unat n \<and> length xs < 2 ^ 63 \<and> store_bytes m p xs = Some m'
           \<and> recv_seven fd p n 0 m = (of_nat (length xs), errno, m'))"
  proof (cases "n = 0 \<or> store_bytes m p [7] = None")
    case True
    then show ?thesis by (auto simp: recv_seven_def)
  next
    case False
    then have "0 < unat n" by (simp add: unat_gt_0)
    with False show ?thesis
      by (intro disjI2 exI [of _ "[7]"]) (auto simp: recv_seven_def)
  qed
qed

theorem recv_into_appends_witness:
  "\<exists>r s' m'. recv_into recv_seven (Socket_make 3) (StaticBuffer_make (Pointer (Some 0) 0) 2) [0 \<mapsto> [0, 0]]
      = (r, s', m') \<and> TransmitResult_bool r \<and> StaticBuffer_ok m' s'"
proof -
  let ?m = "[0 \<mapsto> [0, 0 :: u8]]" and ?s = "StaticBuffer_make (Pointer (Some 0) 0) 2"
  have ok: "StaticBuffer_ok ?m ?s"
    by (simp add: StaticBuffer_ok_def StaticBuffer_make_def readable_def load_bytes_def)
  obtain r s' m' where out: "recv_into recv_seven (Socket_make 3) ?s ?m = (r, s', m')"
    by (metis prod_cases3)
  then have "TransmitResult_bool r"
    by (auto simp: recv_into_def recv_buffer_def recv_def transfer_def StaticBuffer_prepare_def
        MutableBuffer_make_def bufferCast_mutable_def bufferSize_mutable_def StaticBuffer_make_def
        recv_seven_def store_bytes_def TransmitResult_bool_def TransmitResult_make_def ptr_add_def)
  with recv_into_appends [OF recv_seven_documented ok out] out show ?thesis by blast
qed

text \<open>
  Binding to a port passes the kernel the socket address in its wire format, on a host
  of either byte order: family, port and address in network byte order, 16 bytes for IPv4
  and 28 for IPv6, where the scope of the address is lost.
\<close>

theorem bind_port_wire_format:
  assumes "length (s6_addr a6) = 16"
  shows "\<exists>bs4 bs6. length bs4 = 16 \<and> length bs6 = 28
    \<and> take 2 (drop 2 bs4) = rev (bytes_of_le 2 p) \<and> take 4 (drop 4 bs4) = IPv4_Address_toBytes e a4
    \<and> take 2 (drop 2 bs6) = rev (bytes_of_le 2 p) \<and> take 16 (drop 8 bs6) = IPv6_Address_toBytes a6
    \<and> drop 24 bs6 = [0, 0, 0, 0]
    \<and> bind_port_IPv4 sys e s p a4 k = bind_address sys s bs4 16 k
    \<and> bind_port_IPv6 sys e s p a6 k = bind_address sys s bs6 28 k"
proof -
  let ?bs4 = "IPv4_Endpoint_data e (IPv4_Endpoint_make e a4 p)"
    and ?bs6 = "IPv6_Endpoint_data e (IPv6_Endpoint_make e a6 p)"
  have "bytes_of_word e 4 (0 :: u32) = [0, 0, 0, 0]"
    by (cases e) (simp_all add: bytes_of_word_def bytes_of_le_4)
  with assms show ?thesis
    by (intro exI [of _ ?bs4] exI [of _ ?bs6])
      (simp add: IPv4_Endpoint_data_def IPv4_Endpoint_make_def IPv4_Endpoint_setPort_def
        IPv4_Endpoint_setAddress_def IPv4_Endpoint_default_def IPv4_Address_toUint_def ntoh_hton_32
        IPv4_Address_toBytes_def IPv6_Endpoint_data_def IPv6_Endpoint_make_def
        IPv6_Endpoint_setPort_def IPv6_Endpoint_setAddress_def IPv6_Endpoint_default_def
        IPv6_Address_toBytes_def bytes_of_hton16 bind_port_IPv4_def bind_port_IPv6_def bind_IPv4_def
        bind_IPv6_def IPv4_Endpoint_size_def IPv6_Endpoint_size_def)
qed

theorem bind_port_wire_format_witness:
  "\<exists>bs4 bs6. length bs4 = 16 \<and> length bs6 = 28 \<and> take 2 (drop 2 bs4) = rev (bytes_of_le 2 (80 :: u16))
     \<and> bind_port_IPv4 (\<lambda>fd addr len k. (0, 0, addr)) Little (Socket_make 3) 80 IPv4_Address_any []
        = (OpResult_make 0 0, bs4)
     \<and> bind_port_IPv6 (\<lambda>fd addr len k. (0, 0, addr)) Little (Socket_make 3) 80 IPv6_Address_any []
        = (OpResult_make 0 0, bs6)"
proof -
  have "length (s6_addr IPv6_Address_any) = 16"
    by (simp add: IPv6_Address_any_def IPv6_Address_default_def)
  from bind_port_wire_format [OF this, of 80 Little IPv4_Address_any "\<lambda>fd addr len k. (0, 0, addr)"
      "Socket_make 3" "[]"]
  show ?thesis by (auto simp: bind_address_def)
qed

end
