(* ===== verification/Nb_Resolve.thy ===== *)
theory Nb_Resolve
  imports Nb_SocketOps
begin

text \<open>
  \<open>netbox/resolve.h\<close>: name resolution with \<open>getaddrinfo\<close>, whose result is a linked list of
  nodes in a store, and \<open>examples/connect.cpp\<close>, which connects to the first endpoint of the
  list that accepts a connection.
\<close>

section \<open>The result of a resolution\<close>

record addrinfo =
  ai_family :: int
  ai_socktype :: int
  ai_protocol :: int
  ai_addr :: "u8 list"
  ai_addrlen :: u32
  ai_next :: "nat option"

type_synonym ai_store = "nat \<Rightarrow> addrinfo option"

text \<open>
  Endpoint, iterator and result hold a pointer to a node, None for the null pointer.
  Reading through a null or dangling pointer has no result.
\<close>

definition ai_deref :: "ai_store \<Rightarrow> nat option \<Rightarrow> addrinfo option" where
  "ai_deref st p = (case p of None \<Rightarrow> None | Some a \<Rightarrow> st a)"

definition Resolved_make :: "nat option \<Rightarrow> nat option" where
  "Resolved_make data = data"

definition Resolved_bool :: "nat option \<Rightarrow> bool" where
  "Resolved_bool p \<longleftrightarrow> p \<noteq> None"

definition Resolved_domain :: "ai_store \<Rightarrow> nat option \<Rightarrow> int option" where
  "Resolved_domain st p = map_option ai_family (ai_deref st p)"

definition Resolved_type :: "ai_store \<Rightarrow> nat option \<Rightarrow> int option" where
  "Resolved_type st p = map_option ai_socktype (ai_deref st p)"

definition Resolved_protocol :: "ai_store \<Rightarrow> nat option \<Rightarrow> int option" where
  "Resolved_protocol st p = map_option ai_protocol (ai_deref st p)"

definition Resolved_data :: "ai_store \<Rightarrow> nat option \<Rightarrow> u8 list option" where
  "Resolved_data st p = map_option ai_addr (ai_deref st p)"

definition Resolved_size :: "ai_store \<Rightarrow> nat option \<Rightarrow> u32 option" where
  "Resolved_size st p = map_option ai_addrlen (ai_deref st p)"

definition Iterator_make :: "nat option \<Rightarrow> nat option" where
  "Iterator_make data = data"

lemmas result_constructors [simp] = Resolved_make_def Iterator_make_def

definition Iterator_next :: "ai_store \<Rightarrow> nat option \<Rightarrow> nat option option" where
  "Iterator_next st p =
     (if p \<noteq> None then do { x \<leftarrow> ai_deref st p; Some (ai_next x) } else Some p)"

definition Iterator_eq :: "nat option \<Rightarrow> nat option \<Rightarrow> bool" where
  "Iterator_eq p q \<longleftrightarrow> p = q"

definition Iterator_neq :: "nat option \<Rightarrow> nat option \<Rightarrow> bool" where
  "Iterator_neq p q \<longleftrightarrow> p \<noteq> q"

text \<open>An iterator gives the endpoint of its node.\<close>

definition Iterator_deref :: "nat option \<Rightarrow> nat option" where
  "Iterator_deref p = Resolved_make p"

text \<open>
  The result owns the list: its deleter, and so its destructor, calls \<open>freeaddrinfo\<close> with
  the head unless that is null. The effect is the list of the calls.
\<close>

definition ai_delete :: "nat option \<Rightarrow> nat list" where
  "ai_delete a = (case a of None \<Rightarrow> [] | Some p \<Rightarrow> [p])"

definition Result_default :: "nat option" where
  "Result_default = None"

definition Result_make :: "nat option \<Rightarrow> nat option" where
  "Result_make data = data"

definition Result_begin :: "nat option \<Rightarrow> nat option" where
  "Result_begin data = Iterator_make data"

definition Result_end :: "nat option \<Rightarrow> nat option" where
  "Result_end data = Iterator_make None"

definition Result_bool :: "nat option \<Rightarrow> bool" where
  "Result_bool data \<longleftrightarrow> data \<noteq> None"

text \<open>
  \<open>toString\<close> of an endpoint hands \<open>inet_ntop\<close> the address of the \<open>sockaddr\<close>: of the bytes
  there it reads as many as an address of the family has. \<open>INET_ADDRSTRLEN\<close> is 16.
\<close>

definition Resolved_toString ::
  "(int \<Rightarrow> u8 list \<Rightarrow> nat \<Rightarrow> string option) \<Rightarrow> ai_store \<Rightarrow> nat option \<Rightarrow> string option" where
  "Resolved_toString ntop st p =
     do { domain \<leftarrow> Resolved_domain st p;
          addr \<leftarrow> Resolved_data st p;
          Some (case ntop domain (take (if domain = AF_INET6 then 16 else 4) addr) 16 of
                  None \<Rightarrow> '''' | Some s \<Rightarrow> c_str s) }"

section \<open>resolve\<close>

text \<open>
  \<open>getaddrinfo\<close> gets the node and service names, either may be null, and the hints; it
  answers with the head of the list, null if it fails, and the store of the nodes.
\<close>

type_synonym getaddrinfo = "string option \<Rightarrow> string option \<Rightarrow> Protocol \<Rightarrow> nat option \<times> ai_store"

definition resolve_c ::
  "getaddrinfo \<Rightarrow> Protocol \<Rightarrow> string option \<Rightarrow> string option \<Rightarrow> nat option \<times> ai_store" where
  "resolve_c gai protocol address port =
     (case gai address port protocol of (result, st) \<Rightarrow> (Result_make result, st))"

definition resolve_views :: "getaddrinfo \<Rightarrow> Protocol \<Rightarrow> string \<Rightarrow> string \<Rightarrow> nat option \<times> ai_store" where
  "resolve_views gai protocol address port =
     resolve_c gai protocol (Some (c_str address)) (Some (c_str port))"

fun rfind :: "char \<Rightarrow> string \<Rightarrow> nat option" where
  "rfind c [] = None"
| "rfind c (x # xs) =
     (case rfind c xs of Some i \<Rightarrow> Some (Suc i) | None \<Rightarrow> if x = c then Some 0 else None)"

definition resolve :: "getaddrinfo \<Rightarrow> Protocol \<Rightarrow> string \<Rightarrow> nat option \<times> ai_store" where
  "resolve gai protocol address =
     (case rfind (CHR '':'') address of
        Some found \<Rightarrow> resolve_views gai protocol (take found address) (drop (found + 1) address)
      | None \<Rightarrow> resolve_c gai protocol (Some (c_str address)) None)"

section \<open>Walking the list\<close>

text \<open>\<open>for (auto ep: result)\<close>; a list with a cycle would be walked for ever.\<close>

partial_function (option) walk :: "ai_store \<Rightarrow> nat option \<Rightarrow> nat option list option" where
  "walk st it =
     (if \<not> Iterator_neq it (Result_end it) then Some []
      else do { next \<leftarrow> Iterator_next st it; eps \<leftarrow> walk st next; Some (Iterator_deref it # eps) })"

text \<open>The documented result of \<open>getaddrinfo\<close>: a list of nodes that ends.\<close>

primrec ai_chain :: "ai_store \<Rightarrow> nat option \<Rightarrow> (nat \<times> addrinfo) list \<Rightarrow> bool" where
  "ai_chain st p [] \<longleftrightarrow> p = None"
| "ai_chain st p (y # ys) \<longleftrightarrow> p = Some (fst y) \<and> st (fst y) = Some (snd y) \<and> ai_chain st (ai_next (snd y)) ys"

lemmas iterator_defs =
  Iterator_neq_def Iterator_deref_def Iterator_next_def Result_end_def ai_deref_def

lemma walk_chain: "ai_chain st p ys \<Longrightarrow> walk st p = Some (map (Some \<circ> fst) ys)"
proof (induction ys arbitrary: p)
  case Nil
  then show ?case by (simp add: walk.simps Iterator_neq_def Result_end_def)
next
  case (Cons y ys)
  then have "walk st (ai_next (snd y)) = Some (map (Some \<circ> fst) ys)" by simp
  with Cons.prems show ?case
    by (subst walk.simps) (simp add: iterator_defs)
qed

section \<open>The program examples/connect.cpp\<close>

text \<open>
  The loop with its log of closed descriptors: the socket of an attempt is destroyed at the
  end of each iteration, also when it has been moved from.
\<close>

partial_function (option) connect_loop ::
  "(int \<Rightarrow> string) \<Rightarrow> (int \<Rightarrow> int \<Rightarrow> int \<Rightarrow> 'k \<Rightarrow> int \<times> int \<times> 'k)
     \<Rightarrow> (int \<Rightarrow> u8 list \<Rightarrow> u32 \<Rightarrow> 'k \<Rightarrow> int \<times> int \<times> 'k) \<Rightarrow> ai_store \<Rightarrow> nat option \<Rightarrow> 'k \<Rightarrow> int list
     \<Rightarrow> ((exn + Socket) \<times> 'k \<times> int list) option" where
  "connect_loop strerror sys_socket sys_connect st it k closed =
     (if \<not> Iterator_neq it (Result_end it) then Some (Inr Socket_default, k, closed)
      else do {
        let ep = Iterator_deref it;
        domain \<leftarrow> Resolved_domain st ep;
        type \<leftarrow> Resolved_type st ep;
        protocol \<leftarrow> Resolved_protocol st ep;
        addr \<leftarrow> Resolved_data st ep;
        addrlen \<leftarrow> Resolved_size st ep;
        case Socket_create strerror sys_socket domain type protocol k of
          (Inl exc, k) \<Rightarrow> Some (Inl exc, k, closed)
        | (Inr s, k) \<Rightarrow>
            (case connect sys_connect s addr addrlen k of (r, k) \<Rightarrow>
               if OpResult_bool r then
                 (case Socket_move_assign False Socket_default s of (socket, s) \<Rightarrow>
                    Some (Inr socket, k, closed @ Socket_destroy s))
               else do {
                 next \<leftarrow> Iterator_next st it;
                 connect_loop strerror sys_socket sys_connect st next k (closed @ Socket_destroy s) }) })"

text \<open>
  The attempts on the endpoints of the list in order, up to the first that does not just
  fail to connect.
\<close>

datatype attempt = Create_failed exn | Connect_failed int | Connected int

primrec attempts ::
  "(int \<Rightarrow> string) \<Rightarrow> (int \<Rightarrow> int \<Rightarrow> int \<Rightarrow> 'k \<Rightarrow> int \<times> int \<times> 'k)
     \<Rightarrow> (int \<Rightarrow> u8 list \<Rightarrow> u32 \<Rightarrow> 'k \<Rightarrow> int \<times> int \<times> 'k) \<Rightarrow> addrinfo list \<Rightarrow> 'k \<Rightarrow> attempt list \<times> 'k" where
  "attempts strerror sys_socket sys_connect [] k = ([], k)"
| "attempts strerror sys_socket sys_connect (x # xs) k =
     (case sys_socket (ai_family x) (ai_socktype x) (ai_protocol x) k of (fd, errno, k) \<Rightarrow>
        if fd = -1 then
          ([Create_failed (SocketError (''error.'' @ to_string_int errno @ '' socket ('' @ strerror errno @ '')''))], k)
        else
          (case sys_connect fd (ai_addr x) (ai_addrlen x) k of (rc, errno, k) \<Rightarrow>
             if rc = 0 then ([Connected fd], k)
             else (case attempts strerror sys_socket sys_connect xs k of (as, k) \<Rightarrow>
                     (Connect_failed fd # as, k))))"

text \<open>What the program is left with, and what it has closed, after these attempts.\<close>

fun attempts_result :: "attempt list \<Rightarrow> exn + Socket" where
  "attempts_result [] = Inr Socket_default"
| "attempts_result (Create_failed exc # as) = Inl exc"
| "attempts_result (Connected fd # as) = Inr (Socket_make fd)"
| "attempts_result (Connect_failed fd # as) = attempts_result as"

fun attempts_closed :: "attempt list \<Rightarrow> int list" where
  "attempts_closed [] = []"
| "attempts_closed (Connect_failed fd # as) = fd # attempts_closed as"
| "attempts_closed (a # as) = attempts_closed as"

lemma connect_loop_attempts:
  assumes "ai_chain st p ys"
  shows "connect_loop strerror sys_socket sys_connect st p k closed =
    (case attempts strerror sys_socket sys_connect (map snd ys) k of (as, k) \<Rightarrow>
       Some (attempts_result as, k, closed @ attempts_closed as))"
  using assms
proof (induction ys arbitrary: p k closed)
  case Nil
  then show ?case by (simp add: connect_loop.simps Iterator_neq_def Result_end_def)
next
  case (Cons y ys)
  then have y: "p = Some (fst y)" "st (fst y) = Some (snd y)" "ai_chain st (ai_next (snd y)) ys"
    by simp_all
  show ?case
    by (subst connect_loop.simps)
      (simp add: y Cons.IH [OF y(3)] iterator_defs
        Resolved_domain_def Resolved_type_def Resolved_protocol_def Resolved_data_def
        Resolved_size_def Socket_create_def connect_def throwEx_ec_def ErrorCode_native_def
        ErrorCode_str_def ErrorCode_make_def BadFd_def Socket_make_def Socket_native_def
        OpResult_bool_def OpResult_make_def Socket_move_assign_def Socket_swap_def
        Socket_default_def Socket_destroy_def case_prod_beta Let_def split: prod.splits)
qed

text \<open>
  \<open>main\<close> of \<open>examples/connect.cpp\<close>, on the arguments after the program's name: the exit
  status, what it reports, the kernel, the descriptors that have been closed in the end,
  and the lists that have been freed.
\<close>

datatype connect_report = Connect_usage | Connect_error exn | Connect_ok | Connect_none

definition connect_main ::
  "(int \<Rightarrow> string) \<Rightarrow> (int \<Rightarrow> int \<Rightarrow> int \<Rightarrow> 'k \<Rightarrow> int \<times> int \<times> 'k)
     \<Rightarrow> (int \<Rightarrow> u8 list \<Rightarrow> u32 \<Rightarrow> 'k \<Rightarrow> int \<times> int \<times> 'k) \<Rightarrow> getaddrinfo \<Rightarrow> string list \<Rightarrow> 'k
     \<Rightarrow> (int \<times> connect_report \<times> 'k \<times> int list \<times> nat list) option" where
  "connect_main strerror sys_socket sys_connect gai args k =
     (case args of
        [] \<Rightarrow> Some (1, Connect_usage, k, [], [])
      | arg # rest \<Rightarrow>
          (case resolve gai TCPAny arg of (data, st) \<Rightarrow>
             if \<not> Result_bool data
             then Some (1, Connect_error (runtime_error ''Resolve error''), k, [], ai_delete data)
             else do {
               (r, k, closed) \<leftarrow> connect_loop strerror sys_socket sys_connect st (Result_begin data) k [];
               case r of
                 Inl exc \<Rightarrow> Some (1, Connect_error exc, k, closed, ai_delete data)
               | Inr socket \<Rightarrow>
                   Some (0, if Socket_bool socket then Connect_ok else Connect_none, k,
                         closed @ Socket_destroy socket, ai_delete data) }))"

section \<open>Properties\<close>

lemma rfind_None: "rfind c xs = None \<longleftrightarrow> c \<notin> set xs"
  by (induction xs) (auto split: option.splits)

lemma rfind_last: "c \<notin> set ys \<Longrightarrow> rfind c (xs @ c # ys) = Some (length xs)"
proof (induction xs)
  case Nil
  then show ?case using rfind_None [of c ys] by simp
qed simp

text \<open>
  C30. \<open>resolve\<close> of one text asks \<open>getaddrinfo\<close> for the part before the last colon with the
  part after it as the service, and for the whole text without a service if there is no
  colon. The part before may have colons itself, so an IPv6 address without a port is
  taken apart too.
\<close>

theorem resolve_splits_at_last_colon:
  assumes "CHR '':'' \<notin> set port" and "CHR 0x00 \<notin> set (host @ port)"
  shows "resolve gai protocol (host @ '':'' @ port) = gai (Some host) (Some port) protocol
    \<and> resolve gai protocol port = gai (Some port) None protocol"
proof -
  have "rfind (CHR '':'') (host @ '':'' @ port) = Some (length host)"
    using rfind_last [OF assms(1), of host] by simp
  with assms show ?thesis
    by (simp add: resolve_def resolve_views_def resolve_c_def Result_make_def c_str_id rfind_None [THEN iffD2])
qed

theorem resolve_splits_at_last_colon_witness:
  "resolve (\<lambda>node service hints. (if node = Some '':'' \<and> service = Some ''1'' then Some 0 else None, \<lambda>a. None))
     TCPv6 ''::1'' = (Some 0, \<lambda>a. None)"
  using resolve_splits_at_last_colon [of "''1''" "'':''"
      "\<lambda>node service hints. (if node = Some '':'' \<and> service = Some ''1'' then Some 0 else None, \<lambda>a. None)" TCPv6]
  by simp

text \<open>
  The loop over the result of a resolution visits the endpoints of the list in order,
  each of them once, and ends.
\<close>

theorem resolved_endpoints_in_order:
  assumes "ai_chain st p ys"
  shows "\<exists>eps. walk st (Result_begin p) = Some eps
    \<and> map (ai_deref st) eps = map (Some \<circ> snd) ys"
proof -
  have "map (ai_deref st) (map (Some \<circ> fst) ys) = map (Some \<circ> snd) ys"
    using assms by (induction ys arbitrary: p) (auto simp: ai_deref_def)
  with walk_chain [OF assms] show ?thesis by (simp add: Result_begin_def)
qed

text \<open>A list of two nodes.\<close>

definition sample_info :: "int \<Rightarrow> nat option \<Rightarrow> addrinfo" where
  "sample_info family next =
     \<lparr>ai_family = family, ai_socktype = SOCK_STREAM, ai_protocol = 0, ai_addr = [], ai_addrlen = 0,
      ai_next = next\<rparr>"

definition sample_store :: ai_store where
  "sample_store = [3 \<mapsto> sample_info AF_INET6 (Some 1), 1 \<mapsto> sample_info AF_INET None]"

lemma sample_chain:
  "ai_chain sample_store (Some 3)
     [(3, sample_info AF_INET6 (Some 1)), (1, sample_info AF_INET None)]"
  by (simp add: sample_store_def sample_info_def)

theorem resolved_endpoints_in_order_witness:
  "\<exists>eps. walk sample_store (Result_begin (Some 3)) = Some eps
     \<and> map (ai_deref sample_store) eps
         = [Some (sample_info AF_INET6 (Some 1)), Some (sample_info AF_INET None)]"
  using resolved_endpoints_in_order [OF sample_chain] by simp

lemma attempts_shape:
  assumes "attempts strerror sys_socket sys_connect xs k = (as, k')"
  shows "(\<forall>s. attempts_result as = Inr s \<and> Socket_bool s \<longrightarrow> as \<noteq> [] \<and> last as = Connected (sock s))
    \<and> (\<forall>a\<in>set (butlast as). \<exists>fd. a = Connect_failed fd)"
  using assms
proof (induction xs arbitrary: k as)
  case Nil
  then show ?case by (auto simp: Socket_bool_def Socket_default_def)
next
  case (Cons x xs)
  then show ?case
    by (fastforce simp: Socket_make_def Socket_bool_def Socket_default_def split: prod.splits if_splits)
qed

lemma attempts_connected:
  assumes "attempts strerror sys_socket sys_connect xs k = (as, k')"
  shows "(\<exists>s. attempts_result as = Inr s \<and> Socket_bool s) \<longleftrightarrow> (\<exists>fd. as \<noteq> [] \<and> last as = Connected fd)"
  using assms
proof (induction xs arbitrary: k as)
  case Nil
  then show ?case by (auto simp: Socket_bool_def Socket_default_def)
next
  case (Cons x xs)
  show ?case
  proof (cases "as = [] \<or> (\<exists>a. as = [a])")
    case True
    with Cons.prems show ?thesis
      by (auto simp: Socket_make_def Socket_bool_def Socket_default_def BadFd_def split: prod.splits if_splits)
  next
    case False
    with Cons.prems obtain fd bs k1 where "as = Connect_failed fd # bs" "bs \<noteq> []"
      "attempts strerror sys_socket sys_connect xs k1 = (bs, k')"
      by (auto split: prod.splits if_splits)
    with Cons.IH show ?thesis by auto
  qed
qed

text \<open>The descriptors that the attempts obtained, in order.\<close>

definition attempts_fds :: "attempt list \<Rightarrow> int list" where
  "attempts_fds as = concat (map (\<lambda>a. case a of Create_failed exc \<Rightarrow> [] | Connect_failed fd \<Rightarrow> [fd]
     | Connected fd \<Rightarrow> [fd]) as)"

lemma attempts_close_all:
  assumes "attempts strerror sys_socket sys_connect xs k = (as, k')"
  shows "attempts_closed as @ (case attempts_result as of Inl exc \<Rightarrow> [] | Inr s \<Rightarrow> Socket_destroy s)
    = attempts_fds as"
  using assms
proof (induction xs arbitrary: k as)
  case Nil
  then show ?case by (auto simp: attempts_fds_def Socket_destroy_def Socket_default_def)
next
  case (Cons x xs)
  then show ?case
    by (auto simp: attempts_fds_def Socket_destroy_def Socket_make_def BadFd_def
        split: prod.splits if_splits)
qed

text \<open>
  C29. \<open>examples/connect.cpp\<close> as a whole: on a host that resolves, it attempts the endpoints
  in order, up to the first that connects or whose socket cannot be created; it reports
  success exactly if the last attempt connected; and at its end every descriptor it
  obtained has been closed once, in the order they were obtained, and the list of endpoints
  has been freed once.
\<close>

theorem connect_main_outcome:
  assumes "resolve gai TCPAny arg = (p, st)" and "p \<noteq> None" and "ai_chain st p ys"
    and "attempts strerror sys_socket sys_connect (map snd ys) k = (as, k')"
  shows "\<exists>status report. connect_main strerror sys_socket sys_connect gai (arg # rest) k
      = Some (status, report, k', attempts_fds as, [the p])
    \<and> (report = Connect_ok \<longleftrightarrow> (\<exists>fd. as \<noteq> [] \<and> last as = Connected fd))
    \<and> (status = 1 \<longleftrightarrow> (\<exists>exc. report = Connect_error exc))
    \<and> (\<forall>a\<in>set (butlast as). \<exists>fd. a = Connect_failed fd)"
proof -
  have loop: "connect_loop strerror sys_socket sys_connect st p k [] = Some (attempts_result as, k', attempts_closed as)"
    using connect_loop_attempts [OF assms(3), of strerror sys_socket sys_connect k "[]"] assms(4) by simp
  have last: "(\<exists>s. attempts_result as = Inr s \<and> Socket_bool s) \<longleftrightarrow> (\<exists>fd. as \<noteq> [] \<and> last as = Connected fd)"
    using attempts_connected [OF assms(4)] .
  note close = attempts_close_all [OF assms(4)] and shape = attempts_shape [OF assms(4), THEN conjunct2]
  show ?thesis
  proof (cases "attempts_result as")
    case (Inl exc)
    with assms(1,2) loop last close shape show ?thesis
      by (auto simp: connect_main_def Result_bool_def Result_begin_def ai_delete_def)
  next
    case (Inr s)
    with assms(1,2) loop last close shape show ?thesis
      by (auto simp: connect_main_def Result_bool_def Result_begin_def ai_delete_def)
  qed
qed

theorem connect_main_outcome_witness:
  "\<exists>status. connect_main (\<lambda>n. []) (\<lambda>family type protocol k. (k, 0, k + 1))
     (\<lambda>fd addr len k. if fd = 5 then (-1, 111, k) else (0, 0, k)) (\<lambda>node service hints. (Some 3, sample_store))
     [''host:80''] 5
   = Some (status, Connect_ok, 7, [5, 6], [3])"
proof -
  have "attempts (\<lambda>n. []) (\<lambda>family type protocol k. (k, 0, k + 1))
      (\<lambda>fd addr len k. if fd = 5 then (-1, 111, k) else (0, 0, k))
      (map snd [(3, sample_info AF_INET6 (Some 1)), (1, sample_info AF_INET None)]) 5
    = ([Connect_failed 5, Connected 6], 7)"
    by simp
  from connect_main_outcome [OF _ _ sample_chain this,
      of "\<lambda>node service hints. (Some 3, sample_store)" "''host:80''" "[]"]
  show ?thesis
    by (auto simp: resolve_def resolve_views_def resolve_c_def Result_make_def attempts_fds_def)
qed

text \<open>
  The text of a resolved IPv4 endpoint does not depend on its address: \<open>inet_ntop\<close> is
  given the start of the \<open>sockaddr\<close>, so it formats the bytes of the family and the port.
\<close>

theorem resolved_text_is_family_and_port:
  assumes "ai_deref st p = Some x" and "ai_family x = AF_INET"
    and "ai_addr x = IPv4_Endpoint_data e (IPv4_Endpoint_make e a port)"
  shows "Resolved_toString ntop st p =
    Some (case ntop AF_INET (bytes_of_word e 2 (2 :: u16) @ rev (bytes_of_le 2 port)) 16 of
            None \<Rightarrow> '''' | Some s \<Rightarrow> c_str s)"
  using assms
  by (simp add: Resolved_toString_def Resolved_domain_def Resolved_data_def AF_INET_def AF_INET6_def
      IPv4_Endpoint_data_def IPv4_Endpoint_make_def IPv4_Endpoint_setPort_def
      IPv4_Endpoint_setAddress_def IPv4_Endpoint_default_def bytes_of_hton16)

theorem resolved_text_is_family_and_port_witness:
  "Resolved_toString (\<lambda>family bs n. Some (map (\<lambda>b. char_of (unat b + 48)) bs))
     [0 \<mapsto> (sample_info AF_INET None)\<lparr>ai_addr :=
        IPv4_Endpoint_data Little (IPv4_Endpoint_make Little (IPv4_Address_loopback Little) 5)\<rparr>] (Some 0)
   = Some ''2005''"
proof -
  let ?x = "(sample_info AF_INET None)\<lparr>ai_addr :=
      IPv4_Endpoint_data Little (IPv4_Endpoint_make Little (IPv4_Address_loopback Little) 5)\<rparr>"
  let ?st = "[0 \<mapsto> ?x]"
  have b: "bytes_of_word Little 2 (2 :: u16) @ rev (bytes_of_le 2 (5 :: u16)) = [2, 0, 0, 5]"
    by (simp add: bytes_of_word_def bytes_of_le_2)
  have "ai_deref ?st (Some 0) = Some ?x" "ai_family ?x = AF_INET"
    "ai_addr ?x = IPv4_Endpoint_data Little (IPv4_Endpoint_make Little (IPv4_Address_loopback Little) 5)"
    by (simp_all add: ai_deref_def sample_info_def)
  from resolved_text_is_family_and_port [OF this] show ?thesis
    unfolding b by (simp add: c_str_def char_of_eq_iff)
qed

end
