(* ===== verification/Nb_Accept.thy ===== *)
theory Nb_Accept
  imports Nb_SocketOps
begin

text \<open>
  \<open>examples/accept.cpp\<close>: a server that binds to the port given on the command line and
  accepts one connection.
\<close>

section \<open>The program\<close>

text \<open>\<open>std::atoi\<close>: white space, a sign, and the digits up to the first other character.\<close>

definition digit_of :: "char \<Rightarrow> int" where
  "digit_of c = int (of_char c :: nat) - 48"

definition isdigit :: "char \<Rightarrow> bool" where
  "isdigit c \<longleftrightarrow> 0 \<le> digit_of c \<and> digit_of c \<le> 9"

definition isspace :: "char \<Rightarrow> bool" where
  "isspace c \<longleftrightarrow> (of_char c :: nat) \<in> {9, 10, 11, 12, 13, 32}"

definition digits_value :: "string \<Rightarrow> int" where
  "digits_value s = foldl (\<lambda>n c. 10 * n + digit_of c) 0 (takeWhile isdigit s)"

text \<open>None is a number outside the range of \<open>int\<close>, for which \<open>atoi\<close> is undefined.\<close>

definition atoi :: "string \<Rightarrow> int option" where
  "atoi s =
     (let v = (case dropWhile isspace s of
                 [] \<Rightarrow> 0
               | c # cs \<Rightarrow>
                   if c = CHR ''-'' then - digits_value cs
                   else if c = CHR ''+'' then digits_value cs
                   else digits_value (c # cs))
      in if - 2147483648 \<le> v \<and> v \<le> 2147483647 then Some v else None)"

text \<open>From the arguments after the program's name to the address and the port.\<close>

definition accept_endpoint ::
  "(int \<Rightarrow> string \<Rightarrow> int \<times> u8 list) \<Rightarrow> endian \<Rightarrow> string \<Rightarrow> string option
     \<Rightarrow> (exn + IPv4_Address \<times> u16) option" where
  "accept_endpoint pton e arg1 arg2 =
     do { port \<leftarrow> atoi arg1;
          Some (if port \<le> 0 \<or> port > 65536 then throwEx runtime_error ''Port out of range''
                else
                  case (case arg2 of
                          Some s \<Rightarrow> IPv4_addressFromString pton e s
                        | None \<Rightarrow> Inr IPv4_Address_any) of
                    Inl x \<Rightarrow> Inl x
                  | Inr address \<Rightarrow> Inr (address, word_of_int port)) }"

text \<open>What lies outside the program: the system calls and the conversions of \<open>libc\<close>.\<close>

record 'k server_sys =
  sv_strerror :: "int \<Rightarrow> string"
  sv_pton :: "int \<Rightarrow> string \<Rightarrow> int \<times> u8 list"
  sv_ntop :: "int \<Rightarrow> u8 list \<Rightarrow> nat \<Rightarrow> string option"
  sv_socket :: "int \<Rightarrow> int \<Rightarrow> int \<Rightarrow> 'k \<Rightarrow> int \<times> int \<times> 'k"
  sv_setsockopt :: "int \<Rightarrow> int \<Rightarrow> int \<Rightarrow> u8 list \<Rightarrow> u32 \<Rightarrow> 'k \<Rightarrow> int \<times> int \<times> 'k"
  sv_bind :: "int \<Rightarrow> u8 list \<Rightarrow> u32 \<Rightarrow> 'k \<Rightarrow> int \<times> int \<times> 'k"
  sv_listen :: "int \<Rightarrow> int \<Rightarrow> 'k \<Rightarrow> int \<times> int \<times> 'k"
  sv_accept :: "'k sys_accept"

text \<open>
  The program: its exit status (0 is success), the lines it prints, the kernel after it,
  and the descriptors its destructors close, the connection before the listening socket.
  The results of the option, of \<open>bind\<close> and of \<open>listen\<close> are only printed.
\<close>

datatype report =
    Usage
  | Address_line string
  | Option_failed string
  | Bind_failed string
  | Listen_failed string
  | Accepted string u16
  | Accept_failed string
  | Exception exn

definition report_unless :: "(string \<Rightarrow> report) \<Rightarrow> (int \<Rightarrow> string) \<Rightarrow> OpResult \<Rightarrow> report list" where
  "report_unless line strerror r =
     (if \<not> OpResult_bool r then [line (ErrorCode_str strerror r)] else [])"

definition accept_serve ::
  "'k server_sys \<Rightarrow> endian \<Rightarrow> u32 \<Rightarrow> IPv4_Endpoint \<Rightarrow> Socket \<Rightarrow> 'k
     \<Rightarrow> (report list \<times> 'k \<times> int list) noexcept option" where
  "accept_serve sys e garbage endpoint socket k =
     (let opt = Options_ReuseAddr True;
          (r1, k) = setOption (sv_setsockopt sys) socket (BooleanOption_level opt) (BooleanOption_name opt)
                      (BooleanOption_data e opt) (BooleanOption_size opt) k;
          (r2, k) = bind_IPv4 (sv_bind sys) e socket endpoint k;
          (r3, k) = listen (sv_listen sys) socket 10 k;
          out = report_unless Option_failed (sv_strerror sys) r1
                @ report_unless Bind_failed (sv_strerror sys) r2
                @ report_unless Listen_failed (sv_strerror sys) r3
      in case accept_IPv4 (sv_accept sys) e garbage socket IPv4_Endpoint_default k of
           None \<Rightarrow> None
         | Some Terminated \<Rightarrow> Some Terminated
         | Some (Returned (result, client, k)) \<Rightarrow>
             Some (Returned
               (out @ [if SocketResult_bool result
                       then Accepted (IPv4_toString (sv_ntop sys) e (IPv4_Endpoint_address e client))
                              (IPv4_Endpoint_port e client)
                       else Accept_failed (ErrorCode_str (sv_strerror sys) result)],
                k, Socket_destroy (SocketResult_getSocket result) @ Socket_destroy socket)))"

definition accept_main ::
  "'k server_sys \<Rightarrow> endian \<Rightarrow> u32 \<Rightarrow> string list \<Rightarrow> 'k
     \<Rightarrow> (int \<times> report list \<times> 'k \<times> int list) noexcept option" where
  "accept_main sys e garbage args k =
     (case args of
        [] \<Rightarrow> Some (Returned (1, [Usage], k, []))
      | arg1 # rest \<Rightarrow>
          do { x \<leftarrow> accept_endpoint (sv_pton sys) e arg1 (case rest of [] \<Rightarrow> None | s # _ \<Rightarrow> Some s);
               case x of
                 Inl exc \<Rightarrow> Some (Returned (1, [Exception exc], k, []))
               | Inr (address, port) \<Rightarrow>
                   let line = Address_line (IPv4_toString (sv_ntop sys) e address);
                       endpoint = IPv4_Endpoint_make e address port
                   in case Socket_create (sv_strerror sys) (sv_socket sys) AF_INET SOCK_STREAM 0 k of
                        (Inl exc, k) \<Rightarrow> Some (Returned (1, [line, Exception exc], k, []))
                      | (Inr socket, k) \<Rightarrow>
                          map_option (\<lambda>r. case r of
                              Terminated \<Rightarrow> Terminated
                            | Returned (out, k, closed) \<Rightarrow> Returned (0, line # out, k, closed))
                            (accept_serve sys e garbage endpoint socket k) })"

text \<open>
  A kernel that keeps a log of the calls, answers with the given values, and whose \<open>accept\<close>
  does as documented for a peer with the given address.
\<close>

datatype server_call = Call_setsockopt | Call_bind "u8 list" | Call_listen int | Call_accept

definition logging_sys ::
  "(int \<Rightarrow> string) \<Rightarrow> (int \<Rightarrow> string \<Rightarrow> int \<times> u8 list) \<Rightarrow> (int \<Rightarrow> u8 list \<Rightarrow> nat \<Rightarrow> string option)
     \<Rightarrow> int \<Rightarrow> int \<Rightarrow> int \<Rightarrow> int \<Rightarrow> int \<Rightarrow> u8 list \<Rightarrow> server_call list server_sys" where
  "logging_sys strerror pton ntop fd r1 r2 r3 newfd peer =
     \<lparr>sv_strerror = strerror, sv_pton = pton, sv_ntop = ntop,
      sv_socket = \<lambda>family sockType protocol k. (fd, 0, k),
      sv_setsockopt = \<lambda>fd level name bs n k. (r1, 22, k @ [Call_setsockopt]),
      sv_bind = \<lambda>fd bs n k. (r2, 98, k @ [Call_bind bs]),
      sv_listen = \<lambda>fd backlog k. (r3, 98, k @ [Call_listen backlog]),
      sv_accept = \<lambda>fd len k.
        if newfd = BadFd then (BadFd, [], the len, 24, k @ [Call_accept])
        else (newfd, take (unat (the len)) peer, of_nat (length peer), 0, k @ [Call_accept])\<rparr>"

lemma accept_logging:
  assumes "16 \<le> unat garbage" and "length peer = 16"
  shows "accept_IPv4 (sv_accept (logging_sys strerror pton ntop fd r1 r2 r3 newfd peer)) e garbage s
      IPv4_Endpoint_default k
    = Some (if newfd = BadFd
        then if garbage = 16
          then Returned (SocketResult_make 24 BadFd, IPv4_Endpoint_default, k @ [Call_accept])
          else Terminated
        else Returned (SocketResult_make 0 newfd, IPv4_Endpoint_of_data e peer, k @ [Call_accept]))"
proof -
  have "length (IPv4_Endpoint_data e IPv4_Endpoint_default) = 16"
    by (simp add: IPv4_Endpoint_data_def IPv4_Endpoint_default_def)
  with assms show ?thesis
    by (simp add: accept_IPv4_def accept_into_def logging_sys_def accept_address_def
        IPv4_Endpoint_resize_def throwEx_def Endpoint_of_data_data Let_def)
qed

section \<open>Properties\<close>

text \<open>
  The port of the server. A number outside 1..65536 is refused with an exception;
  otherwise the port is the number modulo 65536, so that 65536, which the test lets
  through, becomes port 0.
\<close>

theorem accept_port_wraps:
  "case accept_endpoint pton e arg1 None of
     None \<Rightarrow> atoi arg1 = None
   | Some (Inl x) \<Rightarrow> x = runtime_error ''Port out of range''
       \<and> \<not> (1 \<le> the (atoi arg1) \<and> the (atoi arg1) \<le> 65536)
   | Some (Inr (address, port)) \<Rightarrow> address = IPv4_Address_any
       \<and> uint port = (if the (atoi arg1) = 65536 then 0 else the (atoi arg1))
       \<and> 1 \<le> the (atoi arg1) \<and> the (atoi arg1) \<le> 65536"
proof (cases "atoi arg1")
  case None
  then show ?thesis by (simp add: accept_endpoint_def)
next
  case (Some n)
  have "n mod 65536 = (if n = 65536 then 0 else n)" if "\<not> (n \<le> 0 \<or> n > 65536)" using that by auto
  with Some show ?thesis
    by (auto simp: accept_endpoint_def throwEx_def unsigned_of_int take_bit_eq_mod)
qed



end
