(* ===== verification/Nb_RxRing.thy ===== *)
theory Nb_RxRing
  imports Nb_SocketOptions
begin

text \<open>
  \<open>examples/rxring.cpp\<close>: a packet socket with a receive ring. The sizes of the ring are
  computed from the page size, which is an argument; the two logarithms the source takes in
  floating point are written as the power of two they stand for.
\<close>

section \<open>The sizes of the ring\<close>

text \<open>The macros of \<open>linux/if_packet.h\<close>: \<open>sizeof(tpacket2_hdr)\<close> is 32, \<open>sizeof(sockaddr_ll)\<close> is 20.\<close>

definition TPACKET_ALIGN :: "u64 \<Rightarrow> u64" where
  "TPACKET_ALIGN x = (x + 16 - 1) AND NOT (16 - 1)"

definition TPACKET2_HDRLEN :: u64 where
  "TPACKET2_HDRLEN = TPACKET_ALIGN 32 + 20"

definition ring_FrameSize :: u64 where
  "ring_FrameSize = TPACKET_ALIGN TPACKET2_HDRLEN + TPACKET_ALIGN 2048"

text \<open>The least \<open>k\<close> with \<open>n \<le> 2 ^ k\<close>: \<open>ceil(log2(n))\<close>, and \<open>ceil(log(n) / log(2))\<close>.\<close>

fun ceil_log2 :: "nat \<Rightarrow> nat" where
  "ceil_log2 n = (if n \<le> 1 then 0 else Suc (ceil_log2 ((n + 1) div 2)))"

declare ceil_log2.simps [simp del]

record tpacket_req =
  tp_block_size :: u32
  tp_block_nr :: u32
  tp_frame_size :: u32
  tp_frame_nr :: u32

definition ring_request :: "u64 \<Rightarrow> tpacket_req" where
  "ring_request pageSize =
     (let bufferSize = 1024 * 1024 * 64;
          frame_size = (of_nat (2 ^ ceil_log2 (unat ring_FrameSize)) :: u32);
          pageNr = (if pageSize > ucast frame_size then 1
                    else (ucast frame_size + pageSize - 1) div pageSize);
          bufferSize = max bufferSize pageSize;
          block_size = (ucast (push_bit (ceil_log2 (unat pageNr)) pageSize) :: u32);
          block_nr = (ucast (bufferSize div ucast block_size) :: u32);
          frame_nr = (block_nr * block_size) div frame_size
      in \<lparr>tp_block_size = block_size, tp_block_nr = block_nr, tp_frame_size = frame_size,
          tp_frame_nr = frame_nr\<rparr>)"

definition tpacket_req_bytes :: "endian \<Rightarrow> tpacket_req \<Rightarrow> u8 list" where
  "tpacket_req_bytes e req =
     bytes_of_word e 4 (tp_block_size req) @ bytes_of_word e 4 (tp_block_nr req)
     @ bytes_of_word e 4 (tp_frame_size req) @ bytes_of_word e 4 (tp_frame_nr req)"

section \<open>What the kernel requires of a ring\<close>

text \<open>
  The documented conditions of \<open>PACKET_RX_RING\<close>: blocks are whole pages, frames are aligned
  and hold more than their header, a block holds at least one frame, and the number of
  frames is that of all the blocks together.
\<close>

definition ring_accepted :: "u64 \<Rightarrow> tpacket_req \<Rightarrow> bool" where
  "ring_accepted pageSize req \<longleftrightarrow>
     (let b = unat (tp_block_size req); f = unat (tp_frame_size req) in
      0 < b \<and> b mod unat pageSize = 0
      \<and> unat TPACKET2_HDRLEN < f \<and> f mod 16 = 0
      \<and> 1 \<le> b div f
      \<and> unat (tp_frame_nr req) = (b div f) * unat (tp_block_nr req)
      \<and> 0 < tp_block_nr req)"

lemma ring_frame_size: "ceil_log2 (unat ring_FrameSize) = 12"
  by (simp add: ring_FrameSize_def TPACKET2_HDRLEN_def TPACKET_ALIGN_def ceil_log2.simps)

lemma ceil_log2_power: "ceil_log2 (2 ^ m) = m"
proof (induction m)
  case (Suc m)
  have "(2 ^ Suc m + 1) div 2 = (2 :: nat) ^ m" by simp
  moreover have "\<not> (2 :: nat) ^ Suc m \<le> 1" using one_less_power [of "2 :: nat" "Suc m"] by simp
  ultimately show ?case using Suc ceil_log2.simps [of "2 ^ Suc m"] by simp
qed (simp add: ceil_log2.simps)

lemmas ceil_log2_numerals =
  ceil_log2_power [of 0, simplified] ceil_log2_power [of 1, simplified] ceil_log2_power [of 2, simplified]
  ceil_log2_power [of 3, simplified] ceil_log2_power [of 4, simplified] ceil_log2_power [of 5, simplified]
  ceil_log2_power [of 6, simplified] ceil_log2_power [of 7, simplified] ceil_log2_power [of 8, simplified]
  ceil_log2_power [of 9, simplified] ceil_log2_power [of 10, simplified] ceil_log2_power [of 11, simplified]
  ceil_log2_power [of 12, simplified]

lemmas ring_eval =
  ring_request_def ring_accepted_def ring_frame_size ceil_log2_numerals Let_def TPACKET2_HDRLEN_def
  TPACKET_ALIGN_def

lemma ring_accepted_small:
  "\<forall>k\<in>{0, 1, 2, 3, 4, 5, 6, 7, 8, 9, 10, 11, 12, 13, 14, 15}. ring_accepted (2 ^ k) (ring_request (2 ^ k))"
  by (simp add: ring_eval)

lemma ring_accepted_large:
  "\<forall>k\<in>{16, 17, 18, 19, 20, 21, 22, 23, 24, 25, 26, 27, 28, 29, 30, 31}.
     ring_accepted (2 ^ k) (ring_request (2 ^ k))"
  by (simp add: ring_eval)

section \<open>The program\<close>

definition AF_PACKET :: int where "AF_PACKET = 17"
definition PROTO_IP :: u16 where "PROTO_IP = 0x0800"
definition SOF_TIMESTAMPING_RX_HARDWARE :: u32 where "SOF_TIMESTAMPING_RX_HARDWARE = 4"
definition SOF_TIMESTAMPING_RAW_HARDWARE :: u32 where "SOF_TIMESTAMPING_RAW_HARDWARE = 64"
definition TPACKET_V2 :: u32 where "TPACKET_V2 = 1"

datatype ring_report =
    Timestamp_failed string
  | Version_failed string
  | RxRing_failed string
  | Ring_exception exn

definition set_integer ::
  "(int \<Rightarrow> int \<Rightarrow> int \<Rightarrow> u8 list \<Rightarrow> u32 \<Rightarrow> 'k \<Rightarrow> int \<times> int \<times> 'k) \<Rightarrow> endian \<Rightarrow> Socket \<Rightarrow> IntegerOption \<Rightarrow> 'k
     \<Rightarrow> OpResult \<times> 'k" where
  "set_integer sys e socket x k =
     setOption sys socket (IntegerOption_level x) (IntegerOption_name x) (IntegerOption_data e x) (IntegerOption_size x) k"

definition set_ring ::
  "(int \<Rightarrow> int \<Rightarrow> int \<Rightarrow> u8 list \<Rightarrow> u32 \<Rightarrow> 'k \<Rightarrow> int \<times> int \<times> 'k) \<Rightarrow> endian \<Rightarrow> Socket \<Rightarrow> tpacket_req \<Rightarrow> 'k
     \<Rightarrow> OpResult \<times> 'k" where
  "set_ring sys e socket req k =
     (let x = StructOption_make (tpacket_req_bytes e req)
      in setOption sys socket (StructOption_level Options_RxRing x) (StructOption_name Options_RxRing x) (StructOption_data x)
           (StructOption_size x) k)"

text \<open>The exit status, the message printed, the kernel, and the descriptors closed at the end.\<close>

definition rxring_main ::
  "(int \<Rightarrow> string) \<Rightarrow> (int \<Rightarrow> int \<Rightarrow> int \<Rightarrow> 'k \<Rightarrow> int \<times> int \<times> 'k)
     \<Rightarrow> (int \<Rightarrow> int \<Rightarrow> int \<Rightarrow> u8 list \<Rightarrow> u32 \<Rightarrow> 'k \<Rightarrow> int \<times> int \<times> 'k) \<Rightarrow> endian \<Rightarrow> u64 \<Rightarrow> 'k
     \<Rightarrow> int \<times> ring_report list \<times> 'k \<times> int list" where
  "rxring_main strerror sys_socket sys_setsockopt e pageSize k =
     (case Socket_create strerror sys_socket AF_PACKET SOCK_DGRAM (uint (hostToNetwork16 e PROTO_IP)) k of
        (Inl x, k) \<Rightarrow> (1, [Ring_exception x], k, [])
      | (Inr socket, k) \<Rightarrow>
          let (result, k) = set_integer sys_setsockopt e socket
                (Options_PacketTimestamp (SOF_TIMESTAMPING_RAW_HARDWARE OR SOF_TIMESTAMPING_RX_HARDWARE)) k
          in if \<not> OpResult_bool result then (1, [Timestamp_failed (ErrorCode_str strerror result)], k, Socket_destroy socket)
          else let (result, k) = set_integer sys_setsockopt e socket (Options_PacketVersion TPACKET_V2) k
          in if \<not> OpResult_bool result then (1, [Version_failed (ErrorCode_str strerror result)], k, Socket_destroy socket)
          else let (result, k) = set_ring sys_setsockopt e socket (ring_request pageSize) k
          in if \<not> OpResult_bool result then (1, [RxRing_failed (ErrorCode_str strerror result)], k, Socket_destroy socket)
          else (0, [], k, Socket_destroy socket))"

text \<open>
  A kernel that logs the name and the value of every option that is set, and answers
  each name with a given result.
\<close>

definition logging_setsockopt ::
  "(int \<Rightarrow> int) \<Rightarrow> int \<Rightarrow> int \<Rightarrow> int \<Rightarrow> u8 list \<Rightarrow> u32 \<Rightarrow> (int \<times> u8 list) list
     \<Rightarrow> int \<times> int \<times> (int \<times> u8 list) list" where
  "logging_setsockopt answer fd level name bs n k = (answer name, 22, k @ [(name, take (unat n) bs)])"

section \<open>Properties\<close>



text \<open>
  The options of the ring are set in the order the kernel needs, time stamps, version 2
  of the header, then the ring; the first that fails ends the program with a failure, no
  further option is set, and the descriptor is closed once in every case.
\<close>

theorem rxring_main_stops_at_error:
  assumes "sys_socket AF_PACKET SOCK_DGRAM (uint (hostToNetwork16 e PROTO_IP)) [] = (fd, errno, [])"
    and "fd \<noteq> BadFd"
  shows "rxring_main strerror sys_socket (logging_setsockopt answer) e page [] =
    (let ts = (PACKET_TIMESTAMP, bytes_of_word e 4 (68 :: u32));
         version = (PACKET_VERSION, bytes_of_word e 4 (1 :: u32));
         ring = (PACKET_RX_RING, tpacket_req_bytes e (ring_request page))
     in if answer PACKET_TIMESTAMP \<noteq> 0 then (1, [Timestamp_failed (strerror 22)], [ts], [fd])
        else if answer PACKET_VERSION \<noteq> 0 then (1, [Version_failed (strerror 22)], [ts, version], [fd])
        else if answer PACKET_RX_RING \<noteq> 0 then (1, [RxRing_failed (strerror 22)], [ts, version, ring], [fd])
        else (0, [], [ts, version, ring], [fd]))"
  using assms
  by (simp add: rxring_main_def Socket_create_def set_integer_def set_ring_def setOption_def
      logging_setsockopt_def Options_PacketTimestamp_def Options_PacketVersion_def IntegerOption_make_def
      IntegerOption_data_def IntegerOption_size_def OpResult_bool_def OpResult_make_def Socket_destroy_def
      Socket_make_def Options_RxRing_def StructOption_make_def StructOption_data_def StructOption_size_def
      tpacket_req_bytes_def SOF_TIMESTAMPING_RX_HARDWARE_def SOF_TIMESTAMPING_RAW_HARDWARE_def
      TPACKET_V2_def ErrorCode_str_def Let_def)

theorem rxring_main_stops_at_error_witness:
  "rxring_main (\<lambda>n. []) (\<lambda>family type protocol k. (3, 0, k))
     (logging_setsockopt (\<lambda>name. if name = PACKET_VERSION then -1 else 0)) Little 4096 []
   = (1, [Version_failed []], [(PACKET_TIMESTAMP, [68, 0, 0, 0]), (PACKET_VERSION, [1, 0, 0, 0])], [3])"
  by (subst rxring_main_stops_at_error [of _ _ 3 0])
    (simp_all add: BadFd_def PACKET_TIMESTAMP_def PACKET_VERSION_def bytes_of_word_def bytes_of_le_4)

end
