(* ===== verification/Nb_OptionTypes.thy ===== *)
theory Nb_OptionTypes
  imports Nb_RxRing
begin

text \<open>
  The options \<open>netbox/socket_options.h\<close> exports, as a type system: which objects a client can
  build, by constructors and by \<open>getOption\<close>, and that each is an object of the kind the
  kernel documents for its level and name.
\<close>

section \<open>Option objects\<close>

text \<open>
  An object with the class it belongs to; the template arguments of the multicast and struct
  options come with the alias.
\<close>

datatype option_object =
    Boolean_object BooleanOption
  | Integer_object IntegerOption
  | JoinGroup_object MulticastRequestOption
  | LeaveGroup_object MulticastRequestOption
  | Source_object "int \<times> int" ip_mreq_source
  | Struct_object "int \<times> int" "u8 list"

fun object_id :: "option_object \<Rightarrow> int \<times> int" where
  "object_id (Boolean_object x) = (BooleanOption_level x, BooleanOption_name x)"
| "object_id (Integer_object x) = (IntegerOption_level x, IntegerOption_name x)"
| "object_id (JoinGroup_object x) = JoinGroup x"
| "object_id (LeaveGroup_object x) = LeaveGroup x"
| "object_id (Source_object a x) =
     (MulticastSourceRequestOption_level a x, MulticastSourceRequestOption_name a x)"
| "object_id (Struct_object a x) = (StructOption_level a x, StructOption_name a x)"

fun object_data :: "endian \<Rightarrow> option_object \<Rightarrow> u8 list" where
  "object_data e (Boolean_object x) = BooleanOption_data e x"
| "object_data e (Integer_object x) = IntegerOption_data e x"
| "object_data e (JoinGroup_object x) = MulticastRequestOption_data e x"
| "object_data e (LeaveGroup_object x) = MulticastRequestOption_data e x"
| "object_data e (Source_object a x) = MulticastSourceRequestOption_data e x"
| "object_data e (Struct_object a x) = StructOption_data x"

fun object_size :: "option_object \<Rightarrow> u64" where
  "object_size (Boolean_object x) = BooleanOption_size x"
| "object_size (Integer_object x) = IntegerOption_size x"
| "object_size (JoinGroup_object x) = MulticastRequestOption_size x"
| "object_size (LeaveGroup_object x) = MulticastRequestOption_size x"
| "object_size (Source_object a x) = MulticastSourceRequestOption_size x"
| "object_size (Struct_object a x) = StructOption_size x"

text \<open>
  The objects of the exported options. The last two rules are \<open>getOption\<close>, whose system call
  writes the four bytes of an \<open>int\<close>.
\<close>

inductive built :: "endian \<Rightarrow> option_object \<Rightarrow> bool" for e where
  built_boolean_default: "an \<in> {(SOL_SOCKET, SO_REUSEADDR), (SOL_SOCKET, SO_TIMESTAMP),
      (SOL_SOCKET, SO_TIMESTAMPNS), (IPPROTO_TCP, TCP_NODELAY)} \<Longrightarrow>
    built e (Boolean_object (BooleanOption_default (fst an) (snd an)))"
| built_boolean: "f \<in> {Options_ReuseAddr, Options_Timestamp, Options_TimestampNS, Options_NoDelay} \<Longrightarrow>
    built e (Boolean_object (f v))"
| built_integer_default: "an \<in> {(SOL_SOCKET, SO_RCVBUF), (SOL_SOCKET, SO_SNDBUF),
      (SOL_PACKET, PACKET_TIMESTAMP), (SOL_PACKET, PACKET_VERSION)} \<Longrightarrow>
    built e (Integer_object (IntegerOption_default (fst an) (snd an)))"
| built_integer: "g \<in> {Options_RcvBuf, Options_SndBuf, Options_PacketTimestamp, Options_PacketVersion} \<Longrightarrow>
    built e (Integer_object (g n))"
| built_join_default: "built e (JoinGroup_object MulticastRequestOption_default)"
| built_leave_default: "built e (LeaveGroup_object MulticastRequestOption_default)"
| built_join_v4: "built e (JoinGroup_object (MulticastRequestOption_v4 e a i))"
| built_leave_v4: "built e (LeaveGroup_object (MulticastRequestOption_v4 e a i))"
| built_join_v6: "length (s6_addr a6) = 16 \<Longrightarrow> built e (JoinGroup_object (MulticastRequestOption_v6 a6 j))"
| built_leave_v6: "length (s6_addr a6) = 16 \<Longrightarrow> built e (LeaveGroup_object (MulticastRequestOption_v6 a6 j))"
| built_source_default: "an \<in> {JoinGroupSource, LeaveGroupSource} \<Longrightarrow>
    built e (Source_object an MulticastSourceRequestOption_default)"
| built_source: "an \<in> {JoinGroupSource, LeaveGroupSource} \<Longrightarrow>
    built e (Source_object an (MulticastSourceRequestOption_make e a src i))"
| built_ring: "built e (Struct_object Options_RxRing (StructOption_make (tpacket_req_bytes e req)))"
| built_boolean_get: "built e (Boolean_object b) \<Longrightarrow> length bs = 4 \<Longrightarrow>
    built e (Boolean_object (BooleanOption_write e b bs))"
| built_integer_get: "built e (Integer_object n) \<Longrightarrow> length bs = 4 \<Longrightarrow>
    built e (Integer_object (IntegerOption_write e n bs))"

section \<open>The types of the kernel\<close>

text \<open>
  The object the manual pages socket(7), ip(7), ipv6(7), tcp(7) and packet(7) document for a
  level and name, with its size.
\<close>

datatype kernel_type = K_int | K_ip_mreq | K_ipv6_mreq | K_ip_mreq_source | K_tpacket_req

fun kernel_size :: "kernel_type \<Rightarrow> nat" where
  "kernel_size K_int = 4"
| "kernel_size K_ip_mreq = 8"
| "kernel_size K_ipv6_mreq = 20"
| "kernel_size K_ip_mreq_source = 12"
| "kernel_size K_tpacket_req = 16"

definition kernel_types :: "((int \<times> int) \<times> kernel_type) list" where
  "kernel_types =
     [((SOL_SOCKET, SO_REUSEADDR), K_int), ((SOL_SOCKET, SO_TIMESTAMP), K_int),
      ((SOL_SOCKET, SO_TIMESTAMPNS), K_int), ((SOL_SOCKET, SO_RCVBUF), K_int),
      ((SOL_SOCKET, SO_SNDBUF), K_int), ((SOL_PACKET, PACKET_TIMESTAMP), K_int),
      ((SOL_PACKET, PACKET_VERSION), K_int), ((SOL_PACKET, PACKET_RX_RING), K_tpacket_req),
      ((IPPROTO_TCP, TCP_NODELAY), K_int),
      ((IPPROTO_IP, IP_ADD_MEMBERSHIP), K_ip_mreq), ((IPPROTO_IP, IP_DROP_MEMBERSHIP), K_ip_mreq),
      ((IPPROTO_IPV6, IPV6_JOIN_GROUP), K_ipv6_mreq), ((IPPROTO_IPV6, IPV6_LEAVE_GROUP), K_ipv6_mreq),
      ((IPPROTO_IP, IP_ADD_SOURCE_MEMBERSHIP), K_ip_mreq_source),
      ((IPPROTO_IP, IP_DROP_SOURCE_MEMBERSHIP), K_ip_mreq_source)]"

lemmas option_constants =
  SOL_SOCKET_def SO_REUSEADDR_def SO_SNDBUF_def SO_RCVBUF_def SO_TIMESTAMP_def SO_TIMESTAMPNS_def
  SOL_PACKET_def PACKET_VERSION_def PACKET_TIMESTAMP_def PACKET_RX_RING_def IPPROTO_IP_def
  IPPROTO_TCP_def IPPROTO_IPV6_def TCP_NODELAY_def IP_ADD_MEMBERSHIP_def IP_DROP_MEMBERSHIP_def
  IPV6_JOIN_GROUP_def IPV6_LEAVE_GROUP_def IP_ADD_SOURCE_MEMBERSHIP_def IP_DROP_SOURCE_MEMBERSHIP_def

lemmas option_objects =
  BooleanOption_default_def BooleanOption_make_def BooleanOption_write_def
  IntegerOption_default_def IntegerOption_make_def IntegerOption_write_def
  Options_ReuseAddr_def Options_Timestamp_def Options_TimestampNS_def Options_NoDelay_def
  Options_RcvBuf_def Options_SndBuf_def Options_PacketTimestamp_def Options_PacketVersion_def
  MulticastRequestOption_default_def MulticastRequestOption_v4_def

text \<open>A well-typed object: its id, its size and its data are those of one kernel type.\<close>

definition object_typed :: "endian \<Rightarrow> option_object \<Rightarrow> bool" where
  "object_typed e x \<longleftrightarrow>
     (\<exists>t. map_of kernel_types (object_id x) = Some t \<and> unat (object_size x) = kernel_size t
        \<and> length (object_data e x) = kernel_size t)"

lemma kernel_types [simp]:
  "map_of kernel_types (SOL_SOCKET, SO_REUSEADDR) = Some K_int"
  "map_of kernel_types (SOL_SOCKET, SO_TIMESTAMP) = Some K_int"
  "map_of kernel_types (SOL_SOCKET, SO_TIMESTAMPNS) = Some K_int"
  "map_of kernel_types (SOL_SOCKET, SO_RCVBUF) = Some K_int"
  "map_of kernel_types (SOL_SOCKET, SO_SNDBUF) = Some K_int"
  "map_of kernel_types (SOL_PACKET, PACKET_TIMESTAMP) = Some K_int"
  "map_of kernel_types (SOL_PACKET, PACKET_VERSION) = Some K_int"
  "map_of kernel_types (SOL_PACKET, PACKET_RX_RING) = Some K_tpacket_req"
  "map_of kernel_types (IPPROTO_TCP, TCP_NODELAY) = Some K_int"
  "map_of kernel_types (IPPROTO_IP, IP_ADD_MEMBERSHIP) = Some K_ip_mreq"
  "map_of kernel_types (IPPROTO_IP, IP_DROP_MEMBERSHIP) = Some K_ip_mreq"
  "map_of kernel_types (IPPROTO_IPV6, IPV6_JOIN_GROUP) = Some K_ipv6_mreq"
  "map_of kernel_types (IPPROTO_IPV6, IPV6_LEAVE_GROUP) = Some K_ipv6_mreq"
  "map_of kernel_types (IPPROTO_IP, IP_ADD_SOURCE_MEMBERSHIP) = Some K_ip_mreq_source"
  "map_of kernel_types (IPPROTO_IP, IP_DROP_SOURCE_MEMBERSHIP) = Some K_ip_mreq_source"
  by (simp_all add: kernel_types_def option_constants)

text \<open>The typing rules by class.\<close>

lemma boolean_typed:
  "object_typed e (Boolean_object b) \<longleftrightarrow> map_of kernel_types (bo_level b, bo_name b) = Some K_int"
proof -
  have "4 = kernel_size t \<longleftrightarrow> t = K_int" for t by (cases t) simp_all
  then show ?thesis by (auto simp: object_typed_def BooleanOption_size_def BooleanOption_data_def)
qed

lemma integer_typed:
  "object_typed e (Integer_object n) \<longleftrightarrow> map_of kernel_types (io_level n, io_name n) = Some K_int"
proof -
  have "4 = kernel_size t \<longleftrightarrow> t = K_int" for t by (cases t) simp_all
  then show ?thesis by (auto simp: object_typed_def IntegerOption_size_def IntegerOption_data_def)
qed

lemma group_typed:
  "mr_family x = AF_INET \<Longrightarrow> object_typed e (JoinGroup_object x) \<and> object_typed e (LeaveGroup_object x)"
  "mr_family x = AF_INET6 \<Longrightarrow> length (ipv6mr_multiaddr (mr_v6 x)) = 16 \<Longrightarrow>
     object_typed e (JoinGroup_object x) \<and> object_typed e (LeaveGroup_object x)"
  by (simp_all add: object_typed_def JoinGroup_def LeaveGroup_def MulticastRequestOption_level_def
      MulticastRequestOption_name_def MulticastRequestOption_size_def MulticastRequestOption_data_def
      AF_INET_def AF_INET6_def)

lemma source_typed:
  "an \<in> {JoinGroupSource, LeaveGroupSource} \<Longrightarrow> object_typed e (Source_object an x)"
  by (auto simp: object_typed_def JoinGroupSource_def LeaveGroupSource_def
      MulticastSourceRequestOption_size_def MulticastSourceRequestOption_data_def)

lemma ring_typed: "object_typed e (Struct_object Options_RxRing (StructOption_make (tpacket_req_bytes e req)))"
  by (simp add: object_typed_def Options_RxRing_def StructOption_make_def StructOption_size_def
      StructOption_data_def tpacket_req_bytes_def)

lemma built_typed: "built e x \<Longrightarrow> object_typed e x"
proof (induction rule: built.induct)
  case (built_join_v6 a6 j)
  then show ?case by (simp add: group_typed(2) MulticastRequestOption_v6_def IPv6_Address_toBytes_def)
next
  case (built_leave_v6 a6 j)
  then show ?case by (simp add: group_typed(2) MulticastRequestOption_v6_def IPv6_Address_toBytes_def)
qed (auto simp: boolean_typed integer_typed source_typed ring_typed option_objects
    intro!: group_typed(1) [THEN conjunct1] group_typed(1) [THEN conjunct2])

text \<open>Every typed object is one that \<open>setOption\<close> can pass as a whole.\<close>

interpretation typed_option: settable_option "object_typed e" "object_data e" object_size for e
proof unfold_locales
  fix x assume "object_typed e x"
  then obtain t where t: "unat (object_size x) = kernel_size t" "length (object_data e x) = kernel_size t"
    by (auto simp: object_typed_def)
  then show "length (object_data e x) = unat (object_size x)" by simp
  show "unat (object_size x) < 2 ^ 32" using t(1) by (cases t) simp_all
qed



end
