(* ===== verification/Nb_FileLife.thy ===== *)
theory Nb_FileLife
  imports Nb_FileReader "HOL-Library.Multiset"
begin

text \<open>
  The objects behind a \<open>FileReader\<close>: the two streams on the heap that it owns, the raw pointer
  to one of them, and the reference from a decoding stream to the file stream it reads. A
  program with readers constructs, moves, swaps, reads and destroys them; the theorems are
  about dangling references, double deletion and leaks.
\<close>

section \<open>Objects and pointers\<close>

text \<open>\<open>Decoding_stream f\<close> has the reference \<open>inputStream_\<close> to the stream at \<open>f\<close>.\<close>

datatype stream_object = File_stream | Decoding_stream nat

datatype raw_pointer = Raw nat | Garbage

type_synonym reader_object = "(nat, raw_pointer) file_reader"

text \<open>
  The live objects; the addresses of the decoders that were set up (\<open>inflateInit2\<close>,
  \<open>lzma_stream_decoder\<close>) and of those that were ended (\<open>inflateEnd\<close>, \<open>lzma_end\<close>); and the
  variables of the program, None once destroyed.
\<close>

record life =
  lf_objects :: "nat \<Rightarrow> stream_object option"
  lf_next :: nat
  lf_started :: "nat list"
  lf_ended :: "nat list"
  lf_vars :: "reader_object option list"

definition new_file_stream :: "life \<Rightarrow> nat \<times> life" where
  "new_file_stream x =
     (lf_next x, x\<lparr>lf_objects := (lf_objects x)(lf_next x \<mapsto> File_stream), lf_next := Suc (lf_next x)\<rparr>)"

definition new_decoding_stream :: "nat \<Rightarrow> life \<Rightarrow> nat \<times> life" where
  "new_decoding_stream f x =
     (lf_next x, x\<lparr>lf_objects := (lf_objects x)(lf_next x \<mapsto> Decoding_stream f), lf_next := Suc (lf_next x),
                   lf_started := lf_started x @ [lf_next x]\<rparr>)"

text \<open>
  The destructor of an owning pointer: deleting an object that is not there is undefined. The
  destructor of a decoding stream ends its decoder and does not touch its input.
\<close>

fun delete_stream :: "nat option \<Rightarrow> life \<Rightarrow> life option" where
  "delete_stream None x = Some x"
| "delete_stream (Some a) x =
     (case lf_objects x a of
        None \<Rightarrow> None
      | Some File_stream \<Rightarrow> Some (x\<lparr>lf_objects := (lf_objects x)(a := None)\<rparr>)
      | Some (Decoding_stream f) \<Rightarrow>
          Some (x\<lparr>lf_objects := (lf_objects x)(a := None), lf_ended := lf_ended x @ [a]\<rparr>))"

section \<open>The life of a reader\<close>

text \<open>
  The constructors by what they do to the heap; an exception of the constructor destroys the
  members that have been constructed, the owning pointers in reverse order.
\<close>

datatype construction = Opens_plain | Opens_decoded | Opening_throws

fun reader_construct :: "construction \<Rightarrow> life \<Rightarrow> (reader_object option \<times> life) option" where
  "reader_construct Opens_plain x =
     (case new_file_stream x of (f, x) \<Rightarrow>
        Some (Some \<lparr>fr_fileStream = Some f, fr_decodedStream = None, fr_stream = Raw f\<rparr>, x))"
| "reader_construct Opens_decoded x =
     (case new_file_stream x of (f, x) \<Rightarrow>
        case new_decoding_stream f x of (d, x) \<Rightarrow>
          Some (Some \<lparr>fr_fileStream = Some f, fr_decodedStream = Some d, fr_stream = Raw d\<rparr>, x))"
| "reader_construct Opening_throws x =
     (case new_file_stream x of (f, x) \<Rightarrow>
        do { x \<leftarrow> delete_stream None x; x \<leftarrow> delete_stream (Some f) x; Some (None, x) })"

definition reader_move :: "reader_object \<Rightarrow> reader_object \<times> reader_object" where
  "reader_move other =
     FileReader_swap \<lparr>fr_fileStream = None, fr_decodedStream = None, fr_stream = Garbage\<rparr> other"

text \<open>The destructor: \<open>stream_\<close>, then \<open>decodedStream_\<close>, then \<open>fileStream_\<close>.\<close>

definition reader_destroy :: "reader_object \<Rightarrow> life \<Rightarrow> life option" where
  "reader_destroy r x = do { x \<leftarrow> delete_stream (fr_decodedStream r) x; delete_stream (fr_fileStream r) x }"

text \<open>A call of \<open>read\<close>, \<open>good\<close>, \<open>eof\<close> or the conversion, which follow \<open>stream_\<close> and its input.\<close>

definition reader_use :: "reader_object \<Rightarrow> life \<Rightarrow> life option" where
  "reader_use r x =
     (case fr_stream r of
        Garbage \<Rightarrow> None
      | Raw a \<Rightarrow>
          (case lf_objects x a of
             None \<Rightarrow> None
           | Some File_stream \<Rightarrow> Some x
           | Some (Decoding_stream f) \<Rightarrow> if lf_objects x f = Some File_stream then Some x else None))"

section \<open>Programs with readers\<close>

datatype reader_op =
    New_reader construction
  | Move_new nat
  | Move_into nat nat
  | Swap_readers nat nat
  | Use_reader nat
  | Drop_reader nat

fun op_vars :: "reader_op \<Rightarrow> nat list" where
  "op_vars (New_reader how) = []"
| "op_vars (Move_new i) = [i]"
| "op_vars (Move_into i j) = [i, j]"
| "op_vars (Swap_readers i j) = [i, j]"
| "op_vars (Use_reader i) = [i]"
| "op_vars (Drop_reader i) = [i]"

definition reader_var :: "life \<Rightarrow> nat \<Rightarrow> reader_object option" where
  "reader_var x i = (if i < length (lf_vars x) then lf_vars x ! i else None)"

fun life_step :: "life \<Rightarrow> reader_op \<Rightarrow> life option" where
  "life_step x (New_reader how) =
     do { (v, x) \<leftarrow> reader_construct how x;
          Some (case v of None \<Rightarrow> x | Some r \<Rightarrow> x\<lparr>lf_vars := lf_vars x @ [Some r]\<rparr>) }"
| "life_step x (Move_new i) =
     do { other \<leftarrow> reader_var x i;
          let (this, other) = reader_move other in
          Some (x\<lparr>lf_vars := (lf_vars x)[i := Some other] @ [Some this]\<rparr>) }"
| "life_step x (Move_into i j) =
     do { this \<leftarrow> reader_var x i; other \<leftarrow> reader_var x j;
          let (this, other) = FileReader_move_assign (i = j) this other in
          Some (x\<lparr>lf_vars := (lf_vars x)[i := Some this, j := Some other]\<rparr>) }"
| "life_step x (Swap_readers i j) =
     do { this \<leftarrow> reader_var x i; other \<leftarrow> reader_var x j;
          let (this, other) = FileReader_swap this other in
          Some (x\<lparr>lf_vars := (lf_vars x)[i := Some this, j := Some other]\<rparr>) }"
| "life_step x (Use_reader i) = do { r \<leftarrow> reader_var x i; reader_use r x }"
| "life_step x (Drop_reader i) =
     do { r \<leftarrow> reader_var x i;
          x \<leftarrow> reader_destroy r x;
          Some (x\<lparr>lf_vars := (lf_vars x)[i := None]\<rparr>) }"

definition life_init :: life where
  "life_init = \<lparr>lf_objects = Map.empty, lf_next = 0, lf_started = [], lf_ended = [], lf_vars = []\<rparr>"

inductive life_reach :: "life \<Rightarrow> bool" where
  life_start: "life_reach life_init"
| life_next: "life_reach x \<Longrightarrow> life_step x a = Some y \<Longrightarrow> life_reach y"

section \<open>The invariant\<close>

text \<open>
  A reader has a file stream, or has been moved from. Its raw pointer is to the decoding
  stream if it has one, which reads the file stream of the same reader.
\<close>

definition reader_wf :: "(nat \<Rightarrow> stream_object option) \<Rightarrow> reader_object \<Rightarrow> bool" where
  "reader_wf objs r \<longleftrightarrow>
     (case fr_fileStream r of
        None \<Rightarrow> fr_decodedStream r = None \<and> fr_stream r = Garbage
      | Some f \<Rightarrow> objs f = Some File_stream
          \<and> (case fr_decodedStream r of
               None \<Rightarrow> fr_stream r = Raw f
             | Some d \<Rightarrow> objs d = Some (Decoding_stream f) \<and> fr_stream r = Raw d))"

definition owned_by :: "reader_object option \<Rightarrow> nat multiset" where
  "owned_by v =
     (case v of
        None \<Rightarrow> {#}
      | Some r \<Rightarrow> (case fr_fileStream r of None \<Rightarrow> {#} | Some f \<Rightarrow> {#f#})
          + (case fr_decodedStream r of None \<Rightarrow> {#} | Some d \<Rightarrow> {#d#}))"

definition owned :: "life \<Rightarrow> nat multiset" where
  "owned x = (\<Sum>v\<leftarrow>lf_vars x. owned_by v)"

definition live_decoders :: "life \<Rightarrow> nat set" where
  "live_decoders x = {a. \<exists>f. lf_objects x a = Some (Decoding_stream f)}"

text \<open>
  Every live object has exactly one owner, and every decoder that was set up is live or has
  been ended, once.
\<close>

text \<open>\<open>life_holding E x\<close>: the same, while the objects \<open>E\<close> are owned by no variable yet.\<close>

definition life_holding :: "nat multiset \<Rightarrow> life \<Rightarrow> bool" where
  "life_holding E x \<longleftrightarrow>
     (\<forall>r. Some r \<in> set (lf_vars x) \<longrightarrow> reader_wf (lf_objects x) r)
     \<and> dom (lf_objects x) \<subseteq> {..<lf_next x} \<and> owned x + E = mset_set (dom (lf_objects x))
     \<and> distinct (lf_started x) \<and> set (lf_started x) \<subseteq> {..<lf_next x}
     \<and> mset (lf_started x) = mset (lf_ended x) + mset_set (live_decoders x)"

definition life_ok :: "life \<Rightarrow> bool" where
  "life_ok x \<longleftrightarrow> life_holding {#} x"

lemma reader_wf_frame:
  "reader_wf objs r \<Longrightarrow> (\<And>a. a \<in># owned_by (Some r) \<Longrightarrow> objs' a = objs a) \<Longrightarrow> reader_wf objs' r"
  by (auto simp: reader_wf_def owned_by_def split: option.splits)

lemma in_sum_list: "v \<in> set vs \<Longrightarrow> a \<in># f v \<Longrightarrow> a \<in># (\<Sum>v\<leftarrow>vs. f v)"
  by (induction vs) auto

lemma owned_var: "Some r \<in> set (lf_vars x) \<Longrightarrow> a \<in># owned_by (Some r) \<Longrightarrow> a \<in># owned x"
  unfolding owned_def by (rule in_sum_list)

lemma finite_objects: "life_holding E x \<Longrightarrow> finite (dom (lf_objects x))"
  by (meson finite_lessThan finite_subset life_holding_def)

lemma live_decoders_dom: "live_decoders x \<subseteq> dom (lf_objects x)"
  by (auto simp: live_decoders_def)

text \<open>An object that is created is held, one that is held can be deleted.\<close>

lemma life_holding_wf:
  assumes "life_holding E x" and "lf_vars y = lf_vars x"
    and "\<And>a. a \<in># owned x \<Longrightarrow> lf_objects y a = lf_objects x a"
  shows "\<forall>r. Some r \<in> set (lf_vars y) \<longrightarrow> reader_wf (lf_objects y) r"
proof (intro allI impI)
  fix r assume r: "Some r \<in> set (lf_vars y)"
  with assms(1,2) have "reader_wf (lf_objects x) r" by (simp add: life_holding_def)
  then show "reader_wf (lf_objects y) r"
    using r assms(2,3) owned_var [of r x] by (auto intro: reader_wf_frame)
qed

lemma fresh_object: "life_holding E x \<Longrightarrow> lf_next x \<notin> dom (lf_objects x)"
  by (auto simp: life_holding_def)

lemma owned_live:
  assumes "life_holding E x" and "a \<in># owned x + E"
  shows "a \<in> dom (lf_objects x)"
proof -
  have "owned x + E = mset_set (dom (lf_objects x))" using assms(1) by (simp add: life_holding_def)
  then have "a \<in># mset_set (dom (lf_objects x))" using assms(2) by (simp only:)
  then show ?thesis using finite_objects [OF assms(1)] by simp
qed

lemma new_file_stream_holding:
  assumes "life_holding E x" and "new_file_stream x = (f, y)"
  shows "life_holding (add_mset f E) y" and "lf_objects y f = Some File_stream" and "lf_vars y = lf_vars x"
proof -
  have y: "f = lf_next x" "y = x\<lparr>lf_objects := (lf_objects x)(lf_next x \<mapsto> File_stream), lf_next := Suc (lf_next x)\<rparr>"
    using assms(2) by (auto simp: new_file_stream_def)
  note fresh = fresh_object [OF assms(1)] and fin = finite_objects [OF assms(1)]
  have "lf_objects y a = lf_objects x a" if "a \<in># owned x" for a
    using owned_live [OF assms(1), of a] that fresh by (auto simp: y)
  with life_holding_wf [OF assms(1), of y]
  have "\<forall>r. Some r \<in> set (lf_vars y) \<longrightarrow> reader_wf (lf_objects y) r" by (simp add: y)
  moreover have "live_decoders y = live_decoders x" using fresh by (auto simp: live_decoders_def y)
  ultimately show "life_holding (add_mset f E) y"
    using assms(1) fresh fin by (auto simp: life_holding_def y owned_def dest: less_SucI)
  show "lf_objects y f = Some File_stream" "lf_vars y = lf_vars x" by (simp_all add: y)
qed

lemma new_decoding_stream_holding:
  assumes "life_holding E x" and "new_decoding_stream f x = (d, y)"
  shows "life_holding (add_mset d E) y" and "lf_objects y d = Some (Decoding_stream f)"
    and "lf_vars y = lf_vars x" and "\<And>a. a \<in> dom (lf_objects x) \<Longrightarrow> lf_objects y a = lf_objects x a"
proof -
  have y: "d = lf_next x" "y = x\<lparr>lf_objects := (lf_objects x)(lf_next x \<mapsto> Decoding_stream f),
      lf_next := Suc (lf_next x), lf_started := lf_started x @ [lf_next x]\<rparr>"
    using assms(2) by (auto simp: new_decoding_stream_def)
  note fresh = fresh_object [OF assms(1)] and fin = finite_objects [OF assms(1)]
  show keep: "lf_objects y a = lf_objects x a" if "a \<in> dom (lf_objects x)" for a
    using that fresh by (auto simp: y)
  have "lf_objects y a = lf_objects x a" if "a \<in># owned x" for a
    using owned_live [OF assms(1), of a] that keep by auto
  with life_holding_wf [OF assms(1), of y]
  have "\<forall>r. Some r \<in> set (lf_vars y) \<longrightarrow> reader_wf (lf_objects y) r" by (simp add: y)
  moreover have "live_decoders y = insert (lf_next x) (live_decoders x)"
    by (auto simp: live_decoders_def y)
  moreover have "lf_next x \<notin> live_decoders x" "finite (live_decoders x)"
    using fresh live_decoders_dom [of x] fin by (auto intro: finite_subset)
  ultimately show "life_holding (add_mset d E) y"
    using assms(1) fresh fin by (auto simp: life_holding_def y owned_def dest: less_SucI)
  show "lf_objects y d = Some (Decoding_stream f)" "lf_vars y = lf_vars x" by (simp_all add: y)
qed

lemma delete_stream_holding:
  assumes "life_holding (add_mset a E) x"
  obtains y where "delete_stream (Some a) x = Some y" and "life_holding E y" and "lf_vars y = lf_vars x"
proof -
  note fin = finite_objects [OF assms]
  have a: "a \<in> dom (lf_objects x)" using owned_live [OF assms, of a] by simp
  then obtain s where s: "lf_objects x a = Some s" by auto
  define y where "y = x\<lparr>lf_objects := (lf_objects x)(a := None),
      lf_ended := lf_ended x @ (if s = File_stream then [] else [a])\<rparr>"
  have del: "delete_stream (Some a) x = Some y" using s by (cases s) (simp_all add: y_def)
  have objs: "owned x + add_mset a E = mset_set (dom (lf_objects x))" using assms by (simp add: life_holding_def)
  then have own: "owned x + E = mset_set (dom (lf_objects x) - {a})"
    using mset_set.remove [OF fin a] by simp
  then have "a \<notin># owned x" using fin by (metis Diff_iff finite_Diff finite_set_mset_mset_set insertI1 union_iff)
  then have "lf_objects y b = lf_objects x b" if "b \<in># owned x" for b using that by (auto simp: y_def)
  with life_holding_wf [OF assms, of y]
  have "\<forall>r. Some r \<in> set (lf_vars y) \<longrightarrow> reader_wf (lf_objects y) r" by (simp add: y_def)
  moreover have "mset_set (live_decoders x) = mset_set (live_decoders y) + (if s = File_stream then {#} else {#a#})"
  proof (cases "s = File_stream")
    case True
    with s have "live_decoders y = live_decoders x" by (auto simp: live_decoders_def y_def)
    with True show ?thesis by simp
  next
    case False
    with s have "live_decoders x = insert a (live_decoders y)" "a \<notin> live_decoders y"
      by (cases s; auto simp: live_decoders_def y_def)+
    moreover have "finite (live_decoders x)" using live_decoders_dom [of x] fin by (rule finite_subset)
    ultimately show ?thesis using False by simp
  qed
  ultimately have "life_holding E y"
    using assms own by (auto simp: life_holding_def y_def owned_def)
  then show thesis using that del by (simp add: y_def)
qed

lemma life_holding_vars:
  assumes "life_holding E x" and "(\<Sum>v\<leftarrow>vs. owned_by v) + E' = owned x + E"
    and "\<And>r. Some r \<in> set vs \<Longrightarrow> reader_wf (lf_objects x) r"
  shows "life_holding E' (x\<lparr>lf_vars := vs\<rparr>)"
  using assms by (simp add: life_holding_def owned_def live_decoders_def)

lemma life_ok_vars:
  assumes "life_ok x" and "(\<Sum>v\<leftarrow>vs. owned_by v) = owned x"
    and "\<And>r. Some r \<in> set vs \<Longrightarrow> reader_wf (lf_objects x) r"
  shows "life_ok (x\<lparr>lf_vars := vs\<rparr>)"
  unfolding life_ok_def
  by (rule life_holding_vars [OF assms(1) [unfolded life_ok_def]]) (use assms(2,3) in simp_all)

lemma delete_stream_vars:
  "delete_stream p (x\<lparr>lf_vars := vs\<rparr>) = map_option (\<lambda>y. y\<lparr>lf_vars := vs\<rparr>) (delete_stream p x)"
  by (cases p) (auto split: option.splits stream_object.splits)

lemma delete_stream_keeps_vars: "delete_stream p x = Some y \<Longrightarrow> lf_vars y = lf_vars x"
  by (cases p) (auto split: option.splits stream_object.splits)

lemma reader_destroy_keeps_vars: "reader_destroy r x = Some y \<Longrightarrow> lf_vars y = lf_vars x"
  by (auto simp: reader_destroy_def bind_Some_iff dest!: delete_stream_keeps_vars)

section \<open>Every step keeps the invariant\<close>

lemma reader_var_Some: "reader_var x i = Some r \<Longrightarrow> i < length (lf_vars x) \<and> lf_vars x ! i = Some r"
  by (simp add: reader_var_def split: if_splits)

lemma reader_var_wf:
  assumes "life_ok x" and "reader_var x i = Some r"
  shows "reader_wf (lf_objects x) r"
  using assms reader_var_Some [OF assms(2)] by (metis life_holding_def life_ok_def nth_mem)

lemma in_set_update2: "v \<in> set (xs[i := y, j := z]) \<Longrightarrow> v \<in> set xs \<or> v = y \<or> v = z"
  by (meson insertE set_update_subset_insert subsetD)

lemma construct_ok:
  assumes "life_ok x"
  shows "\<exists>v y. reader_construct how x = Some (v, y) \<and> lf_vars y = lf_vars x
    \<and> life_holding (owned_by v) y \<and> (\<forall>r. v = Some r \<longrightarrow> reader_wf (lf_objects y) r)"
proof -
  obtain f x1 where f: "new_file_stream x = (f, x1)" by fastforce
  note opened = new_file_stream_holding [OF assms [unfolded life_ok_def] f]
  show ?thesis
  proof (cases how)
    case Opens_plain
    with f opened show ?thesis by (auto simp: owned_by_def reader_wf_def)
  next
    case Opens_decoded
    obtain d x2 where d: "new_decoding_stream f x1 = (d, x2)" by fastforce
    note dec = new_decoding_stream_holding [OF opened(1) d]
    have "lf_objects x2 f = Some File_stream" using dec(4) [of f] opened(2) by auto
    with Opens_decoded f d opened dec show ?thesis
      by (auto simp: owned_by_def reader_wf_def add_mset_commute)
  next
    case Opening_throws
    from delete_stream_holding [OF opened(1)] obtain y where
      "delete_stream (Some f) x1 = Some y" "life_holding {#} y" "lf_vars y = lf_vars x1" .
    with Opening_throws f opened(3) show ?thesis by (auto simp: owned_by_def)
  qed
qed

lemma destroy_ok:
  assumes "life_holding (owned_by (Some r)) x"
  shows "\<exists>y. reader_destroy r x = Some y \<and> life_holding {#} y \<and> lf_vars y = lf_vars x"
proof (cases "fr_decodedStream r")
  case None
  show ?thesis
  proof (cases "fr_fileStream r")
    case no_file: None
    with None assms show ?thesis by (simp add: reader_destroy_def owned_by_def)
  next
    case (Some f)
    with None assms have "life_holding {#f#} x" by (simp add: owned_by_def)
    from delete_stream_holding [OF this] None Some show ?thesis by (auto simp: reader_destroy_def)
  qed
next
  case (Some d)
  then have "life_holding (add_mset d (case fr_fileStream r of None \<Rightarrow> {#} | Some f \<Rightarrow> {#f#})) x"
    using assms by (simp add: owned_by_def split: option.splits)
  from delete_stream_holding [OF this] obtain y where
    y: "delete_stream (Some d) x = Some y" "lf_vars y = lf_vars x"
    "life_holding (case fr_fileStream r of None \<Rightarrow> {#} | Some f \<Rightarrow> {#f#}) y" by metis
  show ?thesis
  proof (cases "fr_fileStream r")
    case None
    with Some y show ?thesis by (simp add: reader_destroy_def)
  next
    case f: (Some f)
    with y(3) have "life_holding {#f#} y" by simp
    from delete_stream_holding [OF this] Some f y show ?thesis by (auto simp: reader_destroy_def)
  qed
qed

lemma reader_use_wf:
  assumes "reader_wf (lf_objects x) r"
  shows "reader_use r x = (if fr_fileStream r = None then None else Some x)"
  using assms by (auto simp: reader_wf_def reader_use_def split: option.splits)

text \<open>Exchanging two readers, in an assignment or a swap.\<close>

lemma exchange_ok:
  assumes "life_ok x" and "reader_var x i = Some a" and "reader_var x j = Some b"
    and "(a', b') = (b, a) \<or> (a', b') = (a, b) \<and> i = j"
  shows "life_ok (x\<lparr>lf_vars := (lf_vars x)[i := Some a', j := Some b']\<rparr>)"
proof -
  have ij: "i < length (lf_vars x)" "lf_vars x ! i = Some a" "j < length (lf_vars x)" "lf_vars x ! j = Some b"
    using reader_var_Some assms(2,3) by blast+
  then have same: "i = j \<Longrightarrow> a = b" by simp
  have "(\<Sum>v\<leftarrow>(lf_vars x)[i := Some a', j := Some b']. owned_by v) = owned x"
    unfolding owned_def using ij assms(4) same by (intro sum_list_update2) (auto simp: add.commute)
  moreover have "reader_wf (lf_objects x) r" if "Some r \<in> set ((lf_vars x)[i := Some a', j := Some b'])" for r
    using in_set_update2 [OF that] assms reader_var_wf [OF assms(1,2)] reader_var_wf [OF assms(1,3)]
    by (auto simp: life_ok_def life_holding_def)
  ultimately show ?thesis by (rule life_ok_vars [OF assms(1)])
qed

lemma life_step_ok:
  assumes ok: "life_ok x" and vars: "\<forall>i\<in>set (op_vars a). reader_var x i \<noteq> None"
  shows "(case life_step x a of
      None \<Rightarrow> \<exists>i r. a = Use_reader i \<and> reader_var x i = Some r \<and> fr_fileStream r = None
    | Some y \<Rightarrow> life_ok y \<and> (\<forall>i r. a = Use_reader i \<longrightarrow> reader_var x i = Some r \<longrightarrow> fr_fileStream r \<noteq> None))"
proof (cases a)
  case (New_reader how)
  obtain v y where y: "reader_construct how x = Some (v, y)" "lf_vars y = lf_vars x"
    "life_holding (owned_by v) y" "\<forall>r. v = Some r \<longrightarrow> reader_wf (lf_objects y) r"
    using construct_ok [OF ok] by blast
  show ?thesis
  proof (cases v)
    case None
    with y New_reader show ?thesis by (simp add: life_ok_def owned_by_def)
  next
    case (Some r)
    have "life_ok (y\<lparr>lf_vars := lf_vars y @ [Some r]\<rparr>)"
      unfolding life_ok_def
      by (rule life_holding_vars [OF y(3)])
        (use y(3,4) Some in \<open>auto simp: owned_def life_holding_def\<close>)
    with New_reader y(1) Some show ?thesis by simp
  qed
next
  case (Move_new i)
  with vars obtain r where r: "reader_var x i = Some r" by auto
  let ?gone = "\<lparr>fr_fileStream = None, fr_decodedStream = None, fr_stream = Garbage\<rparr>"
  let ?vs = "(lf_vars x)[i := Some ?gone] @ [Some r]"
  have i: "i < length (lf_vars x)" "lf_vars x ! i = Some r" using reader_var_Some [OF r] by auto
  have "owned_by (Some ?gone) = {#}" by (simp add: owned_by_def)
  with sum_list_update_add [OF i(1), of owned_by "Some ?gone"] i(2)
  have "(\<Sum>v\<leftarrow>?vs. owned_by v) = owned x" by (simp add: owned_def)
  moreover have "reader_wf (lf_objects x) q" if "Some q \<in> set ?vs" for q
    using that reader_var_wf [OF ok r] ok set_update_subset_insert [of "lf_vars x" i "Some ?gone"]
    by (auto simp: life_ok_def life_holding_def reader_wf_def)
  ultimately have "life_ok (x\<lparr>lf_vars := ?vs\<rparr>)" by (rule life_ok_vars [OF ok])
  moreover have "reader_move r = (r, ?gone)" by (simp add: reader_move_def FileReader_swap_pair)
  ultimately show ?thesis using Move_new r by simp
next
  case (Move_into i j)
  with vars obtain p q where "reader_var x i = Some p" "reader_var x j = Some q" by auto
  moreover obtain p' q' where "FileReader_move_assign (i = j) p q = (p', q')" by fastforce
  moreover from this have "(p', q') = (q, p) \<or> (p', q') = (p, q) \<and> i = j"
    by (auto simp: FileReader_move_assign_def FileReader_swap_pair split: if_splits)
  ultimately show ?thesis using Move_into exchange_ok [OF ok] by simp
next
  case (Swap_readers i j)
  with vars obtain p q where "reader_var x i = Some p" "reader_var x j = Some q" by auto
  with Swap_readers exchange_ok [OF ok this, of q p] show ?thesis by (simp add: FileReader_swap_pair)
next
  case (Use_reader i)
  with vars obtain r where r: "reader_var x i = Some r" by auto
  with Use_reader reader_use_wf [OF reader_var_wf [OF ok r]] ok show ?thesis by simp
next
  case (Drop_reader i)
  with vars obtain r where r: "reader_var x i = Some r" by auto
  let ?vs = "(lf_vars x)[i := None]"
  have i: "i < length (lf_vars x)" "lf_vars x ! i = Some r" using reader_var_Some [OF r] by auto
  have "(\<Sum>v\<leftarrow>?vs. owned_by v) + owned_by (Some r) = owned x"
    using sum_list_update_add [OF i(1), of owned_by None] i(2) by (simp add: owned_def owned_by_def)
  moreover have "reader_wf (lf_objects x) q" if "Some q \<in> set ?vs" for q
    using that ok set_update_subset_insert [of "lf_vars x" i None]
    by (auto simp: life_ok_def life_holding_def)
  ultimately have "life_holding (owned_by (Some r)) (x\<lparr>lf_vars := ?vs\<rparr>)"
    using life_holding_vars [OF ok [unfolded life_ok_def]] by simp
  from destroy_ok [OF this] obtain y where
    y: "reader_destroy r (x\<lparr>lf_vars := ?vs\<rparr>) = Some y" "life_ok y" by (auto simp: life_ok_def)
  have "reader_destroy r (x\<lparr>lf_vars := ?vs\<rparr>) = map_option (\<lambda>y. y\<lparr>lf_vars := ?vs\<rparr>) (reader_destroy r x)"
    by (cases "delete_stream (fr_decodedStream r) x") (simp_all add: reader_destroy_def delete_stream_vars)
  with y(1) obtain z where z: "reader_destroy r x = Some z" "y = z\<lparr>lf_vars := ?vs\<rparr>" by auto
  from reader_destroy_keeps_vars [OF z(1)] y(2) z Drop_reader r show ?thesis by simp
qed

lemma life_init_ok: "life_ok life_init"
  by (simp add: life_ok_def life_holding_def life_init_def owned_def live_decoders_def)

lemma life_step_vars: "life_step x a = Some y \<Longrightarrow> \<forall>i\<in>set (op_vars a). reader_var x i \<noteq> None"
  by (cases a) (auto simp: bind_Some_iff)

lemma life_reach_ok: "life_reach x \<Longrightarrow> life_ok x"
proof (induction rule: life_reach.induct)
  case (life_next x a y)
  with life_step_ok [OF life_next.IH life_step_vars, of a y] show ?case by simp
qed (rule life_init_ok)

lemma destroyed_owns_nothing:
  assumes "\<forall>v\<in>set (lf_vars x). v = None"
  shows "owned x = {#}"
proof -
  have "(\<forall>v\<in>set vs. v = None) \<Longrightarrow> (\<Sum>v\<leftarrow>vs. owned_by v) = {#}" for vs
    by (induction vs) (auto simp: owned_by_def)
  with assms show ?thesis by (simp add: owned_def)
qed

section \<open>Properties\<close>

text \<open>
  C12. The life of the streams behind \<open>FileReader\<close>. Whatever a program does with its readers,
  opens that succeed or throw, moves, assignments, also to itself, swaps and destructions in
  any order, nothing is deleted twice and no call follows a dangling pointer or reference:
  the only undefined step is to use a reader that has been moved from. When all readers are
  destroyed no stream is left, and the decoders ended are those set up, each once.
\<close>

theorem reader_streams_safe:
  assumes "life_reach x" and "\<forall>i\<in>set (op_vars a). reader_var x i \<noteq> None"
  shows "(life_step x a = None \<longleftrightarrow>
      (\<exists>i r. a = Use_reader i \<and> reader_var x i = Some r \<and> fr_fileStream r = None))
    \<and> ((\<forall>v\<in>set (lf_vars x). v = None) \<longrightarrow>
        lf_objects x = Map.empty \<and> mset (lf_ended x) = mset (lf_started x) \<and> distinct (lf_ended x))"
proof -
  have ok: "life_ok x" using life_reach_ok [OF assms(1)] .
  have "life_step x a = None \<longleftrightarrow> (\<exists>i r. a = Use_reader i \<and> reader_var x i = Some r \<and> fr_fileStream r = None)"
    using life_step_ok [OF ok assms(2)] by (auto split: option.splits)
  moreover have "lf_objects x = Map.empty \<and> mset (lf_ended x) = mset (lf_started x) \<and> distinct (lf_ended x)"
    if "\<forall>v\<in>set (lf_vars x). v = None"
  proof -
    have "mset_set (dom (lf_objects x)) = {#}" "finite (dom (lf_objects x))"
      using ok destroyed_owns_nothing [OF that] finite_objects [of "{#}" x]
      by (auto simp: life_ok_def life_holding_def)
    then have none: "lf_objects x = Map.empty" by (simp add: mset_set_empty_iff)
    then have "live_decoders x = {}" by (simp add: live_decoders_def)
    with ok none show ?thesis
      by (auto simp: life_ok_def life_holding_def dest: mset_eq_imp_distinct_iff)
  qed
  ultimately show ?thesis by blast
qed

text \<open>A reader is assigned to another one, and the first is moved from; both are destroyed.\<close>

theorem reader_streams_safe_witness:
  "\<exists>x y. life_step life_init (New_reader Opens_decoded) = Some x \<and> life_step x (Move_new 0) = Some y
     \<and> life_step y (Use_reader 1) \<noteq> None \<and> life_step y (Use_reader 0) = None \<and> life_step y (Drop_reader 0) \<noteq> None"
proof -
  obtain x where x: "life_step life_init (New_reader Opens_decoded) = Some x" "life_reach x"
    "lf_vars x = [Some \<lparr>fr_fileStream = Some 0, fr_decodedStream = Some 1, fr_stream = Raw 1\<rparr>]"
    using life_next [OF life_start, of "New_reader Opens_decoded"]
    by (simp add: new_file_stream_def new_decoding_stream_def life_init_def)
  then obtain y where y: "life_step x (Move_new 0) = Some y" "life_reach y"
    "lf_vars y = [Some \<lparr>fr_fileStream = None, fr_decodedStream = None, fr_stream = Garbage\<rparr>,
      Some \<lparr>fr_fileStream = Some 0, fr_decodedStream = Some 1, fr_stream = Raw 1\<rparr>]"
    using life_next [OF x(2), of "Move_new 0"]
    by (simp add: reader_var_def reader_move_def FileReader_swap_pair)
  have "reader_var y 0 \<noteq> None" "reader_var y (Suc 0) \<noteq> None" using y(3) by (simp_all add: reader_var_def)
  then have "life_step y (Use_reader 1) \<noteq> None" "life_step y (Use_reader 0) = None" "life_step y (Drop_reader 0) \<noteq> None"
    using reader_streams_safe [OF y(2), of "Use_reader 1"] reader_streams_safe [OF y(2), of "Use_reader 0"]
      reader_streams_safe [OF y(2), of "Drop_reader 0"] y(3)
    by (simp_all add: reader_var_def del: life_step.simps)
  with x(1) y(1) show ?thesis by blast
qed

end
