(* ===== verification/Nb_DoneCallback.thy ===== *)
theory Nb_DoneCallback
  imports Nb_PacketSource
begin

text \<open>
  \<open>PcapPacketSource::readNextPacket\<close> with a done callback that does something: the callback
  is a function on the state it captured and on the source itself, to which it may add
  files, and it may throw. \<open>Nb_PacketSource\<close> has the callback that only counts its calls.
\<close>

section \<open>Reading with a callback\<close>

text \<open>The state the callback captured, the heap and the source; None is undefined behaviour.\<close>

type_synonym 'c done_callback =
  "'c \<Rightarrow> heap \<Rightarrow> PcapPacketSource \<Rightarrow> (exn + 'c \<times> PcapPacketSource \<times> heap) option"

definition readNextPacket_with ::
  "endian \<Rightarrow> 'c done_callback \<Rightarrow> 'c \<Rightarrow> heap \<Rightarrow> PcapPacketSource
     \<Rightarrow> (exn + Packet \<times> 'c \<times> PcapPacketSource \<times> heap) option" where
  "readNextPacket_with e callback c h s =
     do { (s, h) \<leftarrow>
            (case ctx_reader (ps_current s) of
               Some i \<Rightarrow> PcapPacketSource_returnToQueue e h s i
             | None \<Rightarrow> Some (s, h));
          case ps_queue s of
            [] \<Rightarrow>
              let s = s\<lparr>ps_current := (ps_current s)\<lparr>ctx_reader := None\<rparr>\<rparr> in
              if ps_doneCallback s then
                do { r \<leftarrow> callback c h s;
                     Some (case r of Inl x \<Rightarrow> Inl x | Inr y \<Rightarrow> Inr (Packet_default, y)) }
              else Some (Inr (Packet_default, c, s, h))
          | (k, cx) # q \<Rightarrow>
              Some (Inr (ctx_packet cx, c, s\<lparr>ps_current := cx, ps_queue := q\<rparr>, h)) }"

text \<open>The callback that counts its calls.\<close>

definition count_calls :: "'c done_callback" where
  "count_calls c h s = Some (Inr (c, s\<lparr>ps_done_calls := Suc (ps_done_calls s)\<rparr>, h))"

lemma readNextPacket_with_count:
  "readNextPacket_with e count_calls c h s
     = map_option (\<lambda>(p, s, h). Inr (p, c, s, h)) (PcapPacketSource_readNextPacket e h s)"
  unfolding readNextPacket_with_def PcapPacketSource_readNextPacket_eq
  by (cases "case ctx_reader (ps_current s) of
        Some i \<Rightarrow> PcapPacketSource_returnToQueue e h s i | None \<Rightarrow> Some (s, h)")
    (auto simp: count_calls_def Let_def split: list.split)

text \<open>
  A read that finds a packet does not depend on the callback; one that finds none hands
  the callback a source that is done.
\<close>

lemma readNextPacket_with_outcome:
  assumes "Source_ok h s"
  shows "(case Source_rest e (h, s) of
      [] \<Rightarrow> \<exists>h' s'. Source_ok h' s' \<and> PcapPacketSource_isDone s' \<and> ps_doneCallback s' = ps_doneCallback s
          \<and> readNextPacket_with e f c h s =
              (if ps_doneCallback s then
                 map_option (\<lambda>r. case r of Inl x \<Rightarrow> Inl x | Inr y \<Rightarrow> Inr (Packet_default, y)) (f c h' s')
               else Some (Inr (Packet_default, c, s', h')))
    | v # ws \<Rightarrow> \<exists>p h' s'. readNextPacket_with e f c h s = Some (Inr (p, c, s', h')) \<and> Source_ok h' s'
          \<and> Packet_bool p \<and> packet_view h' p = Some v \<and> Source_rest e (h', s') = ws
          \<and> \<not> PcapPacketSource_isDone s' \<and> ps_doneCallback s' = ps_doneCallback s)"
proof -
  obtain s1 h1 where s1: "(case ctx_reader (ps_current s) of
        Some i \<Rightarrow> PcapPacketSource_returnToQueue e h s i
      | None \<Rightarrow> Some (s, h)) = Some (s1, h1)"
    "Source_core h1 (ps_storage s1) (ps_queue s1)" "Source_rest e (h, s) = kmerge (Source_lanes e h1 s1)"
    "ps_doneCallback s1 = ps_doneCallback s" "ps_done_calls s1 = ps_done_calls s"
    using requeue_outcome [OF assms, of e] by blast
  show ?thesis
  proof (cases "ps_queue s1")
    case Nil
    let ?s = "s1\<lparr>ps_current := (ps_current s1)\<lparr>ctx_reader := None\<rparr>\<rparr>"
    have "Source_rest e (h, s) = []" using Nil s1(3) by (simp add: Source_lanes_def)
    moreover have "Source_ok h1 ?s" "PcapPacketSource_isDone ?s"
      using Nil s1(2) by (simp_all add: Source_ok_def current_ok_def PcapPacketSource_isDone_def)
    moreover have "readNextPacket_with e f c h s =
        (if ps_doneCallback s then
           map_option (\<lambda>r. case r of Inl x \<Rightarrow> Inl x | Inr y \<Rightarrow> Inr (Packet_default, y)) (f c h1 ?s)
         else Some (Inr (Packet_default, c, ?s, h1)))"
      using Nil s1(1,4)
      by (auto simp: readNextPacket_with_def Let_def map_option_case split: option.split)
    ultimately show ?thesis using s1(4) by (simp only: list.case) (intro exI conjI; simp)
  next
    case (Cons y q)
    obtain k cx where y: "y = (k, cx)" by (cases y)
    have "entry_ok h1 (ps_storage s1) (k, cx)" using s1(2) Cons y by (simp add: Source_core_def)
    then obtain v ws where v: "Source_rest e (h, s) = v # ws"
      using Cons y s1(3) by (auto simp: Source_lanes_def entry_lane_def)
    have "readNextPacket_with e f c h s
        = map_option (\<lambda>(p, s, h). Inr (p, c, s, h)) (PcapPacketSource_readNextPacket e h s)"
      using Cons s1(1) y
      by (simp add: readNextPacket_with_def PcapPacketSource_readNextPacket_eq)
    with readNextPacket_outcome [OF assms, of e] v show ?thesis
      by (auto simp: next_outcome_def)
  qed
qed

section \<open>The invariant under any callback\<close>

text \<open>A callback that keeps the invariant of a source that is done.\<close>

definition callback_ok :: "'c done_callback \<Rightarrow> bool" where
  "callback_ok f \<longleftrightarrow>
     (\<forall>c h s. Source_ok h s \<longrightarrow> PcapPacketSource_isDone s \<longrightarrow>
        (\<exists>r. f c h s = Some r \<and> (case r of Inl x \<Rightarrow> True | Inr (c', s', h') \<Rightarrow> Source_ok h' s')))"

lemma readNextPacket_with_ok:
  assumes "callback_ok f" and "Source_ok h s"
  shows "\<exists>r. readNextPacket_with e f c h s = Some r
    \<and> (case r of Inl x \<Rightarrow> True | Inr (p, c', s', h') \<Rightarrow> Source_ok h' s')"
proof (cases "Source_rest e (h, s)")
  case Nil
  with readNextPacket_with_outcome [OF assms(2), of e f c] obtain h' s' where
    s': "Source_ok h' s'" "PcapPacketSource_isDone s'"
      "readNextPacket_with e f c h s =
        (if ps_doneCallback s then
           map_option (\<lambda>r. case r of Inl x \<Rightarrow> Inl x | Inr y \<Rightarrow> Inr (Packet_default, y)) (f c h' s')
         else Some (Inr (Packet_default, c, s', h')))"
    by auto
  obtain r where "f c h' s' = Some r" "case r of Inl x \<Rightarrow> True | Inr (c', s', h') \<Rightarrow> Source_ok h' s'"
    using assms(1) s'(1,2) unfolding callback_ok_def by blast
  with s' show ?thesis by (cases r) auto
next
  case (Cons v ws)
  with readNextPacket_with_outcome [OF assms(2), of e f c] show ?thesis by auto
qed

section \<open>Client: a callback that adds the next files\<close>

text \<open>
  The callback of a client that replays batches of files one after the other: it adds the
  files of the next batch to the source it is called by.
\<close>

fun next_batch :: "endian \<Rightarrow> platform \<Rightarrow> string list list done_callback" where
  "next_batch e pf [] h s = Some (Inr ([], s, h))"
| "next_batch e pf (names # batches) h s =
     do { r \<leftarrow> add_files e pf h s names;
          Some (case r of Inl x \<Rightarrow> Inl x | Inr y \<Rightarrow> Inr (batches, y)) }"

text \<open>The loop \<open>while (!isDone())\<close> over the packets.\<close>

partial_function (option) replay_loop ::
  "endian \<Rightarrow> 'c done_callback \<Rightarrow> 'c \<Rightarrow> heap \<Rightarrow> PcapPacketSource
     \<Rightarrow> (exn + captured list \<times> 'c \<times> PcapPacketSource \<times> heap) option" where
  "replay_loop e f c h s =
     (if PcapPacketSource_isDone s then Some (Inr ([], c, s, h))
      else do {
        r \<leftarrow> readNextPacket_with e f c h s;
        case r of
          Inl x \<Rightarrow> Some (Inl x)
        | Inr (p, c, s, h) \<Rightarrow>
            do { vs \<leftarrow> (if Packet_bool p then map_option (\<lambda>v. [v]) (packet_view h p) else Some []);
                 y \<leftarrow> replay_loop e f c h s;
                 Some (map_sum id (map_prod ((@) vs) id) y) } })"

definition replay_program ::
  "endian \<Rightarrow> platform \<Rightarrow> heap \<Rightarrow> string list list
     \<Rightarrow> (exn + captured list \<times> string list list \<times> PcapPacketSource \<times> heap) option" where
  "replay_program e pf h batches =
     do { r \<leftarrow> next_batch e pf batches h (PcapPacketSource_setDoneCallback PcapPacketSource_default True);
          case r of
            Inl x \<Rightarrow> Some (Inl x)
          | Inr (c, s, h) \<Rightarrow> replay_loop e (next_batch e pf) c h s }"

definition batch_packets :: "endian \<Rightarrow> platform \<Rightarrow> string list \<Rightarrow> captured list" where
  "batch_packets e pf names = merge_lanes (map (file_packets e pf) names)"

lemma next_batch_outcome:
  assumes "Source_ok h s" and "PcapPacketSource_isDone s" and "\<forall>name\<in>set names. opens pf name"
  obtains s' h' where "next_batch e pf (names # batches) h s = Some (Inr (batches, s', h'))"
    and "Source_ok h' s'" and "Source_rest e (h', s') = batch_packets e pf names"
    and "PcapPacketSource_isDone s' \<longleftrightarrow> batch_packets e pf names = []"
    and "ps_doneCallback s' = ps_doneCallback s"
proof -
  obtain s' h' where s': "add_files e pf h s names = Some (Inr (s', h'))" "Source_ok h' s'"
    "Source_lanes e h' s' = foldl (\<lambda>Q l. lane_insert l Q) (Source_lanes e h s) (map (file_packets e pf) names)"
    "ps_current s' = ps_current s" "current_lane e s' = current_lane e s"
    "ps_doneCallback s' = ps_doneCallback s"
    using add_files_outcome [OF assms(1,3), of e] by blast
  have "Source_lanes e h s = []" "current_lane e s = []" "ctx_reader (ps_current s) = None"
    using assms(2) by (simp_all add: PcapPacketSource_isDone_def Source_lanes_def current_lane_def)
  with s' have rest: "Source_rest e (h', s') = batch_packets e pf names" "ctx_reader (ps_current s') = None"
    by (simp_all add: Source_rest_def merge_lanes_def batch_packets_def)
  with isDone_initial [of s' e h'] s' show thesis by (intro that [of s' h']) simp_all
qed

text \<open>What the client still reads: the packets of the source and of the batches up to one without packets.\<close>

definition replayed :: "endian \<Rightarrow> platform \<Rightarrow> string list list \<Rightarrow> captured list" where
  "replayed e pf batches = concat (takeWhile (\<lambda>vs. vs \<noteq> []) (map (batch_packets e pf) batches))"

lemma replayed_simps [simp]:
  "replayed e pf [] = []"
  "replayed e pf (names # batches) =
     (if batch_packets e pf names = [] then [] else batch_packets e pf names @ replayed e pf batches)"
  by (simp_all add: replayed_def)

text \<open>
  The loop up to the next call of the callback: the packets of the source, then the
  callback on a source that is done.
\<close>

lemma replay_loop_until_callback:
  assumes "Source_ok h s" and "ps_doneCallback s" and "\<not> PcapPacketSource_isDone s"
  shows "\<exists>h1 s1. Source_ok h1 s1 \<and> PcapPacketSource_isDone s1 \<and> ps_doneCallback s1
    \<and> replay_loop e f c h s =
        do { r \<leftarrow> f c h1 s1;
             case r of
               Inl x \<Rightarrow> Some (Inl x)
             | Inr (c, s2, h2) \<Rightarrow>
                 map_option (map_sum id (map_prod ((@) (Source_rest e (h, s))) id)) (replay_loop e f c h2 s2) }"
  using assms
proof (induction "Source_rest e (h, s)" arbitrary: h s)
  case Nil
  have rest: "Source_rest e (h, s) = []" using Nil.hyps by simp
  obtain h1 s1 where "Source_ok h1 s1" "PcapPacketSource_isDone s1" "ps_doneCallback s1 = ps_doneCallback s"
    "readNextPacket_with e f c h s =
        (if ps_doneCallback s then
           map_option (\<lambda>r. case r of Inl x \<Rightarrow> Inl x | Inr y \<Rightarrow> Inr (Packet_default, y)) (f c h1 s1)
         else Some (Inr (Packet_default, c, s1, h1)))"
    using readNextPacket_with_outcome [OF Nil.prems(1), of e f c] by (auto simp: rest)
  with Nil.prems(2,3) show ?case
    by (intro exI [of _ h1] exI [of _ s1], subst replay_loop.simps, cases "f c h1 s1")
      (auto simp: rest sum.map_id0 prod.map_id0 option.map_id0 map_option_case
        split: sum.split option.split)
next
  case (Cons v ws)
  have rest: "Source_rest e (h, s) = v # ws" using Cons.hyps(2) by simp
  obtain p h' s' where r: "readNextPacket_with e f c h s = Some (Inr (p, c, s', h'))"
    "Source_ok h' s'" "Packet_bool p" "packet_view h' p = Some v" "ws = Source_rest e (h', s')"
    "\<not> PcapPacketSource_isDone s'" "ps_doneCallback s' = ps_doneCallback s"
    using readNextPacket_with_outcome [OF Cons.prems(1), of e f c] by (auto simp: rest)
  with Cons.prems(2) have cb: "ps_doneCallback s'" by simp
  obtain h1 s1 where 1: "Source_ok h1 s1" "PcapPacketSource_isDone s1" "ps_doneCallback s1"
    "replay_loop e f c h' s' =
        do { r \<leftarrow> f c h1 s1;
             case r of
               Inl x \<Rightarrow> Some (Inl x)
             | Inr (c, s2, h2) \<Rightarrow>
                 map_option (map_sum id (map_prod ((@) ws) id)) (replay_loop e f c h2 s2) }"
    using Cons.hyps(1) [OF r(5,2) cb r(6)] r(5) by blast
  have "replay_loop e f c h s = map_option (map_sum id (map_prod ((@) [v]) id)) (replay_loop e f c h' s')"
    using r(1,3,4) Cons.prems(3) by (subst replay_loop.simps) (simp add: map_option_case split: option.split)
  moreover have app: "(@) (v # ws) = (\<lambda>vs. v # ws @ vs)" by auto
  have "map_option (map_sum id (map_prod ((@) [v]) id)) (replay_loop e f c h' s')
      = do { r \<leftarrow> f c h1 s1;
             case r of
               Inl x \<Rightarrow> Some (Inl x)
             | Inr (c, s2, h2) \<Rightarrow>
                 map_option (map_sum id (map_prod ((@) (v # ws)) id)) (replay_loop e f c h2 s2) }"
    unfolding 1(4) app
    by (cases "f c h1 s1")
      (auto simp: option.map_comp sum.map_comp prod.map_comp comp_def id_def split: sum.split)
  ultimately show ?case using 1(1-3) rest by auto
qed

lemma replay_loop_replay:
  assumes "Source_ok h s" and "ps_doneCallback s" and "\<not> PcapPacketSource_isDone s"
    and "\<forall>names\<in>set batches. \<forall>name\<in>set names. opens pf name"
  shows "\<exists>rest s' h'. replay_loop e (next_batch e pf) batches h s
      = Some (Inr (Source_rest e (h, s) @ replayed e pf batches, rest, s', h'))
    \<and> PcapPacketSource_isDone s'"
  using assms
proof (induction batches arbitrary: h s)
  case Nil
  obtain h1 s1 where "PcapPacketSource_isDone s1"
    "replay_loop e (next_batch e pf) [] h s =
      map_option (map_sum id (map_prod ((@) (Source_rest e (h, s))) id)) (replay_loop e (next_batch e pf) [] h1 s1)"
    using replay_loop_until_callback [OF Nil.prems(1-3), of e "next_batch e pf" "[]"] by auto
  then show ?case by (simp add: replay_loop.simps [of e _ _ h1 s1])
next
  case (Cons names batches)
  obtain h1 s1 where 1: "Source_ok h1 s1" "PcapPacketSource_isDone s1" "ps_doneCallback s1"
    "replay_loop e (next_batch e pf) (names # batches) h s =
        do { r \<leftarrow> next_batch e pf (names # batches) h1 s1;
             case r of
               Inl x \<Rightarrow> Some (Inl x)
             | Inr (c, s2, h2) \<Rightarrow>
                 map_option (map_sum id (map_prod ((@) (Source_rest e (h, s))) id))
                   (replay_loop e (next_batch e pf) c h2 s2) }"
    using replay_loop_until_callback [OF Cons.prems(1-3), of e "next_batch e pf" "names # batches"] by blast
  have "\<forall>name\<in>set names. opens pf name" using Cons.prems(4) by simp
  from next_batch_outcome [OF 1(1,2) this, of e batches] obtain s2 h2 where
    2: "next_batch e pf (names # batches) h1 s1 = Some (Inr (batches, s2, h2))" "Source_ok h2 s2"
    "Source_rest e (h2, s2) = batch_packets e pf names"
    "PcapPacketSource_isDone s2 \<longleftrightarrow> batch_packets e pf names = []" "ps_doneCallback s2 = ps_doneCallback s1" .
  have step: "replay_loop e (next_batch e pf) (names # batches) h s =
      map_option (map_sum id (map_prod ((@) (Source_rest e (h, s))) id)) (replay_loop e (next_batch e pf) batches h2 s2)"
    using 1(4) 2(1) by (simp del: next_batch.simps)
  show ?case
  proof (cases "batch_packets e pf names = []")
    case True
    with 2(4) step show ?thesis by (simp add: replay_loop.simps [of e _ _ h2 s2])
  next
    case False
    with 1(3) 2 Cons.IH [of h2 s2] Cons.prems(4) step show ?thesis by auto
  qed
qed

section \<open>Properties\<close>

text \<open>
  C7. The done callback may change the source: with a callback that adds the files of the next
  batch, the loop of the client delivers, for any files that open, the merge of the first
  batch, then the merge of the second, and so on, each batch in the order of its times; it
  ends when there is no batch left, or at the first batch without any packet, as the
  source is then done although the callback has more to add.
\<close>

theorem replay_delivers_batches:
  assumes "heap_ok h" and "\<forall>names\<in>set batches. \<forall>name\<in>set names. opens pf name"
  shows "\<exists>rest s' h'. replay_program e pf h batches
      = Some (Inr (concat (takeWhile (\<lambda>vs. vs \<noteq> []) (map (batch_packets e pf) batches)), rest, s', h'))
    \<and> PcapPacketSource_isDone s'"
proof (cases batches)
  case Nil
  then show ?thesis
    by (simp add: replay_program_def replay_loop.simps PcapPacketSource_isDone_def
        PcapPacketSource_setDoneCallback_def)
next
  case (Cons names bs)
  let ?s = "PcapPacketSource_setDoneCallback PcapPacketSource_default True :: PcapPacketSource"
  have s: "Source_ok h ?s" "PcapPacketSource_isDone ?s" "ps_doneCallback ?s"
    using Source_ok_setDoneCallback [OF Source_default_ok [OF assms(1)]]
    by (simp_all add: PcapPacketSource_isDone_def PcapPacketSource_setDoneCallback_def)
  have "\<forall>name\<in>set names. opens pf name" using assms(2) Cons by simp
  from next_batch_outcome [OF s(1,2) this, of e bs] obtain s2 h2 where
    2: "next_batch e pf (names # bs) h ?s = Some (Inr (bs, s2, h2))" "Source_ok h2 s2"
    "Source_rest e (h2, s2) = batch_packets e pf names"
    "PcapPacketSource_isDone s2 \<longleftrightarrow> batch_packets e pf names = []" "ps_doneCallback s2 = ps_doneCallback ?s" .
  have start: "replay_program e pf h batches = replay_loop e (next_batch e pf) bs h2 s2"
    using 2(1) Cons by (simp add: replay_program_def del: next_batch.simps)
  show ?thesis
  proof (cases "batch_packets e pf names = []")
    case True
    with 2(4) start Cons show ?thesis by (simp add: replay_loop.simps [of e _ _ h2 s2])
  next
    case False
    with replay_loop_replay [OF 2(2), of bs pf e] 2 s(3) start Cons assms(2) show ?thesis
      by (auto simp: replayed_def)
  qed
qed

theorem replay_delivers_batches_witness:
  "\<exists>rest s' h'. replay_program Little (sample_platform2 Little) empty_heap [[''b.pcap''], [''a.pcap''], []]
      = Some (Inr ([sample_merged ! 1, sample_merged ! 0, sample_merged ! 2], rest, s', h'))
    \<and> PcapPacketSource_isDone s'"
proof -
  have "batch_packets Little (sample_platform2 Little) [''b.pcap''] = [sample_merged ! 1]"
    "batch_packets Little (sample_platform2 Little) [''a.pcap''] = [sample_merged ! 0, sample_merged ! 2]"
    "batch_packets Little (sample_platform2 Little) [] = []"
    by (simp_all add: batch_packets_def merge_lanes_def sample_packets)
  then show ?thesis
    using replay_delivers_batches [OF empty_heap_ok, of "[[''b.pcap''], [''a.pcap''], []]" "sample_platform2 Little" Little]
    by (simp add: opens_plain)
qed

text \<open>
  C22. \<open>readNextPacket\<close> keeps the invariant of the source with any callback that keeps it: it is
  called only when the source is done, with the source in a state where it may call every
  operation, and whatever it adds or throws, the queue, the readers and the buffers stay
  consistent.
\<close>

theorem done_callback_keeps_invariant:
  assumes "\<forall>c h s. Source_ok h s \<longrightarrow> PcapPacketSource_isDone s \<longrightarrow>
        (\<exists>r. f c h s = Some r \<and> (case r of Inl x \<Rightarrow> True | Inr (c', s', h') \<Rightarrow> Source_ok h' s'))"
    and "Source_ok h s"
  shows "\<exists>r. readNextPacket_with e f c h s = Some r
    \<and> (case r of Inl x \<Rightarrow> True | Inr (p, c', s', h') \<Rightarrow> Source_ok h' s')"
  using readNextPacket_with_ok [of f] assms by (simp add: callback_ok_def)

lemma next_batch_ok: "callback_ok (next_batch e pf)"
  unfolding callback_ok_def
proof (intro allI impI)
  fix c h s
  assume s: "Source_ok h s" "PcapPacketSource_isDone s"
  show "\<exists>r. next_batch e pf c h s = Some r \<and> (case r of Inl x \<Rightarrow> True | Inr (c', s', h') \<Rightarrow> Source_ok h' s')"
  proof (cases c)
    case (Cons names batches)
    show ?thesis
    proof (cases "\<forall>name\<in>set names. opens pf name")
      case True
      with add_files_outcome [OF s(1), of names pf e] Cons show ?thesis by auto
    next
      case False
      with add_files_throws [OF s(1), of names pf e] Cons show ?thesis by auto
    qed
  qed (use s in simp)
qed

theorem done_callback_keeps_invariant_witness:
  "\<exists>r. readNextPacket_with Little (next_batch Little (sample_platform2 Little)) [[''a.pcap'']] empty_heap
      (PcapPacketSource_setDoneCallback PcapPacketSource_default True) = Some r
    \<and> (case r of Inl x \<Rightarrow> True | Inr (p, c', s', h') \<Rightarrow> Source_ok h' s')"
  using next_batch_ok unfolding callback_ok_def
  by (rule done_callback_keeps_invariant)
    (intro Source_ok_setDoneCallback Source_default_ok empty_heap_ok)

end
