(* ===== verification/Nb_Relay.thy ===== *)
theory Nb_Relay
  imports Nb_SocketOps
begin

text \<open>
  Two clients of the socket operations and the buffers together: a relay that receives into
  a static buffer and sends from it, in any order and with partial transfers, and a loop
  that sends the whole of a consuming buffer. The kernel keeps a record of the bytes.
\<close>

section \<open>The kernel of a relay\<close>

text \<open>The memory of the program, and the bytes received and sent so far.\<close>

record pipes =
  pi_mem :: memory
  pi_in :: "u8 list"
  pi_out :: "u8 list"

text \<open>
  The documented behaviour of \<open>recv\<close> and \<open>send\<close> with memory that can be accessed: a failure
  gives -1 and changes nothing; otherwise \<open>recv\<close> stores at most as many bytes as there is room
  and gives their number, and \<open>send\<close> takes over any number of the first bytes.
\<close>

definition pipe_recv_documented :: "pipes sys_transfer \<Rightarrow> bool" where
  "pipe_recv_documented sys \<longleftrightarrow>
     (\<forall>fd p n x. readable (pi_mem x) p (unat n) \<longrightarrow>
        (\<exists>errno. sys fd p n 0 x = (-1, errno, x))
        \<or> (\<exists>xs m errno. length xs \<le> unat n \<and> length xs < 2 ^ 63 \<and> store_bytes (pi_mem x) p xs = Some m
             \<and> sys fd p n 0 x = (of_nat (length xs), errno, x\<lparr>pi_mem := m, pi_in := pi_in x @ xs\<rparr>)))"

definition pipe_send_documented :: "pipes sys_transfer \<Rightarrow> bool" where
  "pipe_send_documented sys \<longleftrightarrow>
     (\<forall>fd p n x. readable (pi_mem x) p (unat n) \<longrightarrow>
        (\<exists>errno. sys fd p n 0 x = (-1, errno, x))
        \<or> (\<exists>xs errno. length xs \<le> unat n \<and> length xs < 2 ^ 63
             \<and> load_bytes (pi_mem x) p (length xs) = Some xs
             \<and> sys fd p n 0 x = (of_nat (length xs), errno, x\<lparr>pi_out := pi_out x @ xs\<rparr>)))"

section \<open>The relay\<close>

datatype relay_op = Receive | Transmit

definition relay_step ::
  "pipes sys_transfer \<Rightarrow> pipes sys_transfer \<Rightarrow> Socket \<Rightarrow> Socket \<Rightarrow> relay_op \<Rightarrow> StaticBuffer \<times> pipes
     \<Rightarrow> (StaticBuffer \<times> pipes) option" where
  "relay_step sys_recv sys_send from_socket to_socket a y =
     (case y of (s, x) \<Rightarrow>
        case a of
          Receive \<Rightarrow>
            (case recv_buffer sys_recv from_socket (StaticBuffer_prepare s) x of (r, x) \<Rightarrow>
               if TransmitResult_bool r then Some (StaticBuffer_commit s (TransmitResult_bytes r), x)
               else Some (s, x))
        | Transmit \<Rightarrow>
            (case send_buffer sys_send to_socket (StaticBuffer_data s) x of (r, x) \<Rightarrow>
               if TransmitResult_bool r then
                 do { (m, s) \<leftarrow> StaticBuffer_consume (pi_mem x) s (TransmitResult_bytes r);
                      Some (s, x\<lparr>pi_mem := m\<rparr>) }
               else Some (s, x)))"

primrec relay_run ::
  "pipes sys_transfer \<Rightarrow> pipes sys_transfer \<Rightarrow> Socket \<Rightarrow> Socket \<Rightarrow> relay_op list \<Rightarrow> StaticBuffer \<times> pipes
     \<Rightarrow> (StaticBuffer \<times> pipes) option" where
  "relay_run sys_recv sys_send from_socket to_socket [] y = Some y"
| "relay_run sys_recv sys_send from_socket to_socket (a # as) y =
     do { y \<leftarrow> relay_step sys_recv sys_send from_socket to_socket a y;
          relay_run sys_recv sys_send from_socket to_socket as y }"

text \<open>What has been received and not yet sent is in the buffer.\<close>

definition relay_ok :: "StaticBuffer \<times> pipes \<Rightarrow> bool" where
  "relay_ok y \<longleftrightarrow> StaticBuffer_ok (pi_mem (snd y)) (fst y)
     \<and> pi_in (snd y) = pi_out (snd y) @ StaticBuffer_content (pi_mem (snd y)) (fst y)"

lemma transmit_result_count:
  assumes "length xs < 2 ^ 63"
  shows "TransmitResult_bool (TransmitResult_make errno (of_nat (length xs))) \<longleftrightarrow> xs \<noteq> []"
    and "TransmitResult_bytes (TransmitResult_make errno (of_nat (length xs))) = of_nat (length xs)"
    and "unat (of_nat (length xs) :: u64) = length xs"
proof -
  have "sint (of_nat (length xs) :: u64) = int (length xs)"
    using assms by (simp add: signed_of_nat signed_take_bit_int_eq_self)
  then show "TransmitResult_bool (TransmitResult_make errno (of_nat (length xs))) \<longleftrightarrow> xs \<noteq> []"
    by (simp add: TransmitResult_bool_def TransmitResult_make_def)
  show "TransmitResult_bytes (TransmitResult_make errno (of_nat (length xs))) = of_nat (length xs)"
    by (simp add: TransmitResult_bytes_def TransmitResult_make_def)
  show "unat (of_nat (length xs) :: u64) = length xs"
    using assms by (simp add: unat_of_nat take_bit_nat_eq_self)
qed

lemma transmit_failed: "\<not> TransmitResult_bool (TransmitResult_make errno (-1))"
  by (simp add: TransmitResult_bool_def TransmitResult_make_def)

lemma relay_receive_ok:
  assumes sys: "pipe_recv_documented sys" and ok: "relay_ok (s, x)"
  shows "\<exists>y. relay_step sys sys_send fd fd' Receive (s, x) = Some y \<and> relay_ok y
    \<and> sb_capacity (fst y) = sb_capacity s"
proof -
  let ?p = "ptr_add (sb_data s) (unat (sb_size s))" and ?n = "sb_capacity s - sb_size s"
  have s: "StaticBuffer_ok (pi_mem x) s" using ok by (simp add: relay_ok_def)
  then have n: "unat (sb_size s) + unat ?n = unat (sb_capacity s)"
    by (simp add: StaticBuffer_ok_def unat_sub word_le_nat_alt)
  have "readable (pi_mem x) ?p (unat ?n)"
    using readable_sub [of "pi_mem x" "sb_data s" "unat (sb_capacity s)" "unat (sb_size s)" "unat ?n"] n s
    by (simp add: StaticBuffer_ok_def)
  then consider (fail) errno where "sys (sock fd) ?p ?n 0 x = (-1, errno, x)"
    | (got) xs m errno where "length xs \<le> unat ?n" "length xs < 2 ^ 63" "store_bytes (pi_mem x) ?p xs = Some m"
      "sys (sock fd) ?p ?n 0 x = (of_nat (length xs), errno, x\<lparr>pi_mem := m, pi_in := pi_in x @ xs\<rparr>)"
    using sys unfolding pipe_recv_documented_def by metis
  then show ?thesis
  proof cases
    case fail
    then have "relay_step sys sys_send fd fd' Receive (s, x) = Some (s, x)"
      by (simp add: relay_step_def recv_buffer_def recv_def transfer_def StaticBuffer_prepare_def
          MutableBuffer_make_def bufferCast_mutable_def bufferSize_mutable_def Socket_native_def transmit_failed)
    with ok show ?thesis by auto
  next
    case got
    let ?s = "if xs = [] then s else StaticBuffer_commit s (of_nat (length xs))"
    let ?x = "x\<lparr>pi_mem := m, pi_in := pi_in x @ xs\<rparr>"
    have "relay_step sys sys_send fd fd' Receive (s, x) = Some (?s, ?x)"
      using got(4) transmit_result_count [OF got(2)]
      by (simp add: relay_step_def recv_buffer_def recv_def transfer_def StaticBuffer_prepare_def
          MutableBuffer_make_def bufferCast_mutable_def bufferSize_mutable_def Socket_native_def)
    moreover have fits: "unat (sb_size s) + length xs \<le> unat (sb_capacity s)" using got(1) n by simp
    moreover have "m = pi_mem x" if "xs = []" using got(3) that by (auto simp: store_bytes_def)
    ultimately show ?thesis
      using ok StaticBuffer_append [OF s fits got(3)]
      by (auto simp: relay_ok_def StaticBuffer_commit_def)
  qed
qed

lemma relay_transmit_ok:
  assumes sys: "pipe_send_documented sys" and ok: "relay_ok (s, x)"
  shows "\<exists>y. relay_step sys_recv sys fd' fd Transmit (s, x) = Some y \<and> relay_ok y
    \<and> sb_capacity (fst y) = sb_capacity s"
proof -
  have s: "StaticBuffer_ok (pi_mem x) s" using ok by (simp add: relay_ok_def)
  note load = StaticBuffer_load [OF s]
  then have "readable (pi_mem x) (sb_data s) (unat (sb_size s))" by (simp add: readable_load)
  then consider (fail) errno where "sys (sock fd) (sb_data s) (sb_size s) 0 x = (-1, errno, x)"
    | (sent) xs errno where "length xs \<le> unat (sb_size s)" "length xs < 2 ^ 63"
      "load_bytes (pi_mem x) (sb_data s) (length xs) = Some xs"
      "sys (sock fd) (sb_data s) (sb_size s) 0 x = (of_nat (length xs), errno, x\<lparr>pi_out := pi_out x @ xs\<rparr>)"
    using sys unfolding pipe_send_documented_def by metis
  then show ?thesis
  proof cases
    case fail
    then have "relay_step sys_recv sys fd' fd Transmit (s, x) = Some (s, x)"
      by (simp add: relay_step_def send_buffer_def send_def transfer_def StaticBuffer_data_def
          ConstBuffer_make_def bufferCast_def bufferSize_def Socket_native_def transmit_failed)
    with ok show ?thesis by auto
  next
    case sent
    let ?x = "x\<lparr>pi_out := pi_out x @ xs\<rparr>" and ?n = "of_nat (length xs) :: u64"
    note count = transmit_result_count [OF sent(2)]
    have xs: "xs = take (length xs) (StaticBuffer_content (pi_mem x) s)"
      using load_bytes_prefix [OF load(1) sent(1)] sent(3) by simp
    have "?n \<le> sb_size s" using sent(1) count(3) by (simp add: word_le_nat_alt)
    from StaticBuffer_consume_drop [OF s this] obtain m' s' where
      c: "StaticBuffer_consume (pi_mem x) s ?n = Some (m', s')" "StaticBuffer_ok m' s'"
      "StaticBuffer_content m' s' = drop (length xs) (StaticBuffer_content (pi_mem x) s)"
      "sb_capacity s' = sb_capacity s"
      using count(3) by auto
    have step: "relay_step sys_recv sys fd' fd Transmit (s, x) =
        (if xs = [] then Some (s, ?x) else Some (s', ?x\<lparr>pi_mem := m'\<rparr>))"
      using sent(4) count c(1)
      by (simp add: relay_step_def send_buffer_def send_def transfer_def StaticBuffer_data_def
          ConstBuffer_make_def bufferCast_def bufferSize_def Socket_native_def)
    have "StaticBuffer_content (pi_mem x) s = xs @ StaticBuffer_content m' s'"
      using xs c(3) by (metis append_take_drop_id)
    with ok have "pi_in x = (pi_out x @ xs) @ StaticBuffer_content m' s'" by (simp add: relay_ok_def)
    with ok step c(2,4) show ?thesis by (cases "xs = []") (simp_all add: relay_ok_def)
  qed
qed

lemma relay_run_ok:
  assumes "pipe_recv_documented sys_recv" and "pipe_send_documented sys_send" and "relay_ok y"
  shows "\<exists>z. relay_run sys_recv sys_send fd fd' as y = Some z \<and> relay_ok z
    \<and> sb_capacity (fst z) = sb_capacity (fst y)"
  using assms(3)
proof (induction "as" arbitrary: y)
  case (Cons a as)
  obtain s x where y: "y = (s, x)" by (cases y)
  have "\<exists>z. relay_step sys_recv sys_send fd fd' a y = Some z \<and> relay_ok z
      \<and> sb_capacity (fst z) = sb_capacity (fst y)"
    using relay_receive_ok [OF assms(1)] relay_transmit_ok [OF assms(2)] Cons.prems
    by (cases a) (auto simp: y)
  then obtain z where "relay_step sys_recv sys_send fd fd' a y = Some z" "relay_ok z"
    "sb_capacity (fst z) = sb_capacity (fst y)" by blast
  with Cons.IH [of z] show ?case by auto
qed simp

text \<open>
  C14. A relay between two sockets through one static buffer, whatever the order of its
  receives and sends, the sizes the kernel transfers and the failures in between: no call
  leaves the buffer, and at any time the bytes received are those sent, in order, followed
  by what the buffer holds, so nothing is lost, repeated or reordered.
\<close>

theorem relay_conserves_bytes:
  assumes "pipe_recv_documented sys_recv" and "pipe_send_documented sys_send"
    and "StaticBuffer_ok m s" and "sb_size s = 0"
  shows "\<exists>s' x'. relay_run sys_recv sys_send fd fd' as (s, \<lparr>pi_mem = m, pi_in = [], pi_out = []\<rparr>) = Some (s', x')
    \<and> StaticBuffer_ok (pi_mem x') s' \<and> sb_capacity s' = sb_capacity s
    \<and> pi_in x' = pi_out x' @ StaticBuffer_content (pi_mem x') s'"
proof -
  have "relay_ok (s, \<lparr>pi_mem = m, pi_in = [], pi_out = []\<rparr>)"
    using assms(3,4) StaticBuffer_load(2) [OF assms(3)] by (simp add: relay_ok_def)
  from relay_run_ok [OF assms(1,2) this, of fd fd' "as"] show ?thesis
    by (auto simp: relay_ok_def)
qed

section \<open>Sending everything\<close>

text \<open>
  The loop \<open>while (buf.size() > 0) { auto r = send(socket, buf.data()); if (!r) return r;
  buf.consume(r.bytes()); }\<close>: whether everything was sent, and the buffer.
\<close>

partial_function (option) send_all ::
  "'k sys_transfer \<Rightarrow> Socket \<Rightarrow> ConsumingBuffer \<Rightarrow> 'k \<Rightarrow> (bool \<times> ConsumingBuffer \<times> 'k) option" where
  "send_all sys socket buf k =
     (if ConsumingBuffer_size buf = 0 then Some (True, buf, k)
      else case send_buffer sys socket (ConsumingBuffer_data buf) k of (r, k) \<Rightarrow>
        if \<not> TransmitResult_bool r then Some (False, buf, k)
        else send_all sys socket (ConsumingBuffer_consume buf (TransmitResult_bytes r)) k)"

lemma send_all_run:
  assumes sys: "pipe_send_documented sys" and ok: "ConsumingBuffer_ok (pi_mem x) buf"
  shows "\<exists>done buf' out. send_all sys fd buf x = Some (done, buf', x\<lparr>pi_out := pi_out x @ out\<rparr>)
    \<and> ConsumingBuffer_ok (pi_mem x) buf'
    \<and> ConsumingBuffer_content (pi_mem x) buf = out @ ConsumingBuffer_content (pi_mem x) buf'
    \<and> (done \<longleftrightarrow> cs_size buf' = 0)"
  using ok
proof (induction "unat (cs_size buf)" arbitrary: buf x rule: less_induct)
  case less
  show ?case
  proof (cases "cs_size buf = 0")
    case True
    with less.prems show ?thesis
      by (intro exI [of _ True] exI [of _ buf] exI [of _ "[]"])
        (simp add: send_all.simps ConsumingBuffer_size_def)
  next
    case False
    have rd: "readable (pi_mem x) (cs_data buf) (unat (cs_size buf))"
      using less.prems by (simp add: ConsumingBuffer_ok_def)
    then obtain bs where bs: "load_bytes (pi_mem x) (cs_data buf) (unat (cs_size buf)) = Some bs"
      by (auto simp: readable_load)
    have call: "send_all sys fd buf x =
        (case sys (sock fd) (cs_data buf) (cs_size buf) 0 x of (v, errno, x) \<Rightarrow>
           if \<not> TransmitResult_bool (TransmitResult_make errno v) then Some (False, buf, x)
           else send_all sys fd (ConsumingBuffer_consume buf v) x)"
      using False
      by (subst send_all.simps)
        (simp add: ConsumingBuffer_size_def ConsumingBuffer_data_def send_buffer_def send_def transfer_def
          ConstBuffer_make_def bufferCast_def bufferSize_def Socket_native_def TransmitResult_bytes_def
          TransmitResult_make_def case_prod_beta Let_def)
    from rd consider (fail) errno where "sys (sock fd) (cs_data buf) (cs_size buf) 0 x = (-1, errno, x)"
      | (sent) xs errno where "length xs \<le> unat (cs_size buf)" "length xs < 2 ^ 63"
        "load_bytes (pi_mem x) (cs_data buf) (length xs) = Some xs"
        "sys (sock fd) (cs_data buf) (cs_size buf) 0 x = (of_nat (length xs), errno, x\<lparr>pi_out := pi_out x @ xs\<rparr>)"
      using sys unfolding pipe_send_documented_def by metis
    then show ?thesis
    proof cases
      case fail
      with False less.prems call show ?thesis
        by (intro exI [of _ False] exI [of _ buf] exI [of _ "[]"]) (simp add: transmit_failed)
    next
      case sent
      let ?n = "of_nat (length xs) :: u64" and ?x = "x\<lparr>pi_out := pi_out x @ xs\<rparr>"
      note count = transmit_result_count [OF sent(2)]
      show ?thesis
      proof (cases "xs = []")
        case True
        with False less.prems call sent(4) count(1) show ?thesis
          by (intro exI [of _ False] exI [of _ buf] exI [of _ "[]"]) simp
      next
        case more: False
        have n: "?n \<le> cs_size buf" using sent(1) count(3) by (simp add: word_le_nat_alt)
        let ?buf = "ConsumingBuffer_consume buf ?n"
        note rest = ConsumingBuffer_consume_drop [OF less.prems n, unfolded count(3)]
        have "0 < length xs" "unat (cs_size ?buf) = unat (cs_size buf) - length xs"
          using n more count(3) by (simp_all add: ConsumingBuffer_consume_def unat_sub)
        with sent(1) have "unat (cs_size ?buf) < unat (cs_size buf)" by linarith
        from less.hyps [OF this, of ?x] rest obtain d buf' out where
          IH: "send_all sys fd ?buf ?x = Some (d, buf', ?x\<lparr>pi_out := (pi_out x @ xs) @ out\<rparr>)"
          "ConsumingBuffer_ok (pi_mem x) buf'"
          "drop (length xs) (ConsumingBuffer_content (pi_mem x) buf) = out @ ConsumingBuffer_content (pi_mem x) buf'"
          "d \<longleftrightarrow> cs_size buf' = 0"
          by auto
        have "xs = take (length xs) (ConsumingBuffer_content (pi_mem x) buf)"
          using load_bytes_prefix [OF bs sent(1)] sent(3) bs by (simp add: ConsumingBuffer_content_def)
        then have "ConsumingBuffer_content (pi_mem x) buf = (xs @ out) @ ConsumingBuffer_content (pi_mem x) buf'"
          using IH(3) by (metis append.assoc append_take_drop_id)
        moreover have "send_all sys fd buf x = Some (d, buf', x\<lparr>pi_out := pi_out x @ (xs @ out)\<rparr>)"
          using call sent(4) count(1) more IH(1) by simp
        ultimately show ?thesis using IH(2,4) by blast
      qed
    qed
  qed
qed


text \<open>Kernels that transfer one byte at a time.\<close>

definition pipe_recv_seven :: "pipes sys_transfer" where
  "pipe_recv_seven fd p n flags x =
     (if n = 0 then (-1, 11, x)
      else case store_bytes (pi_mem x) p [7] of
        None \<Rightarrow> (-1, 14, x)
      | Some m \<Rightarrow> (1, 0, x\<lparr>pi_mem := m, pi_in := pi_in x @ [7]\<rparr>))"

definition pipe_send_one :: "pipes sys_transfer" where
  "pipe_send_one fd p n flags x =
     (if n = 0 then (0, 0, x)
      else case load_bytes (pi_mem x) p 1 of
        None \<Rightarrow> (-1, 14, x)
      | Some bs \<Rightarrow> (1, 0, x\<lparr>pi_out := pi_out x @ bs\<rparr>))"

lemma pipe_recv_seven_documented: "pipe_recv_documented pipe_recv_seven"
  unfolding pipe_recv_documented_def
proof (intro allI impI)
  fix fd p and n :: u64 and x
  show "(\<exists>errno. pipe_recv_seven fd p n 0 x = (-1, errno, x))
      \<or> (\<exists>xs m errno. length xs \<le> unat n \<and> length xs < 2 ^ 63 \<and> store_bytes (pi_mem x) p xs = Some m
           \<and> pipe_recv_seven fd p n 0 x = (of_nat (length xs), errno, x\<lparr>pi_mem := m, pi_in := pi_in x @ xs\<rparr>))"
  proof (cases "n = 0 \<or> store_bytes (pi_mem x) p [7] = None")
    case True
    then show ?thesis by (auto simp: pipe_recv_seven_def)
  next
    case False
    then have "0 < unat n" by (simp add: unat_gt_0)
    with False show ?thesis
      by (intro disjI2 exI [of _ "[7]"]) (auto simp: pipe_recv_seven_def)
  qed
qed

lemma pipe_send_one_documented: "pipe_send_documented pipe_send_one"
  unfolding pipe_send_documented_def
proof (intro allI impI)
  fix fd p and n :: u64 and x
  show "(\<exists>errno. pipe_send_one fd p n 0 x = (-1, errno, x))
      \<or> (\<exists>xs errno. length xs \<le> unat n \<and> length xs < 2 ^ 63 \<and> load_bytes (pi_mem x) p (length xs) = Some xs
           \<and> pipe_send_one fd p n 0 x = (of_nat (length xs), errno, x\<lparr>pi_out := pi_out x @ xs\<rparr>))"
  proof (cases "n = 0")
    case True
    then show ?thesis by (intro disjI2 exI [of _ "[]"]) (simp add: pipe_send_one_def)
  next
    case False
    then have "0 < unat n" by (simp add: unat_gt_0)
    with False show ?thesis
    proof (cases "load_bytes (pi_mem x) p 1")
      case (Some bs)
      then have "length bs = 1" by (rule load_bytes_length)
      with Some False \<open>0 < unat n\<close> show ?thesis
        by (intro disjI2 exI [of _ bs]) (simp add: pipe_send_one_def)
    qed (simp add: pipe_send_one_def)
  qed
qed

theorem relay_conserves_bytes_witness:
  "\<exists>s' x'. relay_run pipe_recv_seven pipe_send_one (Socket_make 3) (Socket_make 4)
      [Receive, Receive, Transmit, Receive, Transmit]
      (StaticBuffer_make (Pointer (Some 0) 0) 2, \<lparr>pi_mem = [0 \<mapsto> [0, 0]], pi_in = [], pi_out = []\<rparr>) = Some (s', x')
    \<and> pi_in x' = pi_out x' @ StaticBuffer_content (pi_mem x') s'"
proof -
  have "StaticBuffer_ok [0 \<mapsto> [0, 0 :: u8]] (StaticBuffer_make (Pointer (Some 0) 0) 2)"
    "sb_size (StaticBuffer_make (Pointer (Some 0) 0) 2) = 0"
    by (simp_all add: StaticBuffer_ok_def StaticBuffer_make_def readable_def load_bytes_def)
  from relay_conserves_bytes [OF pipe_recv_seven_documented pipe_send_one_documented this]
  show ?thesis by blast
qed


end
