(* ===== verification/Nb_Concepts.thy ===== *)
theory Nb_Concepts
  imports Main
begin

text \<open>
  \<open>netbox/details/concepts.h\<close> and the static assertions of \<open>netbox/socket_ops.h\<close>: what the
  compiler checks of an endpoint class before it instantiates \<open>connect\<close>, \<open>bind\<close> and \<open>accept\<close>.
  A class is the list of its public member functions.
\<close>

section \<open>Member functions and calls\<close>

datatype cpp_type =
    Const_sockaddr_ptr
  | Sockaddr_ptr
  | Void_ptr
  | Const_void_ptr
  | Socklen_t
  | Size_t
  | Int_t
  | Void

record member =
  mf_name :: string
  mf_const :: bool
  mf_params :: "cpp_type list"
  mf_result :: cpp_type

type_synonym class_members = "member list"

text \<open>The implicit conversions that matter here: between integers, and to pointers to const.\<close>

fun converts :: "cpp_type \<Rightarrow> cpp_type \<Rightarrow> bool" where
  "converts Socklen_t t \<longleftrightarrow> t \<in> {Socklen_t, Size_t, Int_t}"
| "converts Size_t t \<longleftrightarrow> t \<in> {Socklen_t, Size_t, Int_t}"
| "converts Int_t t \<longleftrightarrow> t \<in> {Socklen_t, Size_t, Int_t}"
| "converts Sockaddr_ptr t \<longleftrightarrow> t \<in> {Sockaddr_ptr, Const_sockaddr_ptr, Void_ptr, Const_void_ptr}"
| "converts Const_sockaddr_ptr t \<longleftrightarrow> t \<in> {Const_sockaddr_ptr, Const_void_ptr}"
| "converts Void_ptr t \<longleftrightarrow> t \<in> {Void_ptr, Const_void_ptr}"
| "converts Const_void_ptr t \<longleftrightarrow> t = Const_void_ptr"
| "converts Void t \<longleftrightarrow> t = Void"

text \<open>
  The type of a call of a member on an object, const or not: the viable functions have the
  name and accept the arguments, on a const object only const ones; on another object a
  function that is not const is preferred. None is an ill-formed expression.
\<close>

definition viable :: "bool \<Rightarrow> string \<Rightarrow> cpp_type list \<Rightarrow> member \<Rightarrow> bool" where
  "viable on_const name args m \<longleftrightarrow> mf_name m = name \<and> list_all2 converts args (mf_params m)
     \<and> (on_const \<longrightarrow> mf_const m)"

definition call_type :: "bool \<Rightarrow> class_members \<Rightarrow> string \<Rightarrow> cpp_type list \<Rightarrow> cpp_type option" where
  "call_type on_const ms name args =
     (let vs = filter (viable on_const name args) ms in
      case filter (\<lambda>m. \<not> mf_const m) vs @ vs of [] \<Rightarrow> None | m # _ \<Rightarrow> Some (mf_result m))"

section \<open>concepts.h\<close>

definition DataResultType :: "bool \<Rightarrow> class_members \<Rightarrow> cpp_type option" where
  "DataResultType is_const T = call_type is_const T ''data'' []"

definition SizeResultType :: "bool \<Rightarrow> class_members \<Rightarrow> cpp_type option" where
  "SizeResultType is_const T = call_type is_const T ''size'' []"

definition HasMemberResize :: "class_members \<Rightarrow> bool" where
  "HasMemberResize T \<longleftrightarrow> call_type False T ''resize'' [Socklen_t] \<noteq> None"

section \<open>The static assertions of socket_ops.h\<close>

text \<open>\<open>connect\<close> and \<open>bind\<close> have the same two, \<open>accept\<close> a third.\<close>

definition connect_asserts :: "class_members \<Rightarrow> bool" where
  "connect_asserts T \<longleftrightarrow> DataResultType True T = Some Const_sockaddr_ptr \<and> SizeResultType True T = Some Socklen_t"

definition accept_asserts :: "class_members \<Rightarrow> bool" where
  "accept_asserts T \<longleftrightarrow> DataResultType True T = Some Const_sockaddr_ptr \<and> SizeResultType True T = Some Socklen_t
     \<and> HasMemberResize T"

text \<open>
  What the bodies need: \<open>endpoint.data()\<close> and \<open>endpoint.size()\<close> on a const object for a
  \<open>const sockaddr*\<close> and a \<open>socklen_t\<close>, and for \<open>accept\<close>, on an object that is not const, a
  \<open>sockaddr*\<close> and a \<open>resize\<close>.
\<close>

definition connect_body :: "class_members \<Rightarrow> bool" where
  "connect_body T \<longleftrightarrow>
     (\<exists>t u. call_type True T ''data'' [] = Some t \<and> converts t Const_sockaddr_ptr
        \<and> call_type True T ''size'' [] = Some u \<and> converts u Socklen_t)"

definition accept_body :: "class_members \<Rightarrow> bool" where
  "accept_body T \<longleftrightarrow>
     (\<exists>t. call_type False T ''data'' [] = Some t \<and> converts t Sockaddr_ptr)
     \<and> call_type False T ''resize'' [Socklen_t] \<noteq> None"

section \<open>The classes of the library\<close>

text \<open>The endpoints of both families, those of a resolution, and a boolean option.\<close>

definition endpoint_members :: class_members where
  "endpoint_members =
     [\<lparr>mf_name = ''data'', mf_const = True, mf_params = [], mf_result = Const_sockaddr_ptr\<rparr>,
      \<lparr>mf_name = ''data'', mf_const = False, mf_params = [], mf_result = Sockaddr_ptr\<rparr>,
      \<lparr>mf_name = ''size'', mf_const = True, mf_params = [], mf_result = Socklen_t\<rparr>,
      \<lparr>mf_name = ''resize'', mf_const = False, mf_params = [Socklen_t], mf_result = Void\<rparr>]"

definition resolved_members :: class_members where
  "resolved_members =
     [\<lparr>mf_name = ''domain'', mf_const = True, mf_params = [], mf_result = Int_t\<rparr>,
      \<lparr>mf_name = ''type'', mf_const = True, mf_params = [], mf_result = Int_t\<rparr>,
      \<lparr>mf_name = ''protocol'', mf_const = True, mf_params = [], mf_result = Int_t\<rparr>,
      \<lparr>mf_name = ''data'', mf_const = True, mf_params = [], mf_result = Const_sockaddr_ptr\<rparr>,
      \<lparr>mf_name = ''size'', mf_const = True, mf_params = [], mf_result = Socklen_t\<rparr>]"

definition option_members :: class_members where
  "option_members =
     [\<lparr>mf_name = ''data'', mf_const = False, mf_params = [], mf_result = Void_ptr\<rparr>,
      \<lparr>mf_name = ''data'', mf_const = True, mf_params = [], mf_result = Const_void_ptr\<rparr>,
      \<lparr>mf_name = ''size'', mf_const = True, mf_params = [], mf_result = Size_t\<rparr>,
      \<lparr>mf_name = ''resize'', mf_const = False, mf_params = [Size_t], mf_result = Void\<rparr>]"

lemmas concept_eval =
  connect_asserts_def accept_asserts_def connect_body_def accept_body_def DataResultType_def
  SizeResultType_def HasMemberResize_def call_type_def viable_def Let_def

text \<open>
  Which classes pass which assertions, and that a class that passes those of \<open>connect\<close> can be
  used by its body. For \<open>accept\<close> this fails: the assertion is about \<open>data()\<close> of a const
  object, and the body calls that of an object that is not const.
\<close>

lemma endpoint_concepts:
  "connect_asserts endpoint_members" "accept_asserts endpoint_members" "accept_body endpoint_members"
  by (simp_all add: concept_eval endpoint_members_def)

lemma resolved_concepts:
  "connect_asserts resolved_members" "\<not> accept_asserts resolved_members"
  by (simp_all add: concept_eval resolved_members_def)

lemma option_concepts: "HasMemberResize option_members" "\<not> connect_asserts option_members"
  by (simp_all add: concept_eval option_members_def)

lemma connect_asserts_suffice: "connect_asserts T \<Longrightarrow> connect_body T"
  by (simp add: connect_asserts_def connect_body_def DataResultType_def SizeResultType_def)

lemma accept_asserts_insufficient:
  "\<exists>T. accept_asserts T \<and> \<not> accept_body T"
proof (intro exI conjI)
  let ?T = "\<lparr>mf_name = ''resize'', mf_const = False, mf_params = [Socklen_t], mf_result = Void\<rparr> # resolved_members"
  show "accept_asserts ?T" "\<not> accept_body ?T" by (simp_all add: concept_eval resolved_members_def)
qed

end
