(* ===== verification/Spec2Isabelle.thy ===== *)
theory Spec2Isabelle
  imports
    Nb_Diagnostics
    Nb_Tests
    Nb_Resolve
    Nb_Buffer
    Nb_Result
    Nb_Accept
    Nb_OptionTypes
    Nb_FileLife
    Nb_DoneCallback
    Nb_Relay
    Nb_Concepts
begin

text \<open>
  Verification of netbox, a C++17 library of headers in \<open>src/netbox\<close> with example programs in
  \<open>src/examples\<close>.

  \<^bold>\<open>The program.\<close> Netbox has two halves. One reads captured network traffic: a \<open>FileReader\<close>
  opens a plain, xz or gzip file by its name and puts a decoding stream buffer in front of it;
  a \<open>pcap::Reader\<close> checks the header of a capture and reads its packets into one buffer of its
  own; a \<open>PcapPacketSource\<close> keeps the next packet of each of several readers in a multimap by
  time and hands out the earliest; the classes of \<open>pdu\<close> are views of the headers in a packet.
  The other half wraps BSD sockets: addresses and endpoints of both families, an owner of a
  descriptor, results and exceptions, socket options, the system calls, name resolution, and
  two buffer classes for what is sent and received.

  \<^bold>\<open>Conventions.\<close> A C++ integer is a word of its width, and its arithmetic wraps. A struct or
  class is a record, and an operation that changes its object returns the new one. None is
  undefined behaviour: an access outside a block of memory or through a null pointer, an
  overlapping \<open>memcpy\<close>, a call on a reader that was moved from. An operation that may throw
  returns a sum, with the exception (\<open>exn\<close>) on the left. Code outside the repository is an
  argument of the definitions: a system call is a function on an abstract kernel state, which
  also gives the result and \<open>errno\<close>; the file system, zlib and liblzma are fields of the record
  \<open>platform\<close> or arguments of the stream buffers. The byte order of the host is an argument
  (\<open>endian\<close>), so both branches of the conditional compilation are covered.

  \<^bold>\<open>Theories and what they model\<close> (paths under \<open>src/netbox\<close> unless they start with \<open>examples\<close>):
  \<^item> \<open>Nb_Prelude\<close>: machine integers, sums as exceptions, words as byte sequences, the rewrite
    rules shared by all; \<open>Nb_Memory\<close>: blocks of bytes, pointers, partial loads and stores,
    \<open>memmove\<close>.
  \<^item> \<open>Nb_ByteOrder\<close>: \<open>details/byte_order.h\<close>. \<open>Nb_Error\<close>: \<open>exception.h\<close>, \<open>ErrorCode.h\<close>.
    \<open>Nb_Debug\<close>: \<open>debug.h\<close>, with the directives of \<open>fprintf\<close> the library uses.
    \<open>Nb_Result\<close>: \<open>result.h\<close>.
  \<^item> \<open>Nb_Endpoint\<close>, \<open>Nb_IPv4\<close>, \<open>Nb_IPv6\<close>: \<open>IPv4.h\<close>, \<open>IPv6.h\<close> and the address and endpoint classes
    of \<open>details/ipv4\<close> and \<open>details/ipv6\<close>.
  \<^item> \<open>Nb_Buffer\<close>: \<open>buffer.h\<close>, \<open>StaticBuffer.h\<close>, \<open>ConsumingBuffer.h\<close>.
  \<^item> \<open>Nb_Socket\<close>: \<open>Protocol.h\<close>, \<open>Socket.h\<close>, and a small language of client programs over sockets.
  \<^item> \<open>Nb_SocketOptions\<close>: \<open>socket_options.h\<close>, \<open>details/socket_options.h\<close>. \<open>Nb_SocketOps\<close>:
    \<open>socket_ops.h\<close>. \<open>Nb_Relay\<close>: two clients of it with the buffers, a relay and a loop that
    sends everything. \<open>Nb_Concepts\<close>: \<open>details/concepts.h\<close> and the static assertions
    that use it, on classes given by the signatures of their members. \<open>Nb_Resolve\<close>: \<open>resolve.h\<close> and \<open>examples/connect.cpp\<close>. \<open>Nb_Accept\<close>:
    \<open>examples/accept.cpp\<close>. \<open>Nb_RxRing\<close>: \<open>examples/rxring.cpp\<close>. \<open>Nb_OptionTypes\<close>: the option
    classes as a type system. \<open>Nb_Tests\<close>: the assertions of
    \<open>tests/test_ipv4.cpp\<close>.
  \<^item> \<open>Nb_Pdu\<close>: \<open>pdu/EthernetII.h\<close>, \<open>pdu/IPv4.h\<close>, \<open>pdu/UDP.h\<close>.
  \<^item> \<open>Nb_String\<close>: \<open>utils/string.h\<close>. \<open>Nb_FileReader\<close>: \<open>utils/FileReader.h\<close> over a model of input
    streams. \<open>Nb_Gzip\<close>, \<open>Nb_Lzma\<close>: the stream buffers of \<open>utils/GZipDecompressStream.h\<close> and
    \<open>utils/LZMADecompressStream.h\<close>. \<open>Nb_Decoding\<close>: both of them behind the file reader.
    \<open>Nb_StreamBuffer\<close>, \<open>Nb_OnDemand\<close>: \<open>std::istream\<close> over a stream buffer, and the file reader with
    streams that decode as they are read. \<open>Nb_FileLife\<close>: the heap objects and pointers of
    \<open>utils/FileReader.h\<close>, from construction to destruction.
  \<^item> \<open>Nb_Reader\<close>: \<open>pcap/pcap.h\<close>, \<open>pcap/Packet.h\<close>, \<open>pcap/Reader.h\<close>. The reader, the source and
    their programs are written once, over the operations of a file as a record (\<open>file_ops\<close>,
    with the call of \<open>debug\<close> among them), in definitions ending in \<open>_on\<close>; the definitions
    without it are those on the decoded whole of a file, without messages. \<open>Nb_Capture\<close>: what the reader does
    with whole files. \<open>Nb_PcapReader\<close>: \<open>examples/pcap_reader.cpp\<close>.
    \<open>Nb_Frames\<close>: frames as values with a writer of their bytes, and what that program prints.
  \<^item> \<open>Nb_PacketSource\<close>: \<open>PcapPacketSource.h\<close> and \<open>examples/packet_source.cpp\<close>, against the
    specification in \<open>Nb_Merge\<close>. \<open>Nb_DoneCallback\<close>: its \<open>readNextPacket\<close> with a callback that may
    change the source. \<open>Nb_EndToEnd\<close>: the whole chain from compressed files to the
    merged packets.
  \<^item> \<open>Nb_Simulation\<close>, \<open>Nb_Chain\<close>: the same programs over streams that decode on demand.
    \<open>Nb_Diagnostics\<close>: the reader with its messages.

  \<^bold>\<open>Specifications.\<close> Four contracts are stated without the code. \<open>pcap_file\<close> (\<open>Nb_Reader\<close>)
  says which packets the bytes of a capture hold, and \<open>capture_bytes\<close> (\<open>Nb_Capture\<close>) is a writer
  of the format. \<open>merge_lanes\<close> (\<open>Nb_Merge\<close>) is the merge of several packet sequences, proved
  to lose nothing, to keep the order of every sequence, and to sort sorted ones. A bounded byte
  queue (\<open>Nb_Buffer\<close>) is what \<open>StaticBuffer\<close> refines. \<open>frame_bytes\<close> and \<open>frame_lines\<close> (\<open>Nb_Frames\<close>)
  are the bytes of an Ethernet frame and what is to be printed for it.

  \<^bold>\<open>Interfaces.\<close> \<open>packet_stream\<close> and its extension \<open>finished_stream\<close> (\<open>Nb_Stream\<close>): an operation that
  delivers the next packet, with the loops of the clients proved once; interpreted by the
  reader (\<open>reader\<close>) and by the merging source (\<open>source\<close>). \<open>endpoint_interface\<close>: address and port of an
  endpoint (\<open>ep4\<close>, \<open>ep6\<close>); \<open>endpoint_storage\<close>: its bytes, as \<open>accept\<close> fills them (\<open>st4\<close>, \<open>st6\<close>). \<open>pdu_interface\<close>: a view with a header and a payload (\<open>eth\<close>, \<open>ip\<close>, \<open>udp\<close>).
  \<open>consumable_buffer\<close> (\<open>static_buffer\<close>, \<open>consuming_buffer\<close>). \<open>settable_option\<close> and
  \<open>gettable_option\<close> (\<open>boolean_option\<close>, \<open>integer_option\<close>, \<open>multicast_option\<close>, \<open>source_option\<close>,
  \<open>struct_option\<close>, \<open>typed_option\<close>). \<open>stream_buffer\<close> (\<open>Nb_StreamBuffer\<close>): a get area with \<open>gbump\<close> and
  \<open>underflow\<close>, for which reading on demand is proved to be reading from the list of all bytes
  (\<open>gzb\<close>, \<open>xzb\<close>). \<open>file_simulation\<close> (\<open>Nb_Simulation\<close>): two records of file operations of which the
  second does what the first does; interpreted by decoding on demand (\<open>demand\<close>) and by the
  operations with messages (\<open>traced\<close>).

  \<^bold>\<open>Lemma groups.\<close>
  \<^item> \<open>Nb_Reader\<close>, \<open>Nb_Capture\<close>: the reader stays inside its buffer, a read loop returns and gives
    what the format defines, on files that are complete, cut off, foreign or oversize.
  \<^item> \<open>Nb_PacketSource\<close>: \<open>Source_ok\<close>, the invariant of queue, storage and buffers, is kept by every
    operation; \<open>Source_lanes\<close> abstracts a state to packet sequences, and each operation is a step
    of the merge on them. The reachable states are an inductive step relation.
  \<^item> \<open>Nb_Gzip\<close>, \<open>Nb_Lzma\<close>: for a decoder that behaves as documented, every refill returns and a
    stream that is drained has delivered the decoded data, whatever the chunks.
  \<^item> \<open>Nb_OnDemand\<close>: a simulation between the two ways of reading a file, for any client (a tree
    of reads and queries that goes on with what it was given), which justifies that the
    theories above it give a decoder by the bytes it delivers. \<open>Nb_Simulation\<close> lifts a simulation of
    the file operations to every operation of reader and source and to the programs, and
    \<open>Nb_Chain\<close> applies it: the programs that decode as they read merge and print what is
    specified of the files. \<open>Nb_Diagnostics\<close>: the messages written for a file by the way it
    ends, stated from its bytes. \<open>Nb_FileLife\<close>: every live stream
    has one owner, which its pointers and references stay within. \<open>Nb_DoneCallback\<close>: a read with
    a callback keeps the invariant of the source, and the loop between two calls of it.
  \<^item> \<open>Nb_Buffer\<close>: sequences of buffer operations against the byte queue. \<open>Nb_Socket\<close>: programs of
    moves, swaps, closes and destructions conserve the multiset of descriptors.
  \<^item> \<open>Nb_Pdu\<close>, \<open>Nb_PcapReader\<close>: views and printing read only inside the packet; fields by offset.
  \<^item> \<open>Nb_Resolve\<close>, \<open>Nb_SocketOps\<close>, \<open>Nb_SocketOptions\<close>, \<open>Nb_OptionTypes\<close>, \<open>Nb_Accept\<close>,
    \<open>Nb_RxRing\<close>: what the kernel is
    given, in wire format, and what the programs do with its answers. \<open>Nb_Relay\<close>: bytes received
    are bytes sent and bytes held, over any run.

  \<^bold>\<open>Hypotheses on outside code.\<close> \<open>inflate_documented\<close>: on a decodable input zlib's \<open>inflate\<close>
  stays within its input and its room, makes progress, its output is the next part of the
  decoded data, and it answers with the end of the stream once that is reached.
  \<open>lzma_progress\<close>: \<open>lzma_code\<close> answers with an error after at most two calls without progress.
  \<open>lzma_decodes\<close>: as \<open>inflate_documented\<close>, for \<open>lzma_code\<close>. \<open>accept_documented\<close> and
  \<open>recv_documented\<close>: what \<open>accept\<close> and \<open>recv\<close> store, \<open>pipe_recv_documented\<close> and
  \<open>pipe_send_documented\<close>: which bytes \<open>recv\<close> and \<open>send\<close> transfer; \<open>fcntl_documented\<close>: which flags the commands
  of \<open>fcntl\<close> read and set. Each of them is proved of a concrete function
  that the witnesses use. What the kernel requires of a packet ring is
  \<open>ring_accepted\<close>, and the types of the objects it documents for its options are \<open>kernel_types\<close>.

  \<^bold>\<open>Loops.\<close> A loop of the source that need not end is a \<open>partial_function\<close> in the option monad, and
  there is no fuel. Each is proved to return: the read loops because every packet takes at
  least a header from the stream; \<open>gz_loop\<close> by the input and output left; \<open>xz_loop\<close> by the
  input left and the state of progress of the decoder; the loops over a resolution by the
  length of the list. \<open>eof_loop\<close> of \<open>examples/pcap_reader.cpp\<close> does not end when a decoder
  fails, which is proved too.

  \<^bold>\<open>Not modelled.\<close> \<open>compiler.h\<close> (branch hints), the text the stream operators print of addresses, except where
  it is computed by the library, and the memory behind \<open>msghdr\<close> vectors, which
  the library hands to the kernel as it gets them.
\<close>

end
